(* ===== verification/Prelude.thy ===== *)
theory Prelude
  imports Complex_Main "HOL-Library.AList" "HOL-Library.Char_ord"
    "HOL-Library.List_Lexorder" "HOL-Library.Multiset"
begin

text \<open>
  Shared vocabulary of the development: the Go values the components are written in and the
  generic lemmas about them.

  \<^item> A Go \<open>float64\<close> is a \<^typ>\<open>real\<close> (rounding is idealised; the sentinel
    \<open>math.MaxFloat64\<close> is kept as the number it is).  A Go \<open>int\<close> is an
    \<^typ>\<open>int\<close>; \<open>math.MaxInt\<close>, used as the ``unlimited'' budget, is kept as the
    number it is.  Integer division truncates towards zero.
  \<^item> A Go \<open>map\<close> is an association list with distinct keys.  The position of an entry
    is the order in which \<open>range\<close> visits it: Go leaves that order open, so the theorems
    hold for every list.  Reading an absent key gives the zero value.
  \<^item> \<open>sort.Slice\<close> is the insertion sort Go runs on short slices.  The components'
    theorems only use that it permutes its input and, where the order matters, that it sorts.
\<close>

named_theorems gomap \<open>reading a map after it was written\<close>
named_theorems gosort \<open>sorting permutes\<close>

type_synonym gofloat = real
type_synonym ('k, 'v) gomap = "('k \<times> 'v) list"

section \<open>Numbers\<close>

definition MaxInt :: int where
  "MaxInt = 2 ^ 63 - 1"

definition MaxFloat64 :: gofloat where
  "MaxFloat64 = (2 ^ 53 - 1) * 2 ^ 971"

text \<open>Integer division of Go: the quotient is truncated towards zero.\<close>

definition go_div :: "int \<Rightarrow> int \<Rightarrow> int" where
  "go_div a b = sgn a * sgn b * (\<bar>a\<bar> div \<bar>b\<bar>)"

text \<open>\<open>math.Round\<close>: to the nearest integer, halves away from zero.\<close>

definition go_round :: "gofloat \<Rightarrow> int" where
  "go_round x = (if 0 \<le> x then \<lfloor>x + 1/2\<rfloor> else \<lceil>x - 1/2\<rceil>)"

text \<open>Conversion of a float to an integer cuts the fraction off; 64-bit arithmetic wraps around.\<close>

definition go_trunc :: "gofloat \<Rightarrow> int" where
  "go_trunc x = (if 0 \<le> x then \<lfloor>x\<rfloor> else \<lceil>x\<rceil>)"

definition wrap64 :: "int \<Rightarrow> int" where
  "wrap64 x = (x + 2 ^ 63) mod 2 ^ 64 - 2 ^ 63"

lemma wrap64_id: "- (2 ^ 63) \<le> x \<Longrightarrow> x < 2 ^ 63 \<Longrightarrow> wrap64 x = x"
  by (simp add: wrap64_def)

lemma go_trunc_bounds: "0 \<le> x \<Longrightarrow> 0 \<le> go_trunc x \<and> of_int (go_trunc x) \<le> x \<and> x < of_int (go_trunc x) + 1"
  by (simp add: go_trunc_def)

lemma go_trunc_mono: "x \<le> y \<Longrightarrow> go_trunc x \<le> go_trunc y"
  by (auto simp: go_trunc_def floor_mono ceiling_mono) (smt (verit) ceiling_le_zero zero_le_floor)+

lemma go_div_nonneg: "0 \<le> a \<Longrightarrow> 0 < b \<Longrightarrow> go_div a b = a div b"
  by (cases "a = 0") (auto simp: go_div_def)

lemma go_div_ge0: "0 \<le> a \<Longrightarrow> 0 < b \<Longrightarrow> 0 \<le> go_div a b"
  by (simp add: go_div_nonneg pos_imp_zdiv_nonneg_iff)

lemma go_div_mult_le: "0 \<le> a \<Longrightarrow> 0 < b \<Longrightarrow> go_div a b * b \<le> a"
  by (simp add: go_div_nonneg) (metis mult.commute mult_div_mod_eq add_increasing2 order_refl
      pos_mod_sign)

lemma go_div_le_of_le_mult: "0 \<le> a \<Longrightarrow> 0 < b \<Longrightarrow> a \<le> n * b \<Longrightarrow> go_div a b \<le> n"
  using zdiv_mono1 [of a "n * b" b] by (simp add: go_div_nonneg)

lemma go_div_mult_self: "0 \<le> n \<Longrightarrow> 0 < b \<Longrightarrow> go_div (n * b) b = n"
  by (simp add: go_div_nonneg)

section \<open>Printing integers\<close>

text \<open>The verb \<open>%d\<close> of \<open>fmt.Sprintf\<close>.\<close>

fun utoa :: "nat \<Rightarrow> string" where
  "utoa n = (if n < 10 then [char_of (48 + n)] else utoa (n div 10) @ [char_of (48 + n mod 10)])"

declare utoa.simps [simp del]

definition itoa :: "int \<Rightarrow> string" where
  "itoa i = (if i < 0 then CHR ''-'' # utoa (nat (- i)) else utoa (nat i))"

section \<open>Maps\<close>

definition mget :: "'v \<Rightarrow> ('k, 'v) gomap \<Rightarrow> 'k \<Rightarrow> 'v" where
  "mget z m k = (case map_of m k of None \<Rightarrow> z | Some v \<Rightarrow> v)"

definition mhas :: "('k, 'v) gomap \<Rightarrow> 'k \<Rightarrow> bool" where
  "mhas m k = (map_of m k \<noteq> None)"

abbreviation mput :: "'k \<Rightarrow> 'v \<Rightarrow> ('k, 'v) gomap \<Rightarrow> ('k, 'v) gomap" where
  "mput \<equiv> AList.update"

abbreviation mkeys :: "('k, 'v) gomap \<Rightarrow> 'k list" where
  "mkeys m \<equiv> map fst m"

abbreviation wf_map :: "('k, 'v) gomap \<Rightarrow> bool" where
  "wf_map m \<equiv> distinct (map fst m)"

text \<open>\<open>m[k] += x\<close>.\<close>

definition madd :: "'k \<Rightarrow> int \<Rightarrow> ('k, int) gomap \<Rightarrow> ('k, int) gomap" where
  "madd k x m = mput k (mget 0 m k + x) m"

lemma mget_Nil [simp, gomap]: "mget z [] k = z"
  by (simp add: mget_def)

lemma mget_Cons [simp, gomap]: "mget z ((k', v) # m) k = (if k = k' then v else mget z m k)"
  by (simp add: mget_def)

lemma mget_mput [simp, gomap]: "mget z (mput k v m) k' = (if k' = k then v else mget z m k')"
  by (simp add: mget_def update_conv)

lemma mget_madd [simp, gomap]: "mget 0 (madd k x m) k' = mget 0 m k' + (if k' = k then x else 0)"
  by (simp add: madd_def)

lemma wf_mput [simp, intro]: "wf_map m \<Longrightarrow> wf_map (mput k v m)"
  by (rule distinct_update)

lemma wf_madd [simp, intro]: "wf_map m \<Longrightarrow> wf_map (madd k x m)"
  by (simp add: madd_def)

lemma mhas_Nil [simp]: "\<not> mhas [] k"
  by (simp add: mhas_def)

lemma mhas_iff: "mhas m k \<longleftrightarrow> k \<in> set (mkeys m)"
  by (induction m) (auto simp: mhas_def)

lemma mhas_mput [simp]: "mhas (mput k v m) k' \<longleftrightarrow> k' = k \<or> mhas m k'"
  by (auto simp: mhas_def update_conv)

lemma mhas_madd [simp]: "mhas (madd k x m) k' \<longleftrightarrow> k' = k \<or> mhas m k'"
  by (simp add: madd_def)

lemma set_mkeys_mput: "set (mkeys (mput k v m)) = insert k (set (mkeys m))"
  by (induction m) auto

lemma mget_absent: "\<not> mhas m k \<Longrightarrow> mget z m k = z"
  by (simp add: mhas_def mget_def)

lemma mhas_of_pos: "0 < mget 0 m k \<Longrightarrow> mhas m (k :: 'k)" for m :: "('k, int) gomap"
  using mget_absent [of m k 0] by fastforce

lemma mget_in: "wf_map m \<Longrightarrow> (k, v) \<in> set m \<Longrightarrow> mget z m k = v"
  by (simp add: mget_def)

lemma fresh_key:
  "(\<forall>x\<in>A. (m(k \<mapsto> v)) (f x) = None) \<longleftrightarrow> k \<notin> f ` A \<and> (\<forall>x\<in>A. m (f x) = None)"
  (is "?L \<longleftrightarrow> ?R")
proof
  assume L: ?L
  then have "f x \<noteq> k" if "x \<in> A" for x using that by force
  with L show ?R by auto
qed auto

text \<open>Writing keys that are new and different appends the entries.\<close>

lemma mput_fresh: "k \<notin> fst ` set m \<Longrightarrow> mput k v m = m @ [(k, v)]"
  by (induction m) auto

lemma fold_mput_fresh:
  "distinct (map f xs) \<Longrightarrow> f ` set xs \<inter> fst ` set m = {} \<Longrightarrow>
     fold (\<lambda>x. mput (f x) (g x)) xs m = m @ map (\<lambda>x. (f x, g x)) xs"
proof (induction xs arbitrary: m)
  case (Cons x xs)
  then have "mput (f x) (g x) m = m @ [(f x, g x)]" by (intro mput_fresh) auto
  then show ?case using Cons by auto
qed simp

lemma map_of_map_key: "map_of (map (\<lambda>(k, v). (k, f k v)) m) k' = map_option (f k') (map_of m k')"
  by (induction m) auto

text \<open>The sum of all values of a map, and how one write changes it.\<close>

abbreviation msum :: "('k, int) gomap \<Rightarrow> int" where
  "msum m \<equiv> sum_list (map snd m)"

lemma msum_mput: "wf_map m \<Longrightarrow> msum (mput k v m) = msum m - mget 0 m k + v"
proof (induction m)
  case (Cons p m)
  then show ?case by (cases p) (auto simp: mget_absent mhas_iff)
qed simp

lemma msum_madd: "wf_map m \<Longrightarrow> msum (madd k x m) = msum m + x"
  by (simp add: madd_def msum_mput)

lemma msum_eq_sum: "wf_map m \<Longrightarrow> msum m = (\<Sum>k\<in>set (mkeys m). mget 0 m k)"
proof (induction m)
  case (Cons p m)
  obtain k v where p: "p = (k, v)" by (cases p)
  have "(\<Sum>j\<in>set (mkeys m). mget 0 (p # m) j) = (\<Sum>j\<in>set (mkeys m). mget 0 m j)"
    using Cons.prems p by (intro sum.cong) auto
  with Cons p show ?case by simp
qed simp

text \<open>A write to a map changes a sum over its values by what it replaces and what it adds.\<close>

lemma sum_mput:
  assumes "wf_map m" and "F z = (0 :: 'a :: ab_group_add)"
  shows "(\<Sum>(_, v)\<leftarrow>mput k x m. F v) = (\<Sum>(_, v)\<leftarrow>m. F v) - F (mget z m k) + F x"
  using assms
proof (induction m)
  case (Cons p m)
  then show ?case by (cases p) (auto simp: mget_absent mhas_iff)
qed simp

section \<open>Sorting\<close>

text \<open>
  The prefix already sorted is kept reversed: an element moves left past every neighbour it is
  less than, as the inner loop of \<open>insertionSort\<close> swaps it.
\<close>

fun sort_ins :: "('a \<Rightarrow> 'a \<Rightarrow> bool) \<Rightarrow> 'a \<Rightarrow> 'a list \<Rightarrow> 'a list" where
  "sort_ins lt x [] = [x]"
| "sort_ins lt x (y # ys) = (if lt x y then y # sort_ins lt x ys else x # y # ys)"

definition go_sort :: "('a \<Rightarrow> 'a \<Rightarrow> bool) \<Rightarrow> 'a list \<Rightarrow> 'a list" where
  "go_sort lt xs = rev (fold (sort_ins lt) xs [])"

lemma mset_sort_ins: "mset (sort_ins lt x ys) = add_mset x (mset ys)"
  by (induction ys) auto

lemma mset_fold_sort_ins: "mset (fold (sort_ins lt) xs acc) = mset xs + mset acc"
  by (induction xs arbitrary: acc) (auto simp: mset_sort_ins)

lemma mset_go_sort [simp, gosort]: "mset (go_sort lt xs) = mset xs"
  by (simp add: go_sort_def mset_fold_sort_ins)

lemma set_go_sort [simp, gosort]: "set (go_sort lt xs) = set xs"
  by (rule mset_eq_setD) simp

lemma length_go_sort [simp, gosort]: "length (go_sort lt xs) = length xs"
  by (rule mset_eq_length) simp

lemma distinct_go_sort [simp, gosort]: "distinct (go_sort lt xs) = distinct xs"
  by (rule mset_eq_imp_distinct_iff) simp

lemma go_sort_Nil [simp]: "go_sort lt [] = []"
  by (simp add: go_sort_def)

text \<open>
  The order a strict weak ordering asks for: no element is less than one that stands before it.
\<close>

definition strict_weak :: "('a \<Rightarrow> 'a \<Rightarrow> bool) \<Rightarrow> bool" where
  "strict_weak lt \<longleftrightarrow> (\<forall>x y. lt x y \<longrightarrow> \<not> lt y x) \<and>
     (\<forall>x y z. \<not> lt x y \<longrightarrow> \<not> lt y z \<longrightarrow> \<not> lt x z)"

lemma set_sort_ins: "set (sort_ins lt x ys) = insert x (set ys)"
  by (induction ys) auto

lemma sorted_sort_ins:
  assumes "strict_weak lt"
    and "sorted_wrt (\<lambda>a b. \<not> lt a b) ys"
  shows "sorted_wrt (\<lambda>a b. \<not> lt a b) (sort_ins lt x ys)"
  using assms(2)
proof (induction ys)
  case (Cons y ys)
  show ?case
  proof (cases "lt x y")
    case True
    then have "\<not> lt y x" using assms(1) unfolding strict_weak_def by blast
    moreover have "sorted_wrt (\<lambda>a b. \<not> lt a b) (sort_ins lt x ys)"
      using Cons by simp
    ultimately show ?thesis using True Cons.prems by (simp add: set_sort_ins)
  next
    case False
    have "\<not> lt x z" if "z \<in> set ys" for z
    proof -
      have "\<not> lt y z" using Cons.prems that by simp
      with False show ?thesis using assms(1) unfolding strict_weak_def by blast
    qed
    with False Cons.prems show ?thesis by auto
  qed
qed simp

lemma sorted_fold_sort_ins:
  "strict_weak lt \<Longrightarrow> sorted_wrt (\<lambda>a b. \<not> lt a b) acc \<Longrightarrow>
   sorted_wrt (\<lambda>a b. \<not> lt a b) (fold (sort_ins lt) xs acc)"
  by (induction xs arbitrary: acc) (simp_all add: sorted_sort_ins)

lemma sorted_go_sort: "strict_weak lt \<Longrightarrow> sorted_wrt (\<lambda>a b. \<not> lt b a) (go_sort lt xs)"
  by (simp add: go_sort_def sorted_wrt_rev sorted_fold_sort_ins)

section \<open>Lists\<close>

lemma map_nth_upt: "map (\<lambda>i. f (xs ! i)) [0..<length xs] = map f xs"
  by (rule nth_equalityI) simp_all

lemma sum_list_update_int:
  "i < length xs \<Longrightarrow> sum_list (map f (xs[i := y])) = sum_list (map f xs) - f (xs ! i) + (f y :: int)"
proof (induction xs arbitrary: i)
  case (Cons x xs)
  then show ?case by (cases i) simp_all
qed simp

end
