(* ===== verification/Domain.thy ===== *)
theory Domain
  imports Prelude
begin

text \<open>
  The data that flows through the scaling pipeline (package \<open>internal/domain\<close>): the
  decision every stage reads and rewrites, the replica state of a variant, and the capacity
  reports of the analyzers.  Records keep the fields of the Go structs under a prefix per
  struct.  Pointers to optional integers are \<^typ>\<open>int option\<close>.  Left out are the fields
  no modelled operation reads or writes: wall-clock stamps, the Kubernetes object reference, the
  collected allocation snapshot, and the token counts and metrics conditions that only feed
  status and gauges.
\<close>

section \<open>Actions and reasons\<close>

type_synonym SaturationAction = string
type_synonym DecisionReason = string

definition ActionScaleUp :: SaturationAction where "ActionScaleUp = ''scale-up''"
definition ActionScaleDown :: SaturationAction where "ActionScaleDown = ''scale-down''"
definition ActionNoChange :: SaturationAction where "ActionNoChange = ''no-change''"

definition DecisionReasonV2 :: DecisionReason where "DecisionReasonV2 = ''V2''"
definition DecisionReasonSaturationOnly :: DecisionReason where
  "DecisionReasonSaturationOnly = ''saturation-only mode''"
definition DecisionReasonRescale :: DecisionReason where "DecisionReasonRescale = ''rescale''"

definition SaturationAnalyzerName :: string where "SaturationAnalyzerName = ''saturation''"
definition RoleBoth :: string where "RoleBoth = ''both''"
definition RolePrefill :: string where "RolePrefill = ''prefill''"
definition RoleDecode :: string where "RoleDecode = ''decode''"

lemmas domain_consts = ActionScaleUp_def ActionScaleDown_def ActionNoChange_def
  DecisionReasonV2_def DecisionReasonSaturationOnly_def DecisionReasonRescale_def
  SaturationAnalyzerName_def RoleBoth_def RolePrefill_def RoleDecode_def

section \<open>Scaling decisions\<close>

record decision_step =
  ds_Name :: string
  ds_Action :: SaturationAction
  ds_TargetReplicas :: int
  ds_Reason :: string
  ds_WasConstrained :: bool

record variant_decision =
  d_VariantName :: string
  d_Namespace :: string
  d_ModelID :: string
  d_AcceleratorName :: string
  d_Cost :: gofloat
  d_Role :: string
  d_Action :: SaturationAction
  d_CurrentReplicas :: int
  d_TargetReplicas :: int
  d_OriginalTargetReplicas :: int
  d_DesiredReplicas :: int
  d_GPUsPerReplica :: int
  d_SpareCapacity :: gofloat
  d_Utilization :: gofloat
  d_RequiredCapacity :: gofloat
  d_DecisionSteps :: "decision_step list"
  d_decisionReason :: DecisionReason
  d_reason :: string
  d_SaturationBased :: bool
  d_ModelBasedDecision :: bool
  d_SafetyOverride :: bool
  d_SaturationOnly :: bool
  d_GPUsAllocated :: int
  d_WasLimited :: bool
  d_LimitedBy :: string
  d_MinReplicas :: "int option"
  d_MaxReplicas :: "int option"

text \<open>The zero value of the struct, the base of the struct literals in the code.\<close>

definition zero_decision :: variant_decision where
  "zero_decision = \<lparr>d_VariantName = [], d_Namespace = [], d_ModelID = [], d_AcceleratorName = [],
     d_Cost = 0, d_Role = [], d_Action = [], d_CurrentReplicas = 0, d_TargetReplicas = 0,
     d_OriginalTargetReplicas = 0, d_DesiredReplicas = 0, d_GPUsPerReplica = 0, d_SpareCapacity = 0, d_Utilization = 0, d_RequiredCapacity = 0,
     d_DecisionSteps = [], d_decisionReason = [], d_reason = [],
     d_SaturationBased = False, d_ModelBasedDecision = False, d_SafetyOverride = False,
     d_SaturationOnly = False, d_GPUsAllocated = 0,
     d_WasLimited = False, d_LimitedBy = [], d_MinReplicas = None, d_MaxReplicas = None\<rparr>"

definition AddDecisionStep :: "string \<Rightarrow> string \<Rightarrow> bool \<Rightarrow> variant_decision \<Rightarrow> variant_decision" where
  "AddDecisionStep name reason wasConstrained d =
     d\<lparr>d_DecisionSteps := d_DecisionSteps d @
        [\<lparr>ds_Name = name, ds_Action = d_Action d, ds_TargetReplicas = d_TargetReplicas d,
          ds_Reason = reason, ds_WasConstrained = wasConstrained\<rparr>]\<rparr>"

definition LastStep :: "variant_decision \<Rightarrow> decision_step option" where
  "LastStep d = (if d_DecisionSteps d = [] then None else Some (last (d_DecisionSteps d)))"

definition SetDecisionReason ::
  "SaturationAction \<Rightarrow> DecisionReason \<Rightarrow> string \<Rightarrow> variant_decision \<Rightarrow> variant_decision" where
  "SetDecisionReason action decisionReason detailedReason d =
     d\<lparr>d_Action := action, d_decisionReason := decisionReason, d_reason := detailedReason\<rparr>"

lemma LastStep_AddDecisionStep:
  "LastStep (AddDecisionStep name reason c d) =
     Some \<lparr>ds_Name = name, ds_Action = d_Action d, ds_TargetReplicas = d_TargetReplicas d,
           ds_Reason = reason, ds_WasConstrained = c\<rparr>"
  by (simp add: LastStep_def AddDecisionStep_def)

text \<open>What identifies a decision and what it was asked to do: fields the limiter never writes.\<close>

definition same_request :: "variant_decision \<Rightarrow> variant_decision \<Rightarrow> bool" where
  "same_request d d' \<longleftrightarrow>
     d_VariantName d' = d_VariantName d \<and> d_Namespace d' = d_Namespace d \<and>
     d_ModelID d' = d_ModelID d \<and> d_CurrentReplicas d' = d_CurrentReplicas d \<and>
     d_GPUsPerReplica d' = d_GPUsPerReplica d \<and> d_MinReplicas d' = d_MinReplicas d \<and>
     d_MaxReplicas d' = d_MaxReplicas d \<and> d_Cost d' = d_Cost d \<and>
     d_SpareCapacity d' = d_SpareCapacity d \<and> d_Action d' = d_Action d"

lemma same_request_refl [simp]: "same_request d d"
  by (simp add: same_request_def)

lemma same_request_trans: "same_request a b \<Longrightarrow> same_request b c \<Longrightarrow> same_request a c"
  by (simp add: same_request_def)

section \<open>Replica states and analyzer reports\<close>

record variant_replica_state =
  st_VariantName :: string
  st_CurrentReplicas :: int
  st_DesiredReplicas :: int
  st_PendingReplicas :: int
  st_GPUsPerReplica :: int
  st_Role :: string
  st_MinReplicas :: "int option"
  st_MaxReplicas :: "int option"

definition zero_state :: variant_replica_state where
  "zero_state = \<lparr>st_VariantName = [], st_CurrentReplicas = 0, st_DesiredReplicas = 0,
     st_PendingReplicas = 0, st_GPUsPerReplica = 0, st_Role = [], st_MinReplicas = None,
     st_MaxReplicas = None\<rparr>"

record variant_capacity =
  vc_VariantName :: string
  vc_AcceleratorName :: string
  vc_Cost :: gofloat
  vc_Role :: string
  vc_ReplicaCount :: int
  vc_PendingReplicas :: int
  vc_PerReplicaCapacity :: gofloat
  vc_Reason :: string
  vc_TotalCapacity :: gofloat
  vc_TotalDemand :: gofloat
  vc_Utilization :: gofloat

definition zero_capacity :: variant_capacity where
  "zero_capacity = \<lparr>vc_VariantName = [], vc_AcceleratorName = [], vc_Cost = 0, vc_Role = [],
     vc_ReplicaCount = 0, vc_PendingReplicas = 0, vc_PerReplicaCapacity = 0, vc_Reason = [],
     vc_TotalCapacity = 0, vc_TotalDemand = 0, vc_Utilization = 0\<rparr>"

record role_capacity =
  rc_Role :: string
  rc_TotalSupply :: gofloat
  rc_TotalDemand :: gofloat
  rc_TotalAnticipatedSupply :: gofloat
  rc_RequiredCapacity :: gofloat
  rc_SpareCapacity :: gofloat

record analyzer_result =
  ar_AnalyzerName :: string
  ar_ModelID :: string
  ar_Namespace :: string
  ar_VariantCapacities :: "variant_capacity list"
  ar_TotalSupply :: gofloat
  ar_TotalDemand :: gofloat
  ar_Utilization :: gofloat
  ar_TotalAnticipatedSupply :: gofloat
  ar_RequiredCapacity :: gofloat
  ar_SpareCapacity :: gofloat
  ar_RoleCapacities :: "(string, role_capacity) gomap option"

text \<open>\<open>RoleCapacities\<close> is a map that may be nil: \<^const>\<open>None\<close> marks a model that is not split
  into prefill and decode roles.\<close>

section \<open>Accelerator names\<close>

definition DefaultAcceleratorName :: string where "DefaultAcceleratorName = ''unknown''"
definition UnresolvedAcceleratorType :: string where "UnresolvedAcceleratorType = ''unresolved''"

definition IsAcceleratorResolved :: "string \<Rightarrow> bool" where
  "IsAcceleratorResolved name \<longleftrightarrow>
     name \<noteq> [] \<and> name \<noteq> DefaultAcceleratorName \<and> name \<noteq> UnresolvedAcceleratorType"

definition to_upper :: "char \<Rightarrow> char" where
  "to_upper c = (let n = (of_char c :: nat) in if 97 \<le> n \<and> n \<le> 122 then char_of (n - 32) else c)"

text \<open>\<open>strings.Split(s, "-")\<close>: the pieces between the hyphens, one more than there are
  hyphens.\<close>

fun split_hyphen :: "string \<Rightarrow> string list" where
  "split_hyphen [] = [[]]"
| "split_hyphen (c # cs) =
     (if c = CHR ''-'' then [] # split_hyphen cs
      else (case split_hyphen cs of [] \<Rightarrow> [[c]] | p # ps \<Rightarrow> (c # p) # ps))"

text \<open>
  After the hyphen test there are at least two pieces, so every branch of the vendor switch
  returns the second piece, joined with the third for Intel.
\<close>

definition NormalizeAcceleratorName :: "string \<Rightarrow> string" where
  "NormalizeAcceleratorName fullName =
     (if CHR ''-'' \<notin> set fullName then fullName
      else (let parts = split_hyphen fullName in
        if length parts < 2 then fullName
        else (let vendor = map to_upper (parts ! 0) in
          if vendor = ''NVIDIA'' then parts ! 1
          else if vendor = ''AMD'' then parts ! 1
          else if vendor = ''INTEL'' then
            (if 3 \<le> length parts then parts ! 1 @ ''-'' @ parts ! 2 else parts ! 1)
          else parts ! 1)))"

lemma split_hyphen_not_Nil [simp]: "split_hyphen s \<noteq> []"
  by (induction s) (auto split: list.splits)

lemma split_hyphen_parts: "p \<in> set (split_hyphen s) \<Longrightarrow> CHR ''-'' \<notin> set p"
proof (induction s arbitrary: p)
  case (Cons c cs)
  show ?case
  proof (cases "c = CHR ''-''")
    case True
    with Cons show ?thesis by auto
  next
    case False
    obtain q qs where "split_hyphen cs = q # qs"
      by (cases "split_hyphen cs") auto
    with Cons False show ?thesis by auto
  qed
qed simp

lemma length_split_hyphen: "length (split_hyphen s) = Suc (length (filter ((=) (CHR ''-'')) s))"
  by (induction s) (auto split: list.splits)

lemma split_hyphen_two: "CHR ''-'' \<in> set s \<Longrightarrow> 2 \<le> length (split_hyphen s)"
  by (simp add: length_split_hyphen Suc_le_eq) (auto simp: filter_empty_conv)

end
