(* ===== verification/Analyzer_Helpers.thy ===== *)
theory Analyzer_Helpers
  imports Domain
begin

text \<open>
  What the optimizers share (\<open>analyzer_helpers.go\<close>, \<open>aggregation.go\<close>, the
  lookup helpers of \<open>cost_aware_optimizer.go\<close> and \<open>greedy_score_optimizer.go\<close>): the
  ballot of analyzer results, the anchor merged from it, the demand and spare kept per role, and the
  loop that grows the roles of a model together.  A variant picker is a parameter of that loop.  The
  loop is shown to end for every picker.
\<close>

section \<open>Aggregation\<close>

record scope_totals =
  sct_TotalSupply :: gofloat
  sct_TotalAnticipatedSupply :: gofloat
  sct_TotalDemand :: gofloat

definition SumTotalSupply :: "variant_capacity list \<Rightarrow> gofloat" where
  "SumTotalSupply vcs = (\<Sum>vc\<leftarrow>vcs. of_int (vc_ReplicaCount vc) * vc_PerReplicaCapacity vc)"

definition SumTotalAnticipatedSupply :: "variant_capacity list \<Rightarrow> gofloat" where
  "SumTotalAnticipatedSupply vcs =
     (\<Sum>vc\<leftarrow>vcs. of_int (vc_ReplicaCount vc + vc_PendingReplicas vc) * vc_PerReplicaCapacity vc)"

definition SumTotalDemand :: "variant_capacity list \<Rightarrow> gofloat" where
  "SumTotalDemand vcs = (\<Sum>vc\<leftarrow>vcs. vc_TotalDemand vc)"

definition canon_role :: "string \<Rightarrow> string" where
  "canon_role r = (if r = [] then RoleBoth else r)"

definition zero_totals :: scope_totals where
  "zero_totals = \<lparr>sct_TotalSupply = 0, sct_TotalAnticipatedSupply = 0, sct_TotalDemand = 0\<rparr>"

definition AggregateByRole :: "variant_capacity list \<Rightarrow> (string, scope_totals) gomap" where
  "AggregateByRole vcs = fold (\<lambda>vc result.
     let role = canon_role (vc_Role vc); t = mget zero_totals result role in
     mput role \<lparr>sct_TotalSupply = sct_TotalSupply t + of_int (vc_ReplicaCount vc) * vc_PerReplicaCapacity vc,
       sct_TotalAnticipatedSupply = sct_TotalAnticipatedSupply t +
         of_int (vc_ReplicaCount vc + vc_PendingReplicas vc) * vc_PerReplicaCapacity vc,
       sct_TotalDemand = sct_TotalDemand t + vc_TotalDemand vc\<rparr> result) vcs []"

section \<open>The ballot\<close>

record named_result =
  nr_Name :: string
  nr_Result :: "analyzer_result option"
  nr_Score :: gofloat
  nr_Remaining :: gofloat
  nr_Spare :: gofloat
  nr_RoleSpare :: "(string, gofloat) gomap option"
  nr_ScaleUpThreshold :: gofloat
  nr_ScaleDownBoundary :: gofloat
  nr_Live :: bool
  nr_Enabled :: bool

record model_request =
  mr_ModelID :: string
  mr_Namespace :: string
  mr_AnalyzerResults :: "named_result list"
  mr_VariantStates :: "variant_replica_state list"
  mr_Priority :: gofloat
  mr_Disaggregated :: bool

definition ReasonNoData :: string where "ReasonNoData = ''no-data''"
definition ReasonError :: string where "ReasonError = ''error''"

definition rolesOf :: "variant_capacity list \<Rightarrow> string list" where
  "rolesOf vcs = sort (remdups (map (\<lambda>vc. canon_role (vc_Role vc)) vcs))"

definition ResultIsInformative :: "named_result \<Rightarrow> bool" where
  "ResultIsInformative nr = (case nr_Result nr of
     None \<Rightarrow> False
   | Some r \<Rightarrow> list_ex (\<lambda>vc. vc_Reason vc \<noteq> ReasonNoData \<and> vc_Reason vc \<noteq> ReasonError) (ar_VariantCapacities r))"

definition prcFromVCs :: "variant_capacity list \<Rightarrow> string \<Rightarrow> gofloat" where
  "prcFromVCs vcs v = (case find (\<lambda>vc. vc_VariantName vc = v) vcs of
     Some vc \<Rightarrow> vc_PerReplicaCapacity vc | None \<Rightarrow> 0)"

definition prcForVariant :: "analyzer_result \<Rightarrow> string \<Rightarrow> gofloat" where
  "prcForVariant r v = (case find (\<lambda>vc. vc_VariantName vc = v) (ar_VariantCapacities r) of
     Some vc \<Rightarrow> vc_PerReplicaCapacity vc | None \<Rightarrow> 0)"

definition accFromVCs :: "variant_capacity list \<Rightarrow> string \<Rightarrow> string" where
  "accFromVCs vcs v = (case find (\<lambda>vc. vc_VariantName vc = v) vcs of
     Some vc \<Rightarrow> vc_AcceleratorName vc | None \<Rightarrow> [])"

type_synonym state_map = "(string, variant_replica_state) gomap"

definition gpusPerReplicaFromState :: "state_map \<Rightarrow> string \<Rightarrow> int" where
  "gpusPerReplicaFromState stateMap v = (case map_of stateMap v of
     Some s \<Rightarrow> if st_GPUsPerReplica s > 0 then st_GPUsPerReplica s else 1 | None \<Rightarrow> 1)"

definition buildStateMap :: "variant_replica_state list \<Rightarrow> state_map" where
  "buildStateMap ss = fold (\<lambda>s. mput (st_VariantName s) s) ss []"

definition buildCapacityMap :: "variant_capacity list \<Rightarrow> (string, variant_capacity) gomap" where
  "buildCapacityMap vcs = fold (\<lambda>vc. mput (vc_VariantName vc) vc) vcs []"

definition initTargets :: "variant_replica_state list \<Rightarrow> (string, int) gomap" where
  "initTargets ss = fold (\<lambda>s. mput (st_VariantName s) (st_CurrentReplicas s)) ss []"

definition applyAllocation :: "string \<Rightarrow> int \<Rightarrow> named_result list \<Rightarrow> named_result list" where
  "applyAllocation v n s = map (\<lambda>e. case nr_Result e of
     None \<Rightarrow> e
   | Some r \<Rightarrow> (let prc = prcForVariant r v in
       if prc \<le> 0 then e
       else (let left = nr_Remaining e - of_int n * prc in
             e\<lparr>nr_Remaining := (if left < 0 then 0 else left)\<rparr>))) s"

definition votingResults :: "named_result list \<Rightarrow> named_result list" where
  "votingResults s = filter nr_Enabled s"

section \<open>The anchor\<close>

definition find_saturation :: "named_result list \<Rightarrow> named_result option" where
  "find_saturation s = find (\<lambda>e. nr_Name e = SaturationAnalyzerName \<and> nr_Result e \<noteq> None) s"

definition usable :: "named_result \<Rightarrow> bool" where
  "usable e \<longleftrightarrow> nr_Enabled e \<and> nr_Live e \<and> ResultIsInformative e"

text \<open>Saturation binds whenever it can; otherwise the only other usable analyzer, if there is just one.\<close>

definition select_binding :: "named_result list \<Rightarrow> named_result option" where
  "select_binding s =
     (let others = filter (\<lambda>e. nr_Name e \<noteq> SaturationAnalyzerName \<and> usable e) s;
          other = (case others of [e] \<Rightarrow> Some e | _ \<Rightarrow> None)
      in case find_saturation s of
           Some sat \<Rightarrow> (if usable sat then Some sat else other)
         | None \<Rightarrow> other)"

definition merge_variant :: "variant_capacity list \<Rightarrow> bool \<Rightarrow> variant_capacity \<Rightarrow> variant_capacity" where
  "merge_variant bs satEnabled a =
     (let out = zero_capacity\<lparr>vc_VariantName := vc_VariantName a, vc_AcceleratorName := vc_AcceleratorName a,
            vc_Cost := vc_Cost a, vc_Role := vc_Role a, vc_ReplicaCount := vc_ReplicaCount a,
            vc_PendingReplicas := vc_PendingReplicas a\<rparr>;
          sized = (\<lambda>b. out\<lparr>vc_PerReplicaCapacity := vc_PerReplicaCapacity b, vc_Reason := vc_Reason b,
            vc_TotalDemand := vc_TotalDemand b, vc_Utilization := vc_Utilization b\<rparr>);
          out1 = (case map_of (buildCapacityMap bs) (vc_VariantName a) of
                    Some b \<Rightarrow> sized b
                  | None \<Rightarrow> if satEnabled then sized a else out)
      in out1\<lparr>vc_TotalCapacity := of_int (vc_ReplicaCount out1) * vc_PerReplicaCapacity out1\<rparr>)"

definition bindingAnchor :: "named_result list \<Rightarrow> analyzer_result option" where
  "bindingAnchor s = (case select_binding s of
     None \<Rightarrow> None
   | Some b \<Rightarrow> (case nr_Result b of
       None \<Rightarrow> None
     | Some br \<Rightarrow>
         let sat = find_saturation s;
             ac = (case sat of Some e \<Rightarrow> (case nr_Result e of Some r \<Rightarrow> r | None \<Rightarrow> br) | None \<Rightarrow> br);
             satEnabled = (case sat of Some e \<Rightarrow> nr_Enabled e | None \<Rightarrow> False)
         in Some (br\<lparr>ar_ModelID := ar_ModelID ac, ar_Namespace := ar_Namespace ac,
              ar_VariantCapacities :=
                map (merge_variant (ar_VariantCapacities br) satEnabled) (ar_VariantCapacities ac)\<rparr>)))"

section \<open>Demand and spare per role\<close>

type_synonym role_state = "(string, gofloat) gomap list"

definition role_demand :: "named_result \<Rightarrow> (string, gofloat) gomap" where
  "role_demand e = (case nr_Result e of
     None \<Rightarrow> []
   | Some r \<Rightarrow> (case ar_RoleCapacities r of
       Some rcs \<Rightarrow> map (\<lambda>(role, rc). (role, rc_RequiredCapacity rc)) rcs
     | None \<Rightarrow> [(RoleBoth, nr_Remaining e)]))"

definition role_spare :: "named_result \<Rightarrow> named_result" where
  "role_spare e = (case nr_Result e of
     None \<Rightarrow> e
   | Some r \<Rightarrow>
       let old = (case nr_RoleSpare e of Some m \<Rightarrow> m | None \<Rightarrow> []) in
       (case ar_RoleCapacities r of
          Some rcs \<Rightarrow> e\<lparr>nr_RoleSpare := Some (fold (\<lambda>(role, rc). mput role (rc_SpareCapacity rc)) rcs old)\<rparr>
        | None \<Rightarrow> e\<lparr>nr_RoleSpare := Some (mput RoleBoth (nr_Spare e) old)\<rparr>))"

definition initRoleState :: "named_result list \<Rightarrow> string list \<times> role_state \<times> named_result list" where
  "initRoleState s =
     (let ps = map role_demand s
      in (sort (remdups (concat (map mkeys ps))), ps, map role_spare s))"

definition roleBottleneckReplicas :: "named_result list \<Rightarrow> role_state \<Rightarrow> string \<Rightarrow> string \<Rightarrow> int" where
  "roleBottleneckReplicas s state role v =
     fold (\<lambda>(e, m) mx. case nr_Result e of
       None \<Rightarrow> mx
     | Some r \<Rightarrow> (let prc = prcForVariant r v in
         if prc \<le> 0 then mx
         else (let n = \<lceil>mget 0 m role / prc\<rceil> in if n > mx then n else mx))) (zip s state) 0"

definition roleAggRemaining :: "named_result list \<Rightarrow> role_state \<Rightarrow> string \<Rightarrow> gofloat" where
  "roleAggRemaining s state role =
     fold (\<lambda>m mx. if mget 0 m role > mx then mget 0 m role else mx) (take (length s) state) 0"

definition anyRoleNeedsScaleUp :: "role_state \<Rightarrow> string list \<Rightarrow> bool" where
  "anyRoleNeedsScaleUp state roles = list_ex (\<lambda>role. list_ex (\<lambda>m. mget 0 m role > 0) state) roles"

definition variantsForRole :: "variant_capacity list \<Rightarrow> string \<Rightarrow> variant_capacity list" where
  "variantsForRole vcs role = filter (\<lambda>vc. canon_role (vc_Role vc) = role) vcs"

definition spare_of :: "named_result \<Rightarrow> string \<Rightarrow> gofloat" where
  "spare_of e role = (case nr_RoleSpare e of Some m \<Rightarrow> mget 0 m role | None \<Rightarrow> 0)"

text \<open>The analyzers that limit a removal of \<open>v\<close>: live, with spare recorded and a capacity for it.\<close>

definition removal_bounds :: "named_result list \<Rightarrow> string \<Rightarrow> string \<Rightarrow> int list" where
  "removal_bounds s v role =
     concat (map (\<lambda>e. if \<not> nr_Live e then []
       else case (nr_Result e, nr_RoleSpare e) of
         (Some r, Some m) \<Rightarrow>
           (let prc = prcForVariant r v in if prc \<le> 0 then [] else [\<lfloor>mget 0 m role / prc\<rfloor>])
       | _ \<Rightarrow> []) s)"

definition safeRemovalReplicasForRole :: "named_result list \<Rightarrow> string \<Rightarrow> string \<Rightarrow> int" where
  "safeRemovalReplicasForRole s v role =
     (let ns = removal_bounds s v role;
          smallest = fold (\<lambda>n sm. if n < sm then n else sm) ns MaxInt
      in if ns = [] \<or> smallest < 0 then 0 else smallest)"

definition dealloc_one :: "string \<Rightarrow> string \<Rightarrow> int \<Rightarrow> named_result \<Rightarrow> named_result" where
  "dealloc_one v role n e = (case (nr_Result e, nr_RoleSpare e) of
     (Some r, Some m) \<Rightarrow>
       (let prc = prcForVariant r v in
        if prc \<le> 0 then e
        else (let left = mget 0 m role - of_int n * prc in
              e\<lparr>nr_RoleSpare := Some (mput role (if left < 0 then 0 else left) m)\<rparr>))
   | _ \<Rightarrow> e)"

definition applyDeallocationForRole :: "string \<Rightarrow> string \<Rightarrow> int \<Rightarrow> named_result list \<Rightarrow> named_result list" where
  "applyDeallocationForRole v role n s = map (dealloc_one v role n) s"

definition needsScaleDownForRole :: "named_result list \<Rightarrow> string \<Rightarrow> bool" where
  "needsScaleDownForRole s role \<longleftrightarrow>
     list_all (\<lambda>e. nr_Live e \<longrightarrow> nr_Result e \<noteq> None \<and> nr_RoleSpare e \<noteq> None \<and> spare_of e role > 0) s \<and>
     list_ex nr_Live s"

section \<open>Growing the roles of a model together\<close>

type_synonym role_pick = "string \<Rightarrow> named_result list \<Rightarrow> variant_capacity list \<Rightarrow> state_map \<Rightarrow>
  (string, int) gomap \<Rightarrow> (string, int) gomap \<Rightarrow> string \<times> int"

text \<open>
  The working state of the loop: the ballot, the GPU budget (\<^const>\<open>None\<close> is the nil map of the
  unlimited mode), the targets and the picker-local demand.
\<close>

record alloc_state =
  as_ballot :: "named_result list"
  as_available :: "(string, int) gomap option"
  as_targets :: "(string, int) gomap"
  as_demand :: role_state

definition budget_map :: "alloc_state \<Rightarrow> (string, int) gomap" where
  "budget_map st = (case as_available st of None \<Rightarrow> [] | Some m \<Rightarrow> m)"

text \<open>One variant and cap per role, or nothing when a role finds none.\<close>

fun pick_roles :: "role_pick \<Rightarrow> variant_capacity list \<Rightarrow> state_map \<Rightarrow> alloc_state \<Rightarrow> string list \<Rightarrow>
    (string \<times> string \<times> int) list option" where
  "pick_roles pick vcs sm st [] = Some []"
| "pick_roles pick vcs sm st (role # roles) =
     (let (v, capN) = pick role (as_ballot st) vcs sm (budget_map st) (as_targets st) in
      if v = [] then None
      else case pick_roles pick vcs sm st roles of
        None \<Rightarrow> None | Some rest \<Rightarrow> Some ((role, v, capN) # rest))"

definition role_count :: "alloc_state \<Rightarrow> string \<times> string \<times> int \<Rightarrow> int" where
  "role_count st = (\<lambda>(role, v, capN).
     min (roleBottleneckReplicas (as_ballot st) (as_demand st) role v) capN)"

definition role_util :: "variant_capacity list \<Rightarrow> alloc_state \<Rightarrow> string \<times> string \<times> int \<Rightarrow> gofloat" where
  "role_util vcs st p = (case p of (role, v, capN) \<Rightarrow>
     let demand = roleAggRemaining (as_ballot st) (as_demand st) role in
     if demand \<le> 0 then 1 else of_int (role_count st p) * prcFromVCs vcs v / demand)"

definition delta_util :: "variant_capacity list \<Rightarrow> alloc_state \<Rightarrow> (string \<times> string \<times> int) list \<Rightarrow> gofloat" where
  "delta_util vcs st ps =
     fold (\<lambda>p d. if role_util vcs st p < d then role_util vcs st p else d) ps MaxFloat64"

definition joint_count :: "variant_capacity list \<Rightarrow> alloc_state \<Rightarrow> gofloat \<Rightarrow> string \<times> string \<times> int \<Rightarrow> int" where
  "joint_count vcs st delta p = (case p of (role, v, capN) \<Rightarrow>
     let demand = roleAggRemaining (as_ballot st) (as_demand st) role; prc = prcFromVCs vcs v in
     if prc > 0 \<and> demand > 0 then max \<lfloor>delta * demand / prc\<rfloor> (min 1 (role_count st p)) else 0)"

definition lower_demand :: "string \<Rightarrow> gofloat \<Rightarrow> role_state \<Rightarrow> role_state" where
  "lower_demand role x ps = map (\<lambda>m. mput role (max 0 (mget 0 m role - x)) m) ps"

definition commit_role :: "variant_capacity list \<Rightarrow> state_map \<Rightarrow> (string \<times> string \<times> int) \<times> int \<Rightarrow>
    alloc_state \<Rightarrow> alloc_state" where
  "commit_role vcs sm = (\<lambda>((role, v, capN), k) st.
     st\<lparr>as_targets := madd v k (as_targets st),
        as_demand := lower_demand role (of_int k * prcFromVCs vcs v) (as_demand st),
        as_available := map_option (madd (accFromVCs vcs v) (- (k * gpusPerReplicaFromState sm v)))
          (as_available st)\<rparr>)"

text \<open>The role whose variant the model-level counters follow: prefill, else both.\<close>

definition anchor_role :: "((string \<times> string \<times> int) \<times> int) list \<Rightarrow> (string \<times> int) option" where
  "anchor_role cs =
     (case find (\<lambda>((role, _), _). role = RolePrefill) cs of
        Some ((_, v, _), k) \<Rightarrow> Some (v, k)
      | None \<Rightarrow> (case find (\<lambda>((role, _), _). role = RoleBoth) cs of
          Some ((_, v, _), k) \<Rightarrow> Some (v, k) | None \<Rightarrow> None))"

text \<open>One iteration; \<^const>\<open>None\<close> is a \<open>break\<close>.\<close>

definition paired_step :: "role_pick \<Rightarrow> variant_capacity list \<Rightarrow> state_map \<Rightarrow> string list \<Rightarrow> alloc_state \<Rightarrow>
    alloc_state option" where
  "paired_step pick vcs sm roles st = (case pick_roles pick vcs sm st roles of
     None \<Rightarrow> None
   | Some ps \<Rightarrow>
       let delta = delta_util vcs st ps;
           cs = map (\<lambda>p. (p, joint_count vcs st delta p)) ps
       in if delta \<le> 0 \<or> \<not> list_ex (\<lambda>(_, k). k > 0) cs then None
       else let st' = fold (commit_role vcs sm) cs st in
         Some (case anchor_role cs of
           None \<Rightarrow> st' | Some (v, k) \<Rightarrow> st'\<lparr>as_ballot := applyAllocation v k (as_ballot st')\<rparr>))"

subsection \<open>The loop ends\<close>

text \<open>
  A commit of at least one replica takes the capacity of a replica off the demand of its role, and
  no demand grows; the capacities are those of a fixed finite list of variants.  So the number of
  smallest replicas the demand still amounts to goes down.
\<close>

definition prc_unit :: "variant_capacity list \<Rightarrow> gofloat" where
  "prc_unit vcs = Min (insert 1 (vc_PerReplicaCapacity ` {vc \<in> set vcs. 0 < vc_PerReplicaCapacity vc}))"

definition top_demand :: "role_state \<Rightarrow> string \<Rightarrow> gofloat" where
  "top_demand ps role = foldr (\<lambda>m. max (mget 0 m role)) ps 0"

definition demand_units :: "variant_capacity list \<Rightarrow> string list \<Rightarrow> alloc_state \<Rightarrow> nat" where
  "demand_units vcs roles st = (\<Sum>r\<in>set roles. nat \<lceil>top_demand (as_demand st) r / prc_unit vcs\<rceil>)"

lemma prc_unit_pos: "0 < prc_unit vcs"
  unfolding prc_unit_def by (subst Min_gr_iff) auto

lemma prcFromVCs_in:
  "0 < prcFromVCs vcs v \<Longrightarrow> \<exists>vc\<in>set vcs. vc_VariantName vc = v \<and> vc_PerReplicaCapacity vc = prcFromVCs vcs v"
  by (induction vcs) (auto simp: prcFromVCs_def split: if_splits option.splits)

lemma prc_unit_le:
  assumes "0 < prcFromVCs vcs v"
  shows "prc_unit vcs \<le> prcFromVCs vcs v"
proof -
  obtain vc where "vc \<in> set vcs" "vc_PerReplicaCapacity vc = prcFromVCs vcs v"
    using prcFromVCs_in [OF assms] by blast
  then show ?thesis unfolding prc_unit_def using assms by (intro Min_le) (auto intro!: image_eqI [of _ _ vc])
qed

lemma top_demand_nonneg: "0 \<le> top_demand ps r"
  by (induction ps) (auto simp: top_demand_def)

lemma top_demand_lower:
  assumes "0 \<le> x"
  shows "top_demand (lower_demand role x ps) r =
    (if r = role then max 0 (top_demand ps r - x) else top_demand ps r)"
  using assms by (induction ps) (auto simp: top_demand_def lower_demand_def)

lemma roleAgg_fold: "fold (\<lambda>m mx. if mget 0 m r > mx then mget 0 m r else mx) xs a =
    foldr (\<lambda>m. max (mget 0 m r)) xs (a :: gofloat)"
proof -
  have out: "foldr (\<lambda>m. max (mget 0 m r)) xs (max b a) = max b (foldr (\<lambda>m. max (mget 0 m r)) xs a)"
    for xs and a b :: gofloat
    by (induction xs) (auto simp: max.left_commute)
  show ?thesis
  proof (induction xs arbitrary: a)
    case (Cons m xs)
    have "(if mget 0 m r > a then mget 0 m r else a) = max (mget 0 m r) a" by auto
    then show ?case by (simp only: fold_simps Cons.IH out) simp
  qed simp
qed

lemma roleAggRemaining_le: "roleAggRemaining s ps r \<le> top_demand ps r"
proof -
  have "foldr (\<lambda>m. max (mget 0 m r)) (take n ps) 0 \<le> foldr (\<lambda>m. max (mget 0 m r)) ps (0 :: gofloat)" for n
  proof (induction ps arbitrary: n)
    case (Cons m ps)
    then show ?case by (cases n) (use top_demand_nonneg [of ps r] in \<open>auto simp: top_demand_def max.coboundedI2\<close>)
  qed simp
  then show ?thesis by (simp add: roleAggRemaining_def roleAgg_fold top_demand_def)
qed

lemma roleAggRemaining_eq: "length s = length ps \<Longrightarrow> roleAggRemaining s ps r = top_demand ps r"
  by (simp add: roleAggRemaining_def roleAgg_fold top_demand_def)

lemma top_demand_pos_iff: "0 < top_demand ps r \<longleftrightarrow> (\<exists>m\<in>set ps. 0 < mget 0 m r)"
  by (induction ps) (auto simp: top_demand_def)

lemma anyRoleNeedsScaleUp_iff: "anyRoleNeedsScaleUp ps roles \<longleftrightarrow> (\<exists>r\<in>set roles. 0 < top_demand ps r)"
  by (auto simp: anyRoleNeedsScaleUp_def list_ex_iff top_demand_pos_iff)

subsection \<open>What one commit does\<close>

lemma joint_count_nonneg: "0 < delta \<Longrightarrow> 0 \<le> joint_count vcs st delta p"
  by (auto simp: joint_count_def Let_def split: prod.split intro!: max.coboundedI1)

text \<open>The demand of a role falls by what the commits for it provide, never below zero.\<close>

definition good_commit :: "variant_capacity list \<Rightarrow> (string \<times> string \<times> int) \<times> int \<Rightarrow> bool" where
  "good_commit vcs c \<longleftrightarrow> 0 \<le> snd c \<and> (0 < snd c \<longrightarrow> 0 < prcFromVCs vcs (fst (snd (fst c))))"

lemma commit_one_demand:
  assumes "good_commit vcs c"
  shows "top_demand (as_demand (commit_role vcs sm c st)) r \<le> top_demand (as_demand st) r"
    and "0 < snd c \<Longrightarrow> fst (fst c) = r \<Longrightarrow>
      top_demand (as_demand (commit_role vcs sm c st)) r \<le> max 0 (top_demand (as_demand st) r - prc_unit vcs)"
proof -
  obtain role v cp j where c: "c = ((role, v, cp), j)" by (metis prod.exhaust)
  have x: "0 \<le> of_int j * prcFromVCs vcs v" using assms by (cases "j = 0") (auto simp: good_commit_def c)
  have big: "prc_unit vcs \<le> of_int j * prcFromVCs vcs v" if "0 < j"
  proof -
    have p: "0 < prcFromVCs vcs v" using that assms by (simp add: good_commit_def c)
    have "1 * prcFromVCs vcs v \<le> of_int j * prcFromVCs vcs v" using that p by (intro mult_right_mono) auto
    then show ?thesis using prc_unit_le [OF p] by simp
  qed
  show "top_demand (as_demand (commit_role vcs sm c st)) r \<le> top_demand (as_demand st) r"
    using x by (auto simp: commit_role_def c top_demand_lower top_demand_nonneg)
  show "0 < snd c \<Longrightarrow> fst (fst c) = r \<Longrightarrow>
      top_demand (as_demand (commit_role vcs sm c st)) r \<le> max 0 (top_demand (as_demand st) r - prc_unit vcs)"
    using x big by (auto simp: commit_role_def c top_demand_lower)
qed

lemma commit_fold_mono:
  "list_all (good_commit vcs) cs \<Longrightarrow>
     top_demand (as_demand (fold (commit_role vcs sm) cs st)) r \<le> top_demand (as_demand st) r"
proof (induction cs arbitrary: st)
  case (Cons c cs)
  have "top_demand (as_demand (fold (commit_role vcs sm) cs (commit_role vcs sm c st))) r
      \<le> top_demand (as_demand (commit_role vcs sm c st)) r" using Cons by simp
  also have "\<dots> \<le> top_demand (as_demand st) r" using Cons.prems by (intro commit_one_demand(1)) simp
  finally show ?case by simp
qed simp

lemma commit_fold_drop:
  "list_all (good_commit vcs) cs \<Longrightarrow> c \<in> set cs \<Longrightarrow> 0 < snd c \<Longrightarrow> fst (fst c) = r \<Longrightarrow>
     top_demand (as_demand (fold (commit_role vcs sm) cs st)) r \<le> max 0 (top_demand (as_demand st) r - prc_unit vcs)"
proof (induction cs arbitrary: st)
  case (Cons d cs)
  let ?st = "commit_role vcs sm d st"
  have d: "good_commit vcs d" and cs: "list_all (good_commit vcs) cs" using Cons.prems by simp_all
  show ?case
  proof (cases "c = d")
    case True
    have "top_demand (as_demand (fold (commit_role vcs sm) cs ?st)) r \<le> top_demand (as_demand ?st) r"
      by (rule commit_fold_mono [OF cs])
    also have "\<dots> \<le> max 0 (top_demand (as_demand st) r - prc_unit vcs)"
      using commit_one_demand(2) [OF d] True Cons.prems by simp
    finally show ?thesis by simp
  next
    case False
    then have "top_demand (as_demand (fold (commit_role vcs sm) cs ?st)) r
        \<le> max 0 (top_demand (as_demand ?st) r - prc_unit vcs)" using Cons by simp
    also have "\<dots> \<le> max 0 (top_demand (as_demand st) r - prc_unit vcs)"
      using commit_one_demand(1) [OF d, of sm st r] by simp
    finally show ?thesis by simp
  qed
qed simp

lemma ceil_drop:
  fixes t t' u :: real
  assumes "0 < u" and "0 < t" and "t' \<le> max 0 (t - u)"
  shows "nat \<lceil>t' / u\<rceil> < nat \<lceil>t / u\<rceil>"
proof -
  have "0 < \<lceil>t / u\<rceil>" using assms by simp
  moreover have "\<lceil>t' / u\<rceil> < \<lceil>t / u\<rceil>"
  proof (cases "t' \<le> t - u")
    case True
    then have "t' / u \<le> t / u - 1" using assms(1) by (simp add: field_simps)
    then have "\<lceil>t' / u\<rceil> \<le> \<lceil>t / u\<rceil> - 1" by (simp add: ceiling_le_iff) linarith
    then show ?thesis by simp
  next
    case False
    then have "\<lceil>t' / u\<rceil> \<le> 0" using assms by (simp add: divide_nonpos_pos)
    with \<open>0 < \<lceil>t / u\<rceil>\<close> show ?thesis by linarith
  qed
  ultimately show ?thesis by simp
qed

lemma pick_roles_fst: "pick_roles pick vcs sm st roles = Some ps \<Longrightarrow> map fst ps = roles"
  by (induction roles arbitrary: ps) (auto split: prod.splits if_splits option.splits)

lemma joint_count_good: "0 < delta \<Longrightarrow> good_commit vcs (p, joint_count vcs st delta p)"
  using joint_count_nonneg [of delta vcs st p]
  by (auto simp: good_commit_def joint_count_def Let_def split: prod.splits if_splits)

lemma joint_count_demand: "0 < joint_count vcs st delta p \<Longrightarrow> 0 < top_demand (as_demand st) (fst p)"
  using roleAggRemaining_le [of "as_ballot st" "as_demand st" "fst p"]
  by (auto simp: joint_count_def Let_def split: prod.splits if_splits)

text \<open>A step that is taken, in parts.\<close>

lemma paired_step_parts:
  assumes "paired_step pick vcs sm roles st = Some st'"
  obtains ps delta cs where "pick_roles pick vcs sm st roles = Some ps" and "delta = delta_util vcs st ps"
    and "0 < delta" and "cs = map (\<lambda>p. (p, joint_count vcs st delta p)) ps"
    and "list_all (good_commit vcs) cs" and "\<exists>c\<in>set cs. 0 < snd c"
    and "as_demand st' = as_demand (fold (commit_role vcs sm) cs st)"
    and "as_targets st' = as_targets (fold (commit_role vcs sm) cs st)"
    and "as_available st' = as_available (fold (commit_role vcs sm) cs st)"
    and "as_ballot st' = (case anchor_role cs of None \<Rightarrow> as_ballot (fold (commit_role vcs sm) cs st)
      | Some (v, k) \<Rightarrow> applyAllocation v k (as_ballot (fold (commit_role vcs sm) cs st)))"
proof -
  obtain ps where ps: "pick_roles pick vcs sm st roles = Some ps"
    using assms by (auto simp: paired_step_def split: option.splits)
  define delta where "delta = delta_util vcs st ps"
  define cs where "cs = map (\<lambda>p. (p, joint_count vcs st delta p)) ps"
  have step: "(if delta \<le> 0 \<or> \<not> list_ex (\<lambda>(_, k). k > 0) cs then None
      else let st' = fold (commit_role vcs sm) cs st in
         Some (case anchor_role cs of
           None \<Rightarrow> st' | Some (v, k) \<Rightarrow> st'\<lparr>as_ballot := applyAllocation v k (as_ballot st')\<rparr>)) = Some st'"
    using assms unfolding paired_step_def ps option.case Let_def delta_def cs_def .
  have d: "0 < delta" and "list_ex (\<lambda>(_, k). k > 0) cs" using step by (auto split: if_splits)
  then have ex: "\<exists>c\<in>set cs. 0 < snd c" by (auto simp: list_ex_iff case_prod_unfold)
  have st': "st' = (case anchor_role cs of None \<Rightarrow> fold (commit_role vcs sm) cs st
      | Some (v, k) \<Rightarrow> (fold (commit_role vcs sm) cs st)\<lparr>as_ballot :=
          applyAllocation v k (as_ballot (fold (commit_role vcs sm) cs st))\<rparr>)"
    using step by (auto simp: Let_def split: if_splits)
  have good: "list_all (good_commit vcs) cs"
    using joint_count_good [OF d] by (simp add: cs_def list_all_iff)
  show ?thesis
    by (rule that [OF ps delta_def d cs_def good ex]) (auto simp: st' split: option.split)
qed

lemma paired_step_decreases:
  assumes "paired_step pick vcs sm roles st = Some st'"
  shows "demand_units vcs roles st' < demand_units vcs roles st"
proof -
  from assms obtain ps delta cs where ps: "pick_roles pick vcs sm st roles = Some ps"
    and cs: "cs = map (\<lambda>p. (p, joint_count vcs st delta p)) ps" and good: "list_all (good_commit vcs) cs"
    and ex: "\<exists>c\<in>set cs. 0 < snd c" and dem: "as_demand st' = as_demand (fold (commit_role vcs sm) cs st)"
    by (rule paired_step_parts)
  let ?n = "\<lambda>st r. nat \<lceil>top_demand (as_demand st) r / prc_unit vcs\<rceil>"
  obtain p where p: "p \<in> set ps" "0 < joint_count vcs st delta p" using ex cs by auto
  have role: "fst p \<in> set roles" using pick_roles_fst [OF ps] p(1) by force
  have "?n st' r \<le> ?n st r" for r
    using commit_fold_mono [OF good, of sm st r] prc_unit_pos [of vcs] dem
    by (intro nat_mono ceiling_mono divide_right_mono) auto
  moreover have "?n st' (fst p) < ?n st (fst p)"
    using commit_fold_drop [OF good, of "(p, joint_count vcs st delta p)" "fst p" sm st] p cs dem
    by (intro ceil_drop prc_unit_pos joint_count_demand [OF p(2)]) auto
  ultimately show ?thesis
    unfolding demand_units_def using role by (intro sum_strict_mono_ex1) auto
qed

function allocateForModelPaired :: "role_pick \<Rightarrow> variant_capacity list \<Rightarrow> state_map \<Rightarrow> string list \<Rightarrow>
    alloc_state \<Rightarrow> alloc_state" where
  "allocateForModelPaired pick vcs sm roles st =
     (if anyRoleNeedsScaleUp (as_demand st) roles then
        (case paired_step pick vcs sm roles st of
           None \<Rightarrow> st
         | Some st' \<Rightarrow> allocateForModelPaired pick vcs sm roles st')
      else st)"
  by pat_completeness auto
termination allocateForModelPaired
  by (relation "measure (\<lambda>(_, vcs, _, roles, st). demand_units vcs roles st)")
    (auto intro: paired_step_decreases)

declare allocateForModelPaired.simps [simp del]

end
