(* ===== verification/Paired_Allocation.thy ===== *)
theory Paired_Allocation
  imports Analyzer_Helpers
begin

text \<open>
  What the joint allocation loop guarantees for any variant picker that keeps a simple contract
  (\<open>RolePickFn\<close> in \<open>analyzer_helpers.go\<close>).  The contract is the locale
  \<open>role_picker\<close>: a picked variant serves the role and has a known capacity, and the cap
  returned with it is positive and within \<open>MaxReplicas\<close>.  A picker that also stays
  within a GPU budget keeps the contract \<open>budget_picker\<close>.  The cost picker and the
  fair-share picker are instances in the theories that define them.
\<close>

section \<open>The largest number of replicas a variant may have\<close>

definition replica_limit :: "state_map \<Rightarrow> string \<Rightarrow> int option" where
  "replica_limit sm v = (case st_MaxReplicas (mget zero_state sm v) of
     Some m \<Rightarrow> if m > 0 then Some m else None | None \<Rightarrow> None)"

definition within_limit :: "state_map \<Rightarrow> string \<Rightarrow> int \<Rightarrow> bool" where
  "within_limit sm v n = (case replica_limit sm v of None \<Rightarrow> True | Some m \<Rightarrow> n \<le> m)"

section \<open>Variants with distinct names\<close>

abbreviation names :: "variant_capacity list \<Rightarrow> string list" where
  "names vcs \<equiv> map vc_VariantName vcs"

lemma find_distinct_key:
  "distinct (map f xs) \<Longrightarrow> x \<in> set xs \<Longrightarrow> find (\<lambda>y. f y = f x) xs = Some x"
  by (induction xs) auto

lemma prcFromVCs_distinct:
  "distinct (names vcs) \<Longrightarrow> vc \<in> set vcs \<Longrightarrow> prcFromVCs vcs (vc_VariantName vc) = vc_PerReplicaCapacity vc"
  by (simp add: prcFromVCs_def find_distinct_key)

lemma accFromVCs_distinct:
  "distinct (names vcs) \<Longrightarrow> vc \<in> set vcs \<Longrightarrow> accFromVCs vcs (vc_VariantName vc) = vc_AcceleratorName vc"
  by (simp add: accFromVCs_def find_distinct_key)

section \<open>Counts and commits\<close>

lemma fold_min_le: "fold (\<lambda>p d. if f p < d then f p else d) ps a \<le> (a :: gofloat)"
proof (induction ps arbitrary: a)
  case (Cons p ps)
  have "fold (\<lambda>p d. if f p < d then f p else d) ps (if f p < a then f p else a) \<le> (if f p < a then f p else a)"
    by (rule Cons.IH)
  also have "\<dots> \<le> a" by simp
  finally show ?case by simp
qed simp

lemma fold_min_le_mem:
  "p \<in> set ps \<Longrightarrow> fold (\<lambda>p d. if f p < d then f p else d) ps a \<le> (f p :: gofloat)"
proof (induction ps arbitrary: a)
  case (Cons q ps)
  show ?case
  proof (cases "p = q")
    case True
    have "fold (\<lambda>p d. if f p < d then f p else d) ps (if f q < a then f q else a)
        \<le> (if f q < a then f q else a)" by (rule fold_min_le)
    then show ?thesis using True by (auto split: if_splits)
  next
    case False
    then show ?thesis using Cons by simp
  qed
qed simp

lemma fold_min_cases:
  "fold (\<lambda>p d. if f p < d then f p else d) ps a \<in> insert (a :: gofloat) (f ` set ps)"
proof (induction ps arbitrary: a)
  case (Cons p ps)
  show ?case using Cons.IH [of "if f p < a then f p else a"] by (auto split: if_splits)
qed simp

lemma MaxFloat64_pos: "0 < MaxFloat64"
  by (simp add: MaxFloat64_def)

text \<open>The joint count of a role stays between nothing and what its own sizing allows.\<close>

lemma joint_count_le:
  assumes "p \<in> set ps" and "delta = delta_util vcs st ps" and "0 < delta" and "0 \<le> snd (snd p)"
  shows "joint_count vcs st delta p \<le> snd (snd p)"
proof -
  obtain role v c where p: "p = (role, v, c)" by (metis prod.exhaust)
  define d where "d = roleAggRemaining (as_ballot st) (as_demand st) role"
  define prc where "prc = prcFromVCs vcs v"
  have nc: "role_count st p \<le> c" by (simp add: role_count_def p)
  show ?thesis
  proof (cases "0 < prc \<and> 0 < d")
    case True
    have "delta \<le> role_util vcs st p"
      unfolding assms(2) delta_util_def by (rule fold_min_le_mem [OF assms(1)])
    then have "delta \<le> of_int (role_count st p) * prc / d"
      using True by (simp add: role_util_def p Let_def d_def prc_def)
    then have "delta * d / prc \<le> of_int (role_count st p)" using True by (simp add: field_simps)
    then have "\<lfloor>delta * d / prc\<rfloor> \<le> role_count st p" by (simp add: floor_le_iff)
    then show ?thesis using nc True by (simp add: joint_count_def p Let_def d_def prc_def)
  next
    case False
    then show ?thesis using assms(4) by (auto simp: joint_count_def p Let_def d_def prc_def)
  qed
qed

text \<open>What a list of commits does to the targets, the budget and the demand.\<close>

abbreviation committed :: "((string \<times> string \<times> int) \<times> int) list \<Rightarrow> string \<Rightarrow> int" where
  "committed cs v \<equiv> (\<Sum>c\<leftarrow>cs. if fst (snd (fst c)) = v then snd c else 0)"

lemma commit_fold_targets:
  "mget 0 (as_targets (fold (commit_role vcs sm) cs st)) v = mget 0 (as_targets st) v + committed cs v"
proof (induction cs arbitrary: st)
  case (Cons c cs)
  obtain role w n k where c: "c = ((role, w, n), k)" by (metis prod.exhaust)
  have "mget 0 (as_targets (commit_role vcs sm c st)) v
      = mget 0 (as_targets st) v + (if w = v then k else 0)" by (simp add: commit_role_def c)
  then show ?case by (simp add: Cons.IH c)
qed simp

lemma commit_fold_available:
  "as_available st = Some av \<Longrightarrow> \<exists>av'. as_available (fold (commit_role vcs sm) cs st) = Some av' \<and>
     (\<forall>a. mget 0 av' a = mget 0 av a -
       (\<Sum>c\<leftarrow>cs. if accFromVCs vcs (fst (snd (fst c))) = a
          then snd c * gpusPerReplicaFromState sm (fst (snd (fst c))) else 0))"
proof (induction cs arbitrary: st av)
  case (Cons c cs)
  obtain role w n k where c: "c = ((role, w, n), k)" by (metis prod.exhaust)
  have "as_available (commit_role vcs sm c st) =
      Some (madd (accFromVCs vcs w) (- (k * gpusPerReplicaFromState sm w)) av)"
    using Cons.prems by (simp add: commit_role_def c)
  from Cons.IH [OF this] obtain av' where
    "as_available (fold (commit_role vcs sm) cs (commit_role vcs sm c st)) = Some av'"
    "\<forall>a. mget 0 av' a = mget 0 (madd (accFromVCs vcs w) (- (k * gpusPerReplicaFromState sm w)) av) a -
       (\<Sum>c\<leftarrow>cs. if accFromVCs vcs (fst (snd (fst c))) = a
          then snd c * gpusPerReplicaFromState sm (fst (snd (fst c))) else 0)" by blast
  then show ?case by (intro exI [of _ av']) (simp add: c)
qed simp

lemma commit_fold_none:
  "as_available st = None \<Longrightarrow> as_available (fold (commit_role vcs sm) cs st) = None"
  by (induction cs arbitrary: st) (auto simp: commit_role_def)

lemma length_lower_demand [simp]: "length (lower_demand role x ps) = length ps"
  by (simp add: lower_demand_def)

lemma lower_demand_nth:
  "i < length ps \<Longrightarrow> mget 0 (lower_demand role x ps ! i) r =
     (if r = role then max 0 (mget 0 (ps ! i) r - x) else mget 0 (ps ! i) r)"
  by (simp add: lower_demand_def)

lemma commit_fold_length [simp]: "length (as_demand (fold (commit_role vcs sm) cs st)) = length (as_demand st)"
proof (induction cs arbitrary: st)
  case (Cons c cs)
  then show ?case by (auto simp: commit_role_def split: prod.split)
qed simp

text \<open>Demand goes down by no more than the capacity committed to the role.\<close>

lemma commit_fold_demand_ge:
  "i < length (as_demand st) \<Longrightarrow>
     mget 0 (as_demand st ! i) r - (\<Sum>c\<leftarrow>cs. if fst (fst c) = r
        then of_int (snd c) * prcFromVCs vcs (fst (snd (fst c))) else 0)
     \<le> mget 0 (as_demand (fold (commit_role vcs sm) cs st) ! i) r"
proof (induction cs arbitrary: st)
  case (Cons c cs)
  obtain role w n k where c: "c = ((role, w, n), k)" by (metis prod.exhaust)
  let ?st = "commit_role vcs sm c st"
  let ?x = "of_int k * prcFromVCs vcs w"
  have len: "i < length (as_demand ?st)" using Cons.prems by (simp add: commit_role_def c)
  have "mget 0 (as_demand st ! i) r - (if role = r then ?x else 0) \<le> mget 0 (as_demand ?st ! i) r"
    using Cons.prems by (auto simp: commit_role_def c lower_demand_nth)
  then show ?case using Cons.IH [OF len] by (cases "role = r") (simp_all add: c)
qed simp

lemma paired_step_length:
  "paired_step pick vcs sm roles st = Some st' \<Longrightarrow> length (as_demand st') = length (as_demand st)"
  by (erule paired_step_parts) simp

lemma length_applyAllocation [simp]: "length (applyAllocation v n s) = length s"
  by (simp add: applyAllocation_def)

lemma commit_fold_ballot [simp]: "as_ballot (fold (commit_role vcs sm) cs st) = as_ballot st"
proof (induction cs arbitrary: st)
  case (Cons c cs)
  then show ?case by (auto simp: commit_role_def split: prod.split)
qed simp

lemma paired_step_ballot_length:
  "paired_step pick vcs sm roles st = Some st' \<Longrightarrow> length (as_ballot st') = length (as_ballot st)"
  by (erule paired_step_parts) (auto split: option.split)

section \<open>The loop\<close>

text \<open>A property every step keeps holds when the loop stops.\<close>

lemma paired_invariant:
  assumes "I st" and "\<And>st st'. I st \<Longrightarrow> paired_step pick vcs sm roles st = Some st' \<Longrightarrow> I st'"
  shows "I (allocateForModelPaired pick vcs sm roles st)"
  using assms
proof (induction pick vcs sm roles st rule: allocateForModelPaired.induct)
  case (1 pick vcs sm roles st)
  show ?case
  proof (cases "anyRoleNeedsScaleUp (as_demand st) roles")
    case False
    then show ?thesis using 1(2) by (simp add: allocateForModelPaired.simps [of pick vcs sm roles st])
  next
    case True
    show ?thesis
    proof (cases "paired_step pick vcs sm roles st")
      case None
      then show ?thesis using 1(2) by (simp add: allocateForModelPaired.simps [of pick vcs sm roles st])
    next
      case (Some st')
      then have "I (allocateForModelPaired pick vcs sm roles st')" using 1(1) [OF True Some] 1(2,3) by blast
      then show ?thesis using True Some by (simp add: allocateForModelPaired.simps [of pick vcs sm roles st])
    qed
  qed
qed

lemma paired_exit:
  "anyRoleNeedsScaleUp (as_demand (allocateForModelPaired pick vcs sm roles st)) roles \<Longrightarrow>
     paired_step pick vcs sm roles (allocateForModelPaired pick vcs sm roles st) = None"
proof (induction pick vcs sm roles st rule: allocateForModelPaired.induct)
  case (1 pick vcs sm roles st)
  show ?case
  proof (cases "anyRoleNeedsScaleUp (as_demand st) roles")
    case False
    then show ?thesis using 1(2) by (simp add: allocateForModelPaired.simps [of pick vcs sm roles st])
  next
    case True
    then show ?thesis using 1
      by (cases "paired_step pick vcs sm roles st")
        (simp_all add: allocateForModelPaired.simps [of pick vcs sm roles st])
  qed
qed

section \<open>GPUs and capacity of a set of targets\<close>

definition gpus_on :: "variant_capacity list \<Rightarrow> state_map \<Rightarrow> (string, int) gomap \<Rightarrow> string \<Rightarrow> int" where
  "gpus_on vcs sm tg a = (\<Sum>vc\<leftarrow>vcs. if vc_AcceleratorName vc = a
     then mget 0 tg (vc_VariantName vc) * gpusPerReplicaFromState sm (vc_VariantName vc) else 0)"

definition capacity_on :: "variant_capacity list \<Rightarrow> (string, int) gomap \<Rightarrow> string \<Rightarrow> gofloat" where
  "capacity_on vcs tg r = (\<Sum>vc\<leftarrow>vcs. if canon_role (vc_Role vc) = r
     then of_int (mget 0 tg (vc_VariantName vc)) * vc_PerReplicaCapacity vc else 0)"

lemma sum_point:
  fixes g :: "'a \<Rightarrow> 'b :: comm_monoid_add"
  shows "distinct (map f xs) \<Longrightarrow> x \<in> set xs \<Longrightarrow> (\<Sum>y\<leftarrow>xs. if f y = f x then g y else 0) = g x"
proof (induction xs)
  case (Cons y ys)
  have rest: "(\<Sum>z\<leftarrow>ys. if f z = f x then g z else 0) = 0" if "f x \<notin> f ` set ys" using that
    by (induction ys) auto
  show ?case
  proof (cases "x = y")
    case True
    then show ?thesis using Cons.prems rest by simp
  next
    case False
    then have "x \<in> set ys" "f y \<noteq> f x" using Cons.prems by force+
    then show ?thesis using Cons by simp
  qed
qed simp

text \<open>Changing the target of one variant changes a weighted sum of targets by its weight.\<close>

lemma sum_madd:
  fixes w :: "variant_capacity \<Rightarrow> 'b :: comm_ring_1"
  assumes "distinct (names vcs)" and "vc \<in> set vcs"
  shows "(\<Sum>y\<leftarrow>vcs. if P y then of_int (mget 0 (madd (vc_VariantName vc) k tg) (vc_VariantName y)) * w y else 0) =
    (\<Sum>y\<leftarrow>vcs. if P y then of_int (mget 0 tg (vc_VariantName y)) * w y else 0) + (if P vc then of_int k * w vc else 0)"
proof -
  have "(\<Sum>y\<leftarrow>vcs. if P y then of_int (mget 0 (madd (vc_VariantName vc) k tg) (vc_VariantName y)) * w y else 0) =
    (\<Sum>y\<leftarrow>vcs. if P y then of_int (mget 0 tg (vc_VariantName y)) * w y else 0) +
    (\<Sum>y\<leftarrow>vcs. if vc_VariantName y = vc_VariantName vc then (if P y then of_int k * w y else 0) else 0)"
    by (induction vcs) (auto simp: algebra_simps)
  then show ?thesis by (simp add: sum_point [OF assms])
qed

lemma gpus_on_madd:
  assumes "distinct (names vcs)" and "vc \<in> set vcs"
  shows "gpus_on vcs sm (madd (vc_VariantName vc) k tg) a = gpus_on vcs sm tg a +
    (if vc_AcceleratorName vc = a then k * gpusPerReplicaFromState sm (vc_VariantName vc) else 0)"
  unfolding gpus_on_def by (rule sum_madd [OF assms, where 'b = int, unfolded of_int_eq_id id_apply])

lemma capacity_on_madd:
  assumes "distinct (names vcs)" and "vc \<in> set vcs"
  shows "capacity_on vcs (madd (vc_VariantName vc) k tg) r = capacity_on vcs tg r +
    (if canon_role (vc_Role vc) = r then of_int k * vc_PerReplicaCapacity vc else 0)"
  unfolding capacity_on_def by (rule sum_madd [OF assms])

text \<open>A commit that names a variant of the list and its role.\<close>

definition serves :: "variant_capacity list \<Rightarrow> (string \<times> string \<times> int) \<times> int \<Rightarrow> bool" where
  "serves vcs c \<longleftrightarrow> (\<exists>vc\<in>set vcs. vc_VariantName vc = fst (snd (fst c)) \<and> canon_role (vc_Role vc) = fst (fst c))"

text \<open>Every GPU taken from the budget is a GPU of an added replica.\<close>

lemma commit_fold_conserves:
  assumes "distinct (names vcs)"
  shows "list_all (serves vcs) cs \<Longrightarrow> as_available st \<noteq> None \<Longrightarrow>
    (let st' = fold (commit_role vcs sm) cs st in as_available st' \<noteq> None \<and>
       mget 0 (budget_map st') a + gpus_on vcs sm (as_targets st') a =
       mget 0 (budget_map st) a + gpus_on vcs sm (as_targets st) a)"
proof (induction cs arbitrary: st)
  case (Cons c cs)
  obtain role w n k where c: "c = ((role, w, n), k)" by (metis prod.exhaust)
  obtain vc where vc: "vc \<in> set vcs" "vc_VariantName vc = w" using Cons.prems by (auto simp: serves_def c)
  have acc: "accFromVCs vcs w = vc_AcceleratorName vc" using accFromVCs_distinct [OF assms vc(1)] vc(2) by simp
  obtain av where av: "as_available st = Some av" using Cons.prems by auto
  let ?st = "commit_role vcs sm c st"
  have "as_available ?st = Some (madd (accFromVCs vcs w) (- (k * gpusPerReplicaFromState sm w)) av)"
    by (simp add: commit_role_def c av)
  moreover have "as_targets ?st = madd w k (as_targets st)" by (simp add: commit_role_def c)
  ultimately have "as_available ?st \<noteq> None"
    "mget 0 (budget_map ?st) a + gpus_on vcs sm (as_targets ?st) a =
       mget 0 (budget_map st) a + gpus_on vcs sm (as_targets st) a"
    using gpus_on_madd [OF assms vc(1), of sm k "as_targets st" a] by (simp_all add: budget_map_def av acc vc(2))
  then show ?case using Cons.IH [of ?st] Cons.prems by (simp add: Let_def)
qed simp

text \<open>Demand that disappears is capacity that was added.\<close>

lemma commit_fold_served:
  assumes "distinct (names vcs)"
  shows "list_all (serves vcs) cs \<Longrightarrow> i < length (as_demand st) \<Longrightarrow>
    mget 0 (as_demand st ! i) r + capacity_on vcs (as_targets st) r
      \<le> mget 0 (as_demand (fold (commit_role vcs sm) cs st) ! i) r +
        capacity_on vcs (as_targets (fold (commit_role vcs sm) cs st)) r"
proof (induction cs arbitrary: st)
  case (Cons c cs)
  obtain role w n k where c: "c = ((role, w, n), k)" by (metis prod.exhaust)
  obtain vc where vc: "vc \<in> set vcs" "vc_VariantName vc = w" "canon_role (vc_Role vc) = role"
    using Cons.prems by (auto simp: serves_def c)
  have prc: "prcFromVCs vcs w = vc_PerReplicaCapacity vc" using prcFromVCs_distinct [OF assms vc(1)] vc(2) by simp
  let ?st = "commit_role vcs sm c st"
  have "as_targets ?st = madd w k (as_targets st)" by (simp add: commit_role_def c)
  moreover have "mget 0 (as_demand ?st ! i) r =
      (if r = role then max 0 (mget 0 (as_demand st ! i) r - of_int k * vc_PerReplicaCapacity vc)
       else mget 0 (as_demand st ! i) r)"
    using Cons.prems by (simp add: commit_role_def c lower_demand_nth prc)
  ultimately have "mget 0 (as_demand st ! i) r + capacity_on vcs (as_targets st) r
      \<le> mget 0 (as_demand ?st ! i) r + capacity_on vcs (as_targets ?st) r"
    using capacity_on_madd [OF assms vc(1), of k "as_targets st" r] vc by auto
  moreover have "length (as_demand ?st) = length (as_demand st)" by (simp add: commit_role_def c)
  ultimately show ?case using Cons.IH [of ?st] Cons.prems by simp
qed simp

section \<open>The contract of a picker\<close>

locale role_picker =
  fixes pick :: role_pick
  assumes pick_variant: "pick role s vcs sm av tg = (v, c) \<Longrightarrow> v \<noteq> [] \<Longrightarrow>
      \<exists>vc\<in>set vcs. vc_VariantName vc = v \<and> canon_role (vc_Role vc) = role \<and> 0 < vc_PerReplicaCapacity vc"
    and pick_positive: "pick role s vcs sm av tg = (v, c) \<Longrightarrow> v \<noteq> [] \<Longrightarrow> 0 < c"
    and pick_limit: "pick role s vcs sm av tg = (v, c) \<Longrightarrow> v \<noteq> [] \<Longrightarrow> within_limit sm v (mget 0 tg v + c)"
begin

lemma pick_roles_mem:
  "pick_roles pick vcs sm st roles = Some ps \<Longrightarrow> (role, v, c) \<in> set ps \<Longrightarrow>
     role \<in> set roles \<and> v \<noteq> [] \<and> pick role (as_ballot st) vcs sm (budget_map st) (as_targets st) = (v, c)"
  by (induction roles arbitrary: ps) (auto simp: Let_def split: prod.splits if_splits option.splits)

lemma pick_roles_facts:
  assumes "pick_roles pick vcs sm st roles = Some ps" and "(role, v, c) \<in> set ps"
  shows "\<exists>vc\<in>set vcs. vc_VariantName vc = v \<and> canon_role (vc_Role vc) = role \<and> 0 < vc_PerReplicaCapacity vc"
    and "0 < c" and "within_limit sm v (mget 0 (as_targets st) v + c)"
proof -
  have v: "v \<noteq> []" and p: "pick role (as_ballot st) vcs sm (budget_map st) (as_targets st) = (v, c)"
    using pick_roles_mem [OF assms] by simp_all
  show "\<exists>vc\<in>set vcs. vc_VariantName vc = v \<and> canon_role (vc_Role vc) = role \<and> 0 < vc_PerReplicaCapacity vc"
    by (rule pick_variant [OF p v])
  show "0 < c" by (rule pick_positive [OF p v])
  show "within_limit sm v (mget 0 (as_targets st) v + c)" by (rule pick_limit [OF p v])
qed

text \<open>No variant serves two roles, so each is picked once.\<close>

lemma pick_roles_distinct:
  assumes ps: "pick_roles pick vcs sm st roles = Some ps" and "distinct roles" and "distinct (names vcs)"
  shows "distinct (map (\<lambda>p. fst (snd p)) ps)"
proof -
  have "distinct (map fst ps)" using pick_roles_fst [OF ps] assms(2) by simp
  moreover have "fst p = fst q" if mem: "p \<in> set ps" "q \<in> set ps" "fst (snd p) = fst (snd q)" for p q
  proof -
    obtain r v c where p: "p = (r, v, c)" by (metis prod.exhaust)
    obtain r' w c' where q: "q = (r', w, c')" by (metis prod.exhaust)
    have pq: "p = (r, v, c)" "q = (r', v, c')" using mem(3) p q by simp_all
    obtain vc vc' where "vc \<in> set vcs" "vc_VariantName vc = v" "canon_role (vc_Role vc) = r"
      "vc' \<in> set vcs" "vc_VariantName vc' = v" "canon_role (vc_Role vc') = r'"
      using pick_roles_facts(1) [OF ps] mem(1,2) unfolding pq by blast
    then show ?thesis using assms(3) pq by (metis distinct_map inj_onD fst_conv)
  qed
  ultimately show ?thesis
    by (auto simp: distinct_map intro!: inj_onI) (metis inj_onD fst_conv snd_conv)
qed

text \<open>A taken step, seen from the contract.\<close>

lemma step_commits:
  assumes "paired_step pick vcs sm roles st = Some st'" and "distinct roles" and "distinct (names vcs)"
  obtains cs where "list_all (serves vcs) cs" and "distinct (map (\<lambda>c. fst (snd (fst c))) cs)"
    and "map (\<lambda>c. fst (fst c)) cs = roles"
    and "\<forall>c\<in>set cs. 0 \<le> snd c \<and> snd c \<le> snd (snd (fst c)) \<and>
      pick (fst (fst c)) (as_ballot st) vcs sm (budget_map st) (as_targets st) = snd (fst c) \<and> fst (snd (fst c)) \<noteq> []"
    and "as_demand st' = as_demand (fold (commit_role vcs sm) cs st)"
    and "as_targets st' = as_targets (fold (commit_role vcs sm) cs st)"
    and "as_available st' = as_available (fold (commit_role vcs sm) cs st)"
proof -
  from assms(1) obtain ps delta cs where ps: "pick_roles pick vcs sm st roles = Some ps"
    and delta: "delta = delta_util vcs st ps" "0 < delta"
    and cs: "cs = map (\<lambda>p. (p, joint_count vcs st delta p)) ps"
    and eqs: "as_demand st' = as_demand (fold (commit_role vcs sm) cs st)"
      "as_targets st' = as_targets (fold (commit_role vcs sm) cs st)"
      "as_available st' = as_available (fold (commit_role vcs sm) cs st)"
    by (rule paired_step_parts)
  show ?thesis
  proof (rule that [OF _ _ _ _ eqs])
    show "list_all (serves vcs) cs"
      using pick_roles_facts(1) [OF ps] by (fastforce simp: list_all_iff serves_def cs)
    show "distinct (map (\<lambda>c. fst (snd (fst c))) cs)"
      using pick_roles_distinct [OF ps assms(2,3)] by (simp add: cs comp_def)
    show "map (\<lambda>c. fst (fst c)) cs = roles" using pick_roles_fst [OF ps] by (simp add: cs comp_def)
    have "0 \<le> snd c \<and> snd c \<le> snd (snd (fst c)) \<and>
      pick (fst (fst c)) (as_ballot st) vcs sm (budget_map st) (as_targets st) = snd (fst c) \<and> fst (snd (fst c)) \<noteq> []"
      if "c \<in> set cs" for c
    proof -
    from that obtain p where p: "p \<in> set ps" "c = (p, joint_count vcs st delta p)" by (auto simp: cs)
    obtain r v n where pp: "p = (r, v, n)" by (metis prod.exhaust)
    have "0 < n" using pick_roles_facts(2) [OF ps] p(1) pp by blast
    then have "joint_count vcs st delta p \<le> n" using joint_count_le [OF p(1) delta] pp by simp
    then show ?thesis
      using pick_roles_mem [OF ps] p pp joint_count_nonneg [OF delta(2)] by auto
    qed
    then show "\<forall>c\<in>set cs. 0 \<le> snd c \<and> snd c \<le> snd (snd (fst c)) \<and>
      pick (fst (fst c)) (as_ballot st) vcs sm (budget_map st) (as_targets st) = snd (fst c) \<and> fst (snd (fst c)) \<noteq> []"
      by blast
  qed
qed

end

lemma committed_point:
  "distinct (map (\<lambda>c. fst (snd (fst c))) cs) \<Longrightarrow>
     (\<exists>c\<in>set cs. fst (snd (fst c)) = v \<and> committed cs v = snd c) \<or>
     v \<notin> (\<lambda>c. fst (snd (fst c))) ` set cs \<and> committed cs v = 0"
proof (induction cs)
  case (Cons c cs)
  have absent: "committed cs v = 0" if "v \<notin> (\<lambda>c. fst (snd (fst c))) ` set cs" for cs
    using that by (induction cs) auto
  show ?case
  proof (cases "fst (snd (fst c)) = v")
    case True
    then have "committed cs v = 0" using Cons.prems by (intro absent) auto
    then show ?thesis using True by simp
  next
    case False
    then show ?thesis using Cons by auto
  qed
qed simp

lemma step_none_cases:
  assumes "paired_step pick vcs sm roles st = None"
  obtains "pick_roles pick vcs sm st roles = None"
  | ps where "pick_roles pick vcs sm st roles = Some ps" and "delta_util vcs st ps \<le> 0"
  | ps where "pick_roles pick vcs sm st roles = Some ps"
      and "\<And>p. p \<in> set ps \<Longrightarrow> joint_count vcs st (delta_util vcs st ps) p \<le> 0"
  using assms unfolding paired_step_def
  by (cases "pick_roles pick vcs sm st roles")
    (fastforce simp: Let_def list_ex_iff not_less split: if_splits)+

lemma pick_roles_None:
  "pick_roles pick vcs sm st roles = None \<longleftrightarrow>
     (\<exists>r\<in>set roles. fst (pick r (as_ballot st) vcs sm (budget_map st) (as_targets st)) = [])"
  by (induction roles) (auto simp: Let_def split: prod.splits option.splits)

context role_picker
begin

text \<open>The loop adds replicas only, and only up to the limit of the variant.\<close>

lemma loop_targets:
  fixes st :: alloc_state and sm :: state_map and vcs :: "variant_capacity list" and roles :: "string list"
  assumes "distinct roles" and "distinct (names vcs)"
  defines "st' \<equiv> allocateForModelPaired pick vcs sm roles st"
  shows "mget 0 (as_targets st) v \<le> mget 0 (as_targets st') v \<and>
    (mget 0 (as_targets st') v = mget 0 (as_targets st) v \<or> within_limit sm v (mget 0 (as_targets st') v))"
  unfolding st'_def
proof (rule paired_invariant [where I = "\<lambda>st'. mget 0 (as_targets st) v \<le> mget 0 (as_targets st') v \<and>
    (mget 0 (as_targets st') v = mget 0 (as_targets st) v \<or> within_limit sm v (mget 0 (as_targets st') v))"])
  fix a b assume I: "mget 0 (as_targets st) v \<le> mget 0 (as_targets a) v \<and>
    (mget 0 (as_targets a) v = mget 0 (as_targets st) v \<or> within_limit sm v (mget 0 (as_targets a) v))"
    and step: "paired_step pick vcs sm roles a = Some b"
  obtain cs where dist: "distinct (map (\<lambda>c. fst (snd (fst c))) cs)"
    and cs: "\<forall>c\<in>set cs. 0 \<le> snd c \<and> snd c \<le> snd (snd (fst c)) \<and>
      pick (fst (fst c)) (as_ballot a) vcs sm (budget_map a) (as_targets a) = snd (fst c) \<and> fst (snd (fst c)) \<noteq> []"
    and tg: "as_targets b = as_targets (fold (commit_role vcs sm) cs a)"
    by (rule step_commits [OF step assms(1,2)])
  have b: "mget 0 (as_targets b) v = mget 0 (as_targets a) v + committed cs v"
    unfolding tg by (rule commit_fold_targets)
  from committed_point [OF dist, of v]
  show "mget 0 (as_targets st) v \<le> mget 0 (as_targets b) v \<and>
    (mget 0 (as_targets b) v = mget 0 (as_targets st) v \<or> within_limit sm v (mget 0 (as_targets b) v))"
  proof
    assume "\<exists>c\<in>set cs. fst (snd (fst c)) = v \<and> committed cs v = snd c"
    then obtain r n k where c: "((r, v, n), k) \<in> set cs" "committed cs v = k" by auto
    have k: "0 \<le> k" "k \<le> n" and p: "pick r (as_ballot a) vcs sm (budget_map a) (as_targets a) = (v, n)"
      and v: "v \<noteq> []" using bspec [OF cs c(1)] by simp_all
    have "within_limit sm v (mget 0 (as_targets a) v + n)" by (rule pick_limit [OF p v])
    with k show ?thesis using I b c(2) by (auto simp: within_limit_def split: option.splits)
  qed (use I b in simp)
qed simp

lemma loop_keeps_budget:
  fixes st :: alloc_state and sm :: state_map and vcs :: "variant_capacity list" and roles :: "string list"
  assumes "distinct roles" and "distinct (names vcs)" and "as_available st \<noteq> None"
  defines "st' \<equiv> allocateForModelPaired pick vcs sm roles st"
  shows "as_available st' \<noteq> None \<and> mget 0 (budget_map st') a + gpus_on vcs sm (as_targets st') a =
    mget 0 (budget_map st) a + gpus_on vcs sm (as_targets st) a"
  unfolding st'_def
proof (rule paired_invariant)
  fix x y assume I: "as_available x \<noteq> None \<and> mget 0 (budget_map x) a + gpus_on vcs sm (as_targets x) a =
    mget 0 (budget_map st) a + gpus_on vcs sm (as_targets st) a"
    and step: "paired_step pick vcs sm roles x = Some y"
  obtain cs where serve: "list_all (serves vcs) cs"
    and tg: "as_targets y = as_targets (fold (commit_role vcs sm) cs x)"
    and av: "as_available y = as_available (fold (commit_role vcs sm) cs x)"
    by (rule step_commits [OF step assms(1,2)])
  have "budget_map y = budget_map (fold (commit_role vcs sm) cs x)" by (simp add: budget_map_def av)
  then show "as_available y \<noteq> None \<and> mget 0 (budget_map y) a + gpus_on vcs sm (as_targets y) a =
    mget 0 (budget_map st) a + gpus_on vcs sm (as_targets st) a"
    using commit_fold_conserves [OF assms(2) serve, of x sm a] I by (simp add: Let_def tg av)
qed (use assms(3) in simp)

text \<open>Whatever demand an analyzer no longer sees is covered by added capacity.\<close>

lemma loop_served:
  fixes st :: alloc_state and sm :: state_map and vcs :: "variant_capacity list" and roles :: "string list"
  assumes "distinct roles" and "distinct (names vcs)" and "i < length (as_demand st)"
  defines "st' \<equiv> allocateForModelPaired pick vcs sm roles st"
  shows "i < length (as_demand st') \<and>
    mget 0 (as_demand st ! i) r + capacity_on vcs (as_targets st) r
      \<le> mget 0 (as_demand st' ! i) r + capacity_on vcs (as_targets st') r"
  unfolding st'_def
proof (rule paired_invariant)
  fix x y assume I: "i < length (as_demand x) \<and>
    mget 0 (as_demand st ! i) r + capacity_on vcs (as_targets st) r
      \<le> mget 0 (as_demand x ! i) r + capacity_on vcs (as_targets x) r"
    and step: "paired_step pick vcs sm roles x = Some y"
  obtain cs where serve: "list_all (serves vcs) cs"
    and dem: "as_demand y = as_demand (fold (commit_role vcs sm) cs x)"
    and tg: "as_targets y = as_targets (fold (commit_role vcs sm) cs x)"
    by (rule step_commits [OF step assms(1,2)])
  show "i < length (as_demand y) \<and>
    mget 0 (as_demand st ! i) r + capacity_on vcs (as_targets st) r
      \<le> mget 0 (as_demand y ! i) r + capacity_on vcs (as_targets y) r"
    using commit_fold_served [OF assms(2) serve, of i x r sm] I by (simp add: dem tg)
qed (use assms(3) in simp)

text \<open>
  Why the loop may stop with demand left: a role found no variant, or no analyzer that wants more
  of a role can size the variant chosen for it.
\<close>

lemma loop_exit:
  fixes st :: alloc_state and sm :: state_map and vcs :: "variant_capacity list" and roles :: "string list"
  assumes "length (as_ballot st) = length (as_demand st)" and "distinct (names vcs)"
  defines "st' \<equiv> allocateForModelPaired pick vcs sm roles st"
  assumes left: "anyRoleNeedsScaleUp (as_demand st') roles"
  shows "\<exists>r\<in>set roles. let v = fst (pick r (as_ballot st') vcs sm (budget_map st') (as_targets st')) in
    v = [] \<or> 0 < top_demand (as_demand st') r \<and> roleBottleneckReplicas (as_ballot st') (as_demand st') r v \<le> 0"
proof -
  have len: "length (as_ballot st') = length (as_demand st')"
    unfolding st'_def by (rule paired_invariant) (auto simp: assms(1) paired_step_length paired_step_ballot_length)
  note agg = roleAggRemaining_eq [OF len]
  have "paired_step pick vcs sm roles st' = None" unfolding st'_def by (rule paired_exit) (use left st'_def in simp)
  then show ?thesis
  proof (cases rule: step_none_cases)
    case 1
    then show ?thesis by (auto simp: pick_roles_None Let_def)
  next
    case (2 ps)
    then obtain p where p: "p \<in> set ps" "role_util vcs st' p \<le> 0"
      using fold_min_cases [of "role_util vcs st'" ps MaxFloat64] MaxFloat64_pos by (force simp: delta_util_def)
    obtain r v n where pp: "p = (r, v, n)" by (metis prod.exhaust)
    have m: "r \<in> set roles" "pick r (as_ballot st') vcs sm (budget_map st') (as_targets st') = (v, n)" "0 < n"
      using pick_roles_mem [OF 2(1)] pick_roles_facts(2) [OF 2(1)] p(1) pp by blast+
    obtain vc where "vc \<in> set vcs" "vc_VariantName vc = v" "0 < vc_PerReplicaCapacity vc"
      using pick_roles_facts(1) [OF 2(1)] p(1) pp by blast
    then have prc: "0 < prcFromVCs vcs v" using prcFromVCs_distinct [OF assms(2)] by metis
    have d: "0 < top_demand (as_demand st') r" using p(2) by (auto simp: role_util_def pp Let_def agg split: if_splits)
    then have "of_int (role_count st' p) * prcFromVCs vcs v / top_demand (as_demand st') r \<le> 0"
      using p(2) by (simp add: role_util_def pp Let_def agg)
    then have "role_count st' p \<le> 0" using d prc by (simp add: divide_le_0_iff mult_le_0_iff)
    then show ?thesis using m d by (intro bexI [of _ r]) (auto simp: role_count_def pp Let_def)
  next
    case (3 ps)
    obtain r where r: "r \<in> set roles" "0 < top_demand (as_demand st') r"
      using left by (auto simp: anyRoleNeedsScaleUp_iff)
    then obtain v n where pp: "(r, v, n) \<in> set ps" using pick_roles_fst [OF 3(1)] by force
    have m: "pick r (as_ballot st') vcs sm (budget_map st') (as_targets st') = (v, n)" "0 < n"
      using pick_roles_mem [OF 3(1) pp] pick_roles_facts(2) [OF 3(1) pp] by blast+
    obtain vc where "vc \<in> set vcs" "vc_VariantName vc = v" "0 < vc_PerReplicaCapacity vc"
      using pick_roles_facts(1) [OF 3(1) pp] by blast
    then have "0 < prcFromVCs vcs v" using prcFromVCs_distinct [OF assms(2)] by metis
    then have "role_count st' (r, v, n) \<le> 0" using 3(2) [OF pp] r by (auto simp: joint_count_def Let_def agg)
    then show ?thesis using m r by (intro bexI [of _ r]) (auto simp: role_count_def Let_def)
  qed
qed

end

end
