(* ===== verification/Cost_Aware.thy ===== *)
theory Cost_Aware
  imports Paired_Allocation
begin

text \<open>
  The optimizer for clusters without a GPU budget (\<open>cost_aware_optimizer.go\<close>): the picker
  that prefers cheap capacity, the shedding of replicas from the most expensive variants, and the
  turning of targets into decisions.  The scale-down routine keeps its two callbacks as arguments.
  Its decisions come in the order of the targets map, which Go leaves open.
\<close>

section \<open>Choosing a variant to grow\<close>

definition costEfficiency :: "variant_capacity \<Rightarrow> gofloat" where
  "costEfficiency vc =
     (if vc_PerReplicaCapacity vc \<le> 0 then MaxFloat64 else vc_Cost vc / vc_PerReplicaCapacity vc)"

definition sortByCostEfficiencyAsc :: "variant_capacity list \<Rightarrow> variant_capacity list" where
  "sortByCostEfficiencyAsc capacities = go_sort (\<lambda>a b. costEfficiency a < costEfficiency b) capacities"

fun first_with_headroom :: "state_map \<Rightarrow> (string, int) gomap \<Rightarrow> variant_capacity list \<Rightarrow> string \<times> int" where
  "first_with_headroom stateMap targets [] = ([], 0)"
| "first_with_headroom stateMap targets (vc # vcs) =
     (if vc_PerReplicaCapacity vc \<le> 0 then first_with_headroom stateMap targets vcs
      else case st_MaxReplicas (mget zero_state stateMap (vc_VariantName vc)) of
        Some m \<Rightarrow>
          if m > 0 then
            (let headroom = m - mget 0 targets (vc_VariantName vc) in
             if headroom \<le> 0 then first_with_headroom stateMap targets vcs
             else (vc_VariantName vc, headroom))
          else (vc_VariantName vc, MaxInt)
      | None \<Rightarrow> (vc_VariantName vc, MaxInt))"

definition costGreedyRolePick :: role_pick where
  "costGreedyRolePick role s variants stateMap available targets =
     first_with_headroom stateMap targets (sortByCostEfficiencyAsc (variantsForRole variants role))"

section \<open>Shedding replicas\<close>

definition anyHasReplicas :: "variant_capacity list \<Rightarrow> (string, int) gomap \<Rightarrow> bool" where
  "anyHasReplicas variants targets = list_ex (\<lambda>vc. mget 0 targets (vc_VariantName vc) > 0) variants"

definition floor_replicas :: "state_map option \<Rightarrow> string \<Rightarrow> int" where
  "floor_replicas states v = (case states of
     None \<Rightarrow> 0
   | Some m \<Rightarrow> (case map_of m v of
       None \<Rightarrow> 0
     | Some st \<Rightarrow> (case st_MinReplicas st of None \<Rightarrow> 0 | Some k \<Rightarrow> k)))"

text \<open>
  How many replicas of one variant go, given what the caller permits; nothing positive means none.
  \<open>before\<close> are the variants ahead of it in the list, \<open>isLast\<close> marks the cheapest.
\<close>

definition removal_count :: "state_map option \<Rightarrow> (string, int) gomap \<Rightarrow> int \<Rightarrow> variant_capacity list \<Rightarrow>
    bool \<Rightarrow> variant_capacity \<Rightarrow> int" where
  "removal_count states targets permitted before isLast vc =
     (let current = mget 0 targets (vc_VariantName vc);
          removable = current - floor_replicas states (vc_VariantName vc)
      in if vc_PerReplicaCapacity vc \<le> 0 \<or> removable \<le> 0 then 0
         else (let n = (if permitted > removable then removable else permitted)
               in if isLast \<and> current - n < 1 \<and> \<not> anyHasReplicas before targets then current - 1 else n))"

fun scale_down_from :: "state_map option \<Rightarrow> ('s \<Rightarrow> variant_capacity \<Rightarrow> int) \<Rightarrow>
    (variant_capacity \<Rightarrow> int \<Rightarrow> 's \<Rightarrow> 's) \<Rightarrow> variant_capacity list \<Rightarrow> variant_capacity list \<Rightarrow>
    (string, int) gomap \<times> 's \<Rightarrow> (string, int) gomap \<times> 's" where
  "scale_down_from states maxRemovable onRemove before [] (targets, s) = (targets, s)"
| "scale_down_from states maxRemovable onRemove before (vc # rest) (targets, s) =
     (let n = removal_count states targets (maxRemovable s vc) before (rest = []) vc in
      scale_down_from states maxRemovable onRemove (before @ [vc]) rest
        (if n \<le> 0 then (targets, s)
         else (mput (vc_VariantName vc) (mget 0 targets (vc_VariantName vc) - n) targets, onRemove vc n s)))"

definition scaleDownVariantSet :: "variant_capacity list \<Rightarrow> (string, int) gomap \<Rightarrow> state_map option \<Rightarrow>
    ('s \<Rightarrow> variant_capacity \<Rightarrow> int) \<Rightarrow> (variant_capacity \<Rightarrow> int \<Rightarrow> 's \<Rightarrow> 's) \<Rightarrow> 's \<Rightarrow>
    (string, int) gomap \<times> 's" where
  "scaleDownVariantSet sortedVariants targets states maxRemovable onRemove s =
     scale_down_from states maxRemovable onRemove [] sortedVariants (targets, s)"

definition weighted_capacity :: "named_result list \<Rightarrow> string \<Rightarrow> gofloat" where
  "weighted_capacity s name = (\<Sum>e\<leftarrow>s. case nr_Result e of
     None \<Rightarrow> 0 | Some r \<Rightarrow> nr_Score e * prcForVariant r name)"

definition shed_before :: "named_result list \<Rightarrow> variant_capacity \<Rightarrow> variant_capacity \<Rightarrow> bool" where
  "shed_before s a b =
     (if vc_Cost a \<noteq> vc_Cost b then vc_Cost a > vc_Cost b
      else (let wa = weighted_capacity s (vc_VariantName a); wb = weighted_capacity s (vc_VariantName b) in
        if wa \<noteq> wb then wa < wb else vc_VariantName a < vc_VariantName b))"

definition sortVariantsForScaleDown :: "named_result list \<Rightarrow> variant_capacity list \<Rightarrow> variant_capacity list" where
  "sortVariantsForScaleDown s roleVCs = go_sort (shed_before s) roleVCs"

definition scale_down_role :: "variant_capacity list \<Rightarrow> state_map option \<Rightarrow> string \<Rightarrow>
    (string, int) gomap \<times> named_result list \<Rightarrow> (string, int) gomap \<times> named_result list" where
  "scale_down_role variants states role = (\<lambda>(targets, s).
     if \<not> needsScaleDownForRole s role then (targets, s)
     else (let roleVCs = variantsForRole variants role in
       if roleVCs = [] then (targets, s)
       else scaleDownVariantSet (sortVariantsForScaleDown s roleVCs) targets states
              (\<lambda>s vc. safeRemovalReplicasForRole s (vc_VariantName vc) role)
              (\<lambda>vc n s. applyDeallocationForRole (vc_VariantName vc) role n s) s))"

definition scaleDownRoleIterated :: "named_result list \<Rightarrow> variant_capacity list \<Rightarrow> (string, int) gomap \<Rightarrow>
    state_map option \<Rightarrow> (string, int) gomap \<times> named_result list" where
  "scaleDownRoleIterated s variants targets states =
     fold (scale_down_role variants states) (rolesOf variants) (targets, s)"

section \<open>Decisions\<close>

definition optimizer_reason :: "string \<Rightarrow> string" where
  "optimizer_reason name = DecisionReasonV2 @ '' (optimizer: '' @ name @ '')''"

definition role_signal :: "analyzer_result \<Rightarrow> string \<Rightarrow> gofloat \<times> gofloat" where
  "role_signal anchor role = (case ar_RoleCapacities anchor of
     None \<Rightarrow> (ar_RequiredCapacity anchor, ar_SpareCapacity anchor)
   | Some rcs \<Rightarrow> (case map_of rcs role of
       None \<Rightarrow> (ar_RequiredCapacity anchor, ar_SpareCapacity anchor)
     | Some rc \<Rightarrow> (rc_RequiredCapacity rc, rc_SpareCapacity rc)))"

definition build_decision :: "model_request \<Rightarrow> state_map \<Rightarrow> (string, variant_capacity) gomap \<Rightarrow> string \<Rightarrow>
    string \<times> int \<Rightarrow> variant_decision" where
  "build_decision req stateMap vcMap optimizerName = (\<lambda>(name, target).
     let state = mget zero_state stateMap name; vc = mget zero_capacity vcMap name;
         current = st_CurrentReplicas state;
         (action, detailed) =
           (if target > current then (ActionScaleUp, optimizer_reason optimizerName)
            else if target < current then (ActionScaleDown, optimizer_reason optimizerName)
            else (ActionNoChange, DecisionReasonV2));
         d = SetDecisionReason action DecisionReasonV2 detailed
           (zero_decision\<lparr>d_VariantName := name, d_ModelID := mr_ModelID req, d_Namespace := mr_Namespace req,
              d_AcceleratorName := vc_AcceleratorName vc, d_Cost := vc_Cost vc, d_Role := st_Role state,
              d_CurrentReplicas := current, d_TargetReplicas := target, d_MinReplicas := st_MinReplicas state,
              d_MaxReplicas := st_MaxReplicas state\<rparr>);
         d' = d\<lparr>d_Utilization := vc_Utilization vc\<rparr>
     in case bindingAnchor (mr_AnalyzerResults req) of
          None \<Rightarrow> d'
        | Some anchor \<Rightarrow>
            (let (reqCap, spareCap) = role_signal anchor (canon_role (st_Role state)) in
             d'\<lparr>d_RequiredCapacity := reqCap, d_SpareCapacity := spareCap\<rparr>))"

definition buildDecisionsWithOptimizer :: "model_request \<Rightarrow> state_map \<Rightarrow> (string, variant_capacity) gomap \<Rightarrow>
    (string, int) gomap \<Rightarrow> string \<Rightarrow> variant_decision list" where
  "buildDecisionsWithOptimizer req stateMap vcMap targets optimizerName =
     map (build_decision req stateMap vcMap optimizerName) targets"

section \<open>The optimizer\<close>

text \<open>The working state an optimizer starts a model with.\<close>

definition start_state :: "model_request \<Rightarrow> (string, int) gomap option \<Rightarrow> alloc_state" where
  "start_state req available =
     (let (roles, ps, s) = initRoleState (votingResults (mr_AnalyzerResults req)) in
      \<lparr>as_ballot = s, as_available = available, as_targets = initTargets (mr_VariantStates req), as_demand = ps\<rparr>)"

definition request_roles :: "model_request \<Rightarrow> string list" where
  "request_roles req = fst (initRoleState (votingResults (mr_AnalyzerResults req)))"

definition scale_down_targets :: "model_request \<Rightarrow> analyzer_result \<Rightarrow> (string, int) gomap" where
  "scale_down_targets req anchor =
     fst (scaleDownRoleIterated (as_ballot (start_state req None)) (ar_VariantCapacities anchor)
       (initTargets (mr_VariantStates req)) (Some (buildStateMap (mr_VariantStates req))))"

definition cost_aware_targets :: "model_request \<Rightarrow> analyzer_result \<Rightarrow> (string, int) gomap" where
  "cost_aware_targets req anchor =
     (let st = start_state req None; roles = request_roles req in
      if anyRoleNeedsScaleUp (as_demand st) roles
      then as_targets (allocateForModelPaired costGreedyRolePick (ar_VariantCapacities anchor)
             (buildStateMap (mr_VariantStates req)) roles st)
      else scale_down_targets req anchor)"

definition cost_aware_model :: "model_request \<Rightarrow> variant_decision list" where
  "cost_aware_model req = (case bindingAnchor (mr_AnalyzerResults req) of
     None \<Rightarrow> []
   | Some anchor \<Rightarrow> buildDecisionsWithOptimizer req (buildStateMap (mr_VariantStates req))
       (buildCapacityMap (ar_VariantCapacities anchor)) (cost_aware_targets req anchor) ''cost-aware'')"

definition CostAware_Optimize :: "model_request list \<Rightarrow> variant_decision list" where
  "CostAware_Optimize requests = concat (map cost_aware_model requests)"

section \<open>The cost picker keeps the contract\<close>

lemma first_with_headroom_facts:
  "first_with_headroom sm tg vcs = (v, c) \<Longrightarrow> v \<noteq> [] \<Longrightarrow>
     (\<exists>vc\<in>set vcs. vc_VariantName vc = v \<and> 0 < vc_PerReplicaCapacity vc) \<and> 0 < c \<and>
     within_limit sm v (mget 0 tg v + c)"
  by (induction vcs)
    (auto simp: Let_def within_limit_def replica_limit_def MaxInt_def split: if_splits option.splits)

interpretation cost_pick: role_picker costGreedyRolePick
proof
  fix role s vcs sm av tg v c
  assume p: "costGreedyRolePick role s vcs sm av tg = (v, c)" and v: "v \<noteq> []"
  from first_with_headroom_facts [OF p [unfolded costGreedyRolePick_def] v]
  show "\<exists>vc\<in>set vcs. vc_VariantName vc = v \<and> canon_role (vc_Role vc) = role \<and> 0 < vc_PerReplicaCapacity vc"
    and "0 < c" and "within_limit sm v (mget 0 tg v + c)"
    by (auto simp: sortByCostEfficiencyAsc_def variantsForRole_def)
qed

section \<open>Cheapest capacity first\<close>

lemma strict_weak_key: "strict_weak (\<lambda>a b. f a < (f b :: 'b :: linorder))"
  by (auto simp: strict_weak_def)

text \<open>A variant that could take one more replica.\<close>

definition has_headroom :: "state_map \<Rightarrow> (string, int) gomap \<Rightarrow> variant_capacity \<Rightarrow> bool" where
  "has_headroom sm tg vc \<longleftrightarrow> 0 < vc_PerReplicaCapacity vc \<and>
     within_limit sm (vc_VariantName vc) (mget 0 tg (vc_VariantName vc) + 1)"

lemma first_with_headroom_find:
  "first_with_headroom sm tg vcs = (case find (has_headroom sm tg) vcs of
     None \<Rightarrow> ([], 0)
   | Some vc \<Rightarrow> (vc_VariantName vc, case replica_limit sm (vc_VariantName vc) of
       None \<Rightarrow> MaxInt | Some m \<Rightarrow> m - mget 0 tg (vc_VariantName vc)))"
  by (induction vcs)
    (auto simp: has_headroom_def within_limit_def replica_limit_def Let_def split: if_splits option.splits)

lemma find_least_by_key:
  assumes "sorted_wrt (\<lambda>a b. \<not> f b < (f a :: 'b :: linorder)) xs" and "find P xs = Some x" and "y \<in> set xs" and "P y"
  shows "f x \<le> f y"
  using assms by (induction xs) (auto split: if_splits simp: not_less)

text \<open>The cost picker is optimal: it returns a variant of the role with room for a replica whose
  cost per unit of capacity is least among all such variants, and it returns none only when the role
  has no variant with room.\<close>

theorem cost_pick_is_cheapest:
  assumes "[] \<notin> set (names vcs)"
  shows "case costGreedyRolePick role s vcs sm av tg of (v, c) \<Rightarrow>
    if v = [] then \<not> (\<exists>vc\<in>set vcs. canon_role (vc_Role vc) = role \<and> has_headroom sm tg vc)
    else \<exists>vc\<in>set vcs. vc_VariantName vc = v \<and> canon_role (vc_Role vc) = role \<and> has_headroom sm tg vc \<and>
      (\<forall>w\<in>set vcs. canon_role (vc_Role w) = role \<and> has_headroom sm tg w \<longrightarrow> costEfficiency vc \<le> costEfficiency w)"
proof -
  let ?xs = "sortByCostEfficiencyAsc (variantsForRole vcs role)"
  have set: "set ?xs = {vc \<in> set vcs. canon_role (vc_Role vc) = role}"
    by (simp add: sortByCostEfficiencyAsc_def variantsForRole_def)
  have sorted: "sorted_wrt (\<lambda>a b. \<not> costEfficiency b < costEfficiency a) ?xs"
    unfolding sortByCostEfficiencyAsc_def by (rule sorted_go_sort) (rule strict_weak_key)
  show ?thesis
  proof (cases "find (has_headroom sm tg) ?xs")
    case None
    then have "costGreedyRolePick role s vcs sm av tg = ([], 0)"
      by (simp add: costGreedyRolePick_def first_with_headroom_find)
    then show ?thesis using None set by (auto simp: find_None_iff)
  next
    case (Some vc)
    then have vc: "vc \<in> set ?xs" "has_headroom sm tg vc" by (auto simp: find_Some_iff)
    then have "vc_VariantName vc \<noteq> []" using assms set by force
    then show ?thesis using Some vc set find_least_by_key [OF sorted Some]
      by (auto simp: costGreedyRolePick_def first_with_headroom_find)
  qed
qed

lemma cost_pick_is_cheapest_witness:
  "fst (costGreedyRolePick RoleBoth []
     [zero_capacity\<lparr>vc_VariantName := ''a'', vc_Cost := 10, vc_PerReplicaCapacity := 4\<rparr>,
      zero_capacity\<lparr>vc_VariantName := ''b'', vc_Cost := 30, vc_PerReplicaCapacity := 20\<rparr>] [] [] []) = ''b''"
  using cost_pick_is_cheapest [of "[zero_capacity\<lparr>vc_VariantName := ''a'', vc_Cost := 10, vc_PerReplicaCapacity := 4\<rparr>,
      zero_capacity\<lparr>vc_VariantName := ''b'', vc_Cost := 30, vc_PerReplicaCapacity := 20\<rparr>]" RoleBoth "[]" "[]" "[]" "[]"]
  by (simp add: zero_capacity_def canon_role_def RoleBoth_def has_headroom_def within_limit_def replica_limit_def
      zero_state_def costEfficiency_def split: prod.splits if_splits)

section \<open>Shedding keeps the floor and the spare\<close>

lemma removal_count_le:
  assumes "0 < removal_count states tg permitted before isLast vc"
  shows "removal_count states tg permitted before isLast vc \<le> permitted"
    and "removal_count states tg permitted before isLast vc
      \<le> mget 0 tg (vc_VariantName vc) - floor_replicas states (vc_VariantName vc)"
  using assms by (auto simp: removal_count_def Let_def split: if_splits)

text \<open>A property every removal keeps holds after the variants were shed.\<close>

lemma scale_down_from_invariant:
  assumes "I tg s"
    and "\<And>tg s vc n before isLast. I tg s \<Longrightarrow> vc \<in> set vcs \<Longrightarrow> 0 < n \<Longrightarrow>
      n = removal_count states tg (mr s vc) before isLast vc \<Longrightarrow>
      I (mput (vc_VariantName vc) (mget 0 tg (vc_VariantName vc) - n) tg) (f vc n s)"
  shows "case scale_down_from states mr f before vcs (tg, s) of (tg', s') \<Rightarrow> I tg' s'"
  using assms
proof (induction vcs arbitrary: before tg s)
  case (Cons vc rest)
  define n where "n = removal_count states tg (mr s vc) before (rest = []) vc"
  show ?case
  proof (cases "0 < n")
    case True
    have "I (mput (vc_VariantName vc) (mget 0 tg (vc_VariantName vc) - n) tg) (f vc n s)"
      by (rule Cons.prems(2) [OF Cons.prems(1) _ True n_def]) simp
    moreover have "I (mput (vc_VariantName vc) (mget 0 tg (vc_VariantName vc) - n) tg) (f vc n s)"
      if "I tg s" "vc \<in> set rest" "0 < n" "n = removal_count states tg (mr s vc) before isLast vc"
      for tg s vc n before isLast using Cons.prems(2) that by simp
    ultimately show ?thesis
      using Cons.IH [of "mput (vc_VariantName vc) (mget 0 tg (vc_VariantName vc) - n) tg" "f vc n s" "before @ [vc]"]
        True by (simp add: Let_def n_def [symmetric])
  next
    case False
    have "I (mput (vc_VariantName vc) (mget 0 tg (vc_VariantName vc) - n) tg) (f vc n s)"
      if "I tg s" "vc \<in> set rest" "0 < n" "n = removal_count states tg (mr s vc) before isLast vc"
      for tg s vc n before isLast using Cons.prems(2) that by simp
    then show ?thesis using Cons.IH [of tg s "before @ [vc]"] Cons.prems(1) False by (simp add: Let_def n_def [symmetric])
  qed
qed simp

lemma scale_down_role_invariant:
  assumes "I tg s"
    and "\<And>tg s vc n. I tg s \<Longrightarrow> vc \<in> set vcs \<Longrightarrow> canon_role (vc_Role vc) = role \<Longrightarrow> 0 < n \<Longrightarrow>
      n \<le> safeRemovalReplicasForRole s (vc_VariantName vc) role \<Longrightarrow>
      n \<le> mget 0 tg (vc_VariantName vc) - floor_replicas states (vc_VariantName vc) \<Longrightarrow>
      I (mput (vc_VariantName vc) (mget 0 tg (vc_VariantName vc) - n) tg) (applyDeallocationForRole (vc_VariantName vc) role n s)"
  shows "case scale_down_role vcs states role (tg, s) of (tg', s') \<Rightarrow> I tg' s'"
proof -
  have "case scale_down_from states (\<lambda>s vc. safeRemovalReplicasForRole s (vc_VariantName vc) role)
     (\<lambda>vc n s. applyDeallocationForRole (vc_VariantName vc) role n s) []
     (sortVariantsForScaleDown s (variantsForRole vcs role)) (tg, s) of (tg', s') \<Rightarrow> I tg' s'"
  proof (rule scale_down_from_invariant [where I = I, OF assms(1)])
    fix tg t vc n before isLast
    assume I: "I tg t" and vc: "vc \<in> set (sortVariantsForScaleDown s (variantsForRole vcs role))" and n: "0 < n"
      and eq: "n = removal_count states tg (safeRemovalReplicasForRole t (vc_VariantName vc) role) before isLast vc"
    show "I (mput (vc_VariantName vc) (mget 0 tg (vc_VariantName vc) - n) tg)
        (applyDeallocationForRole (vc_VariantName vc) role n t)"
      by (rule assms(2) [OF I])
        (use vc n removal_count_le [where states = states and tg = tg and before = before and isLast = isLast and vc = vc]
          in \<open>auto simp: sortVariantsForScaleDown_def variantsForRole_def eq\<close>)
  qed
  then show ?thesis using assms(1) by (simp add: scale_down_role_def scaleDownVariantSet_def Let_def)
qed

lemma scale_down_invariant:
  assumes "I tg s"
    and "\<And>tg s vc n role. I tg s \<Longrightarrow> vc \<in> set vcs \<Longrightarrow> canon_role (vc_Role vc) = role \<Longrightarrow> 0 < n \<Longrightarrow>
      n \<le> safeRemovalReplicasForRole s (vc_VariantName vc) role \<Longrightarrow>
      n \<le> mget 0 tg (vc_VariantName vc) - floor_replicas states (vc_VariantName vc) \<Longrightarrow>
      I (mput (vc_VariantName vc) (mget 0 tg (vc_VariantName vc) - n) tg) (applyDeallocationForRole (vc_VariantName vc) role n s)"
  shows "case scaleDownRoleIterated s vcs tg states of (tg', s') \<Rightarrow> I tg' s'"
proof -
  have "case fold (scale_down_role vcs states) roles (tg, s) of (tg', s') \<Rightarrow> I tg' s'" for roles
    using assms(1)
  proof (induction roles arbitrary: tg s)
    case (Cons role roles)
    obtain tg' s' where r: "scale_down_role vcs states role (tg, s) = (tg', s')" by (metis prod.exhaust)
    have "case scale_down_role vcs states role (tg, s) of (tg', s') \<Rightarrow> I tg' s'"
      by (rule scale_down_role_invariant [where I = I]) (use Cons.prems assms(2) in auto)
    then show ?case using Cons.IH [of tg' s'] r by simp
  qed simp
  then show ?thesis by (simp add: scaleDownRoleIterated_def)
qed

section \<open>Targets stay within the bounds of the variant\<close>

lemma initTargets_state:
  "mget 0 (initTargets ss) v = st_CurrentReplicas (mget zero_state (buildStateMap ss) v)"
proof -
  have "mget 0 (fold (\<lambda>s. mput (st_VariantName s) (st_CurrentReplicas s)) ss a) v =
      st_CurrentReplicas (mget zero_state (fold (\<lambda>s. mput (st_VariantName s) s) ss b) v)"
    if "mget 0 a v = st_CurrentReplicas (mget zero_state b v)" for a b
    using that by (induction ss arbitrary: a b) auto
  then show ?thesis by (simp add: initTargets_def buildStateMap_def zero_state_def)
qed

lemma wf_fold_mput: "wf_map m \<Longrightarrow> wf_map (fold (\<lambda>s. mput (f s) (g s)) ss m)"
  by (induction ss arbitrary: m) auto

lemma wf_initTargets: "wf_map (initTargets ss)"
  unfolding initTargets_def by (rule wf_fold_mput) simp

lemma commit_fold_wf: "wf_map (as_targets st) \<Longrightarrow> wf_map (as_targets (fold (commit_role vcs sm) cs st))"
proof (induction cs arbitrary: st)
  case (Cons c cs)
  then show ?case by (auto simp: commit_role_def split: prod.split)
qed simp

lemma loop_wf: "wf_map (as_targets st) \<Longrightarrow> wf_map (as_targets (allocateForModelPaired pick vcs sm roles st))"
  by (rule paired_invariant) (auto elim!: paired_step_parts simp: commit_fold_wf)

lemma start_state_simps [simp]:
  "as_targets (start_state req av) = initTargets (mr_VariantStates req)"
  "as_available (start_state req av) = av"
  "as_ballot (start_state req av) = map role_spare (votingResults (mr_AnalyzerResults req))"
  "as_demand (start_state req av) = map role_demand (votingResults (mr_AnalyzerResults req))"
  by (simp_all add: start_state_def initRoleState_def Let_def)

lemma distinct_request_roles [simp]: "distinct (request_roles req)"
  by (simp add: request_roles_def initRoleState_def Let_def)

lemma buildCapacityMap_distinct:
  assumes "distinct (names vcs)" and "vc \<in> set vcs"
  shows "map_of (buildCapacityMap vcs) (vc_VariantName vc) = Some vc"
proof -
  have "map_of (fold (\<lambda>vc. mput (vc_VariantName vc) vc) vcs m) v =
      (if v \<in> set (names vcs) then find (\<lambda>vc. vc_VariantName vc = v) vcs else map_of m v)"
    if "distinct (names vcs)" for vcs m v
    using that by (induction vcs arbitrary: m) (auto simp: update_conv' find_None_iff)
  then show ?thesis using assms by (simp add: buildCapacityMap_def find_distinct_key)
qed

lemma scale_down_wf:
  "wf_map tg \<Longrightarrow> wf_map (fst (scaleDownRoleIterated s vcs tg states))"
  using scale_down_invariant [of "\<lambda>tg s. wf_map tg" tg s vcs states] by (auto simp: case_prod_unfold)

lemma scale_down_bounds:
  "case scaleDownRoleIterated s vcs tg states of (tg', s') \<Rightarrow>
     mget 0 tg' v \<le> mget 0 tg v \<and> (mget 0 tg' v = mget 0 tg v \<or> floor_replicas states v \<le> mget 0 tg' v)"
  by (rule scale_down_invariant [where I = "\<lambda>tg' s'. mget 0 tg' v \<le> mget 0 tg v \<and>
      (mget 0 tg' v = mget 0 tg v \<or> floor_replicas states v \<le> mget 0 tg' v)"]) auto

lemma cost_aware_targets_wf: "wf_map (cost_aware_targets req anchor)"
  by (simp add: cost_aware_targets_def scale_down_targets_def Let_def loop_wf scale_down_wf wf_initTargets)

lemma cost_aware_targets_bounds:
  assumes "distinct (names (ar_VariantCapacities anchor))"
  shows "let t = mget 0 (cost_aware_targets req anchor) v; t0 = mget 0 (initTargets (mr_VariantStates req)) v;
      sm = buildStateMap (mr_VariantStates req) in
    (t0 < t \<longrightarrow> within_limit sm v t) \<and> (t < t0 \<longrightarrow> floor_replicas (Some sm) v \<le> t)"
proof -
  let ?sm = "buildStateMap (mr_VariantStates req)"
  let ?loop = "allocateForModelPaired costGreedyRolePick (ar_VariantCapacities anchor) ?sm (request_roles req) (start_state req None)"
  have up: "mget 0 (initTargets (mr_VariantStates req)) v \<le> mget 0 (as_targets ?loop) v \<and>
    (mget 0 (as_targets ?loop) v = mget 0 (initTargets (mr_VariantStates req)) v \<or> within_limit ?sm v (mget 0 (as_targets ?loop) v))"
    using cost_pick.loop_targets [OF distinct_request_roles assms, where st = "start_state req None" and sm = ?sm and v = v] by simp
  have down: "mget 0 (scale_down_targets req anchor) v \<le> mget 0 (initTargets (mr_VariantStates req)) v \<and>
    (mget 0 (scale_down_targets req anchor) v = mget 0 (initTargets (mr_VariantStates req)) v \<or>
     floor_replicas (Some ?sm) v \<le> mget 0 (scale_down_targets req anchor) v)"
    using scale_down_bounds [where v = v and tg = "initTargets (mr_VariantStates req)"] by (simp add: scale_down_targets_def case_prod_unfold)
  show ?thesis using up down by (auto simp: cost_aware_targets_def Let_def)
qed

text \<open>The bounds of a variant, as its decision carries them.\<close>

definition decision_in_bounds :: "variant_decision \<Rightarrow> bool" where
  "decision_in_bounds d \<longleftrightarrow>
     (d_CurrentReplicas d < d_TargetReplicas d \<longrightarrow>
        (case d_MaxReplicas d of Some m \<Rightarrow> 0 < m \<longrightarrow> d_TargetReplicas d \<le> m | None \<Rightarrow> True)) \<and>
     (d_TargetReplicas d < d_CurrentReplicas d \<longrightarrow>
        (case d_MinReplicas d of Some k \<Rightarrow> k \<le> d_TargetReplicas d | None \<Rightarrow> 0 \<le> d_TargetReplicas d))"

lemma build_decision_simps [simp]:
  "d_VariantName (build_decision req sm cm opt p) = fst p"
  "d_TargetReplicas (build_decision req sm cm opt p) = snd p"
  "d_CurrentReplicas (build_decision req sm cm opt p) = st_CurrentReplicas (mget zero_state sm (fst p))"
  "d_MaxReplicas (build_decision req sm cm opt p) = st_MaxReplicas (mget zero_state sm (fst p))"
  "d_MinReplicas (build_decision req sm cm opt p) = st_MinReplicas (mget zero_state sm (fst p))"
  "d_ModelID (build_decision req sm cm opt p) = mr_ModelID req"
  "d_Namespace (build_decision req sm cm opt p) = mr_Namespace req"
  by (cases p; auto simp: build_decision_def SetDecisionReason_def Let_def split: prod.splits option.splits)+

lemma floor_replicas_state:
  "floor_replicas (Some sm) v = (case st_MinReplicas (mget zero_state sm v) of Some k \<Rightarrow> k | None \<Rightarrow> 0)"
  by (auto simp: floor_replicas_def mget_def zero_state_def split: option.splits)

lemma within_limit_state:
  "within_limit sm v n = (case st_MaxReplicas (mget zero_state sm v) of Some m \<Rightarrow> 0 < m \<longrightarrow> n \<le> m | None \<Rightarrow> True)"
  by (auto simp: within_limit_def replica_limit_def split: option.splits)

definition anchor_distinct :: "model_request \<Rightarrow> bool" where
  "anchor_distinct req = (case bindingAnchor (mr_AnalyzerResults req) of
     None \<Rightarrow> True | Some a \<Rightarrow> distinct (names (ar_VariantCapacities a)))"

lemma cost_aware_model_decision:
  assumes "anchor_distinct req" and "d \<in> set (cost_aware_model req)"
  obtains cm p where "d = build_decision req (buildStateMap (mr_VariantStates req)) cm ''cost-aware'' p" "decision_in_bounds d"
proof -
  from assms(2) obtain anchor where anchor: "bindingAnchor (mr_AnalyzerResults req) = Some anchor"
    by (cases "bindingAnchor (mr_AnalyzerResults req)") (auto simp: cost_aware_model_def)
  with assms(2) obtain p where p: "p \<in> set (cost_aware_targets req anchor)"
    and d: "d = build_decision req (buildStateMap (mr_VariantStates req))
      (buildCapacityMap (ar_VariantCapacities anchor)) ''cost-aware'' p"
    by (auto simp: cost_aware_model_def buildDecisionsWithOptimizer_def)
  have t: "mget 0 (cost_aware_targets req anchor) (fst p) = snd p"
    using mget_in [OF cost_aware_targets_wf] p by (cases p) auto
  have "distinct (names (ar_VariantCapacities anchor))" using assms(1) anchor by (auto simp: anchor_distinct_def)
  from cost_aware_targets_bounds [OF this, where req = req and v = "fst p"] have "decision_in_bounds d"
    by (auto simp: decision_in_bounds_def d t Let_def initTargets_state floor_replicas_state within_limit_state
        split: option.splits)
  then show thesis using d that by blast
qed

text \<open>Every decision of the cost-aware optimizer respects the bounds of its variant: a target above
  the current count stays within \<open>MaxReplicas\<close>, one below it stays at or above
  \<open>MinReplicas\<close>, for models whose variants have distinct names.\<close>

theorem cost_aware_decisions_in_bounds:
  assumes "\<forall>req\<in>set requests. anchor_distinct req"
  shows "\<forall>d\<in>set (CostAware_Optimize requests). decision_in_bounds d"
proof
  fix d assume "d \<in> set (CostAware_Optimize requests)"
  then obtain req where "req \<in> set requests" "d \<in> set (cost_aware_model req)" by (auto simp: CostAware_Optimize_def)
  then show "decision_in_bounds d" using assms by (blast elim: cost_aware_model_decision)
qed

text \<open>A model with two variants on one saturation analyzer that asks for more.\<close>

definition example_result :: "gofloat \<Rightarrow> gofloat \<Rightarrow> analyzer_result" where
  "example_result required spare = \<lparr>ar_AnalyzerName = SaturationAnalyzerName, ar_ModelID = ''m'', ar_Namespace = ''ns'',
     ar_VariantCapacities =
       [zero_capacity\<lparr>vc_VariantName := ''a'', vc_AcceleratorName := ''A100'', vc_Cost := 10, vc_PerReplicaCapacity := 4, vc_ReplicaCount := 2\<rparr>,
        zero_capacity\<lparr>vc_VariantName := ''b'', vc_AcceleratorName := ''A100'', vc_Cost := 30, vc_PerReplicaCapacity := 20, vc_ReplicaCount := 1\<rparr>],
     ar_TotalSupply = 28, ar_TotalDemand = 30, ar_Utilization = 1, ar_TotalAnticipatedSupply = 28,
     ar_RequiredCapacity = required, ar_SpareCapacity = spare, ar_RoleCapacities = None\<rparr>"

definition example_vote :: "gofloat \<Rightarrow> gofloat \<Rightarrow> named_result" where
  "example_vote required spare = \<lparr>nr_Name = SaturationAnalyzerName, nr_Result = Some (example_result required spare),
     nr_Score = 1, nr_Remaining = required, nr_Spare = spare, nr_RoleSpare = None, nr_ScaleUpThreshold = 4 / 5,
     nr_ScaleDownBoundary = 1 / 2, nr_Live = True, nr_Enabled = True\<rparr>"

definition example_request :: "gofloat \<Rightarrow> gofloat \<Rightarrow> model_request" where
  "example_request required spare = \<lparr>mr_ModelID = ''m'', mr_Namespace = ''ns'',
     mr_AnalyzerResults = [example_vote required spare],
     mr_VariantStates = [zero_state\<lparr>st_VariantName := ''a'', st_CurrentReplicas := 2\<rparr>,
       zero_state\<lparr>st_VariantName := ''b'', st_CurrentReplicas := 1\<rparr>],
     mr_Priority = 1, mr_Disaggregated = False\<rparr>"

lemmas example_defs = example_request_def example_vote_def example_result_def

lemma example_informative [simp]: "ResultIsInformative (example_vote required spare)"
  by (simp add: ResultIsInformative_def example_defs zero_capacity_def ReasonNoData_def ReasonError_def)

lemma example_anchor [simp]:
  "bindingAnchor (mr_AnalyzerResults (example_request required spare)) =
     Some (example_result required spare\<lparr>ar_VariantCapacities :=
       map (\<lambda>vc. vc\<lparr>vc_TotalCapacity := of_int (vc_ReplicaCount vc) * vc_PerReplicaCapacity vc\<rparr>)
         (ar_VariantCapacities (example_result required spare))\<rparr>)"
  by (simp add: bindingAnchor_def select_binding_def find_saturation_def usable_def merge_variant_def Let_def
      buildCapacityMap_def example_request_def example_informative [unfolded example_vote_def] example_vote_def)
    (simp add: example_result_def zero_capacity_def merge_variant_def buildCapacityMap_def Let_def)

lemma cost_aware_decisions_in_bounds_witness:
  "anchor_distinct (example_request 30 0) \<and> list_all decision_in_bounds (CostAware_Optimize [example_request 30 0])"
proof -
  have "anchor_distinct (example_request 30 0)"
    by (simp add: anchor_distinct_def) (simp add: example_result_def zero_capacity_def)
  then show ?thesis using cost_aware_decisions_in_bounds [of "[example_request 30 0]"] by (simp add: list_all_iff)
qed

section \<open>Scaling up covers the demand\<close>

lemma bottleneck_pos:
  assumes "i < length s" and "length state = length s" and "nr_Result (s ! i) = Some r"
    and "0 < prcForVariant r v" and "0 < mget 0 (state ! i) role"
  shows "0 < roleBottleneckReplicas s state role v"
proof -
  define f :: "named_result \<times> (string, gofloat) gomap \<Rightarrow> int \<Rightarrow> int" where "f = (\<lambda>(e, m) mx. case nr_Result e of
       None \<Rightarrow> mx
     | Some r \<Rightarrow> (let prc = prcForVariant r v in
         if prc \<le> 0 then mx
         else (let n = \<lceil>mget 0 m role / prc\<rceil> in if n > mx then n else mx)))"
  have mono: "a \<le> fold f xs a" for xs a
  proof (induction xs arbitrary: a)
    case (Cons x xs)
    have "a \<le> f x a" by (cases x) (auto simp: f_def Let_def split: option.split)
    also have "\<dots> \<le> fold f xs (f x a)" by (rule Cons.IH)
    finally show ?case by simp
  qed simp
  have "0 < \<lceil>mget 0 (state ! i) role / prcForVariant r v\<rceil>" using assms by simp
  then have hit: "0 < f (s ! i, state ! i) a" for a
    using assms by (auto simp: f_def Let_def simp del: zero_less_ceiling)
  have "(s ! i, state ! i) \<in> set (zip s state)" using assms by (metis in_set_zip fst_conv snd_conv)
  then obtain xs ys where z: "zip s state = xs @ (s ! i, state ! i) # ys" by (meson split_list)
  have "0 < f (s ! i, state ! i) (fold f xs 0)" by (rule hit)
  also have "\<dots> \<le> fold f ys (f (s ! i, state ! i) (fold f xs 0))" by (rule mono)
  finally show ?thesis by (simp add: roleBottleneckReplicas_def f_def [symmetric] z)
qed

lemma applyAllocation_results [simp]: "map nr_Result (applyAllocation v n s) = map nr_Result s"
  by (auto simp: applyAllocation_def Let_def split: option.split)

lemma loop_results:
  "map nr_Result (as_ballot (allocateForModelPaired pick vcs sm roles st)) = map nr_Result (as_ballot st)"
  by (rule paired_invariant) (auto elim!: paired_step_parts split: option.splits)

lemma role_spare_result [simp]: "nr_Result (role_spare e) = nr_Result e"
  by (auto simp: role_spare_def Let_def split: option.split)

lemma loop_length:
  "length (as_demand (allocateForModelPaired pick vcs sm roles st)) = length (as_demand st)"
  by (rule paired_invariant) (simp_all add: paired_step_length)

text \<open>
  A request the cost-aware optimizer can satisfy: every voting analyzer sizes every variant the anchor
  sizes, and each role it asks for has a sized variant without a replica limit.
\<close>

definition satisfiable :: "model_request \<Rightarrow> analyzer_result \<Rightarrow> bool" where
  "satisfiable req anchor \<longleftrightarrow>
     distinct (names (ar_VariantCapacities anchor)) \<and> [] \<notin> set (names (ar_VariantCapacities anchor)) \<and>
     list_all (\<lambda>e. case nr_Result e of None \<Rightarrow> False
       | Some r \<Rightarrow> list_all (\<lambda>vc. 0 < vc_PerReplicaCapacity vc \<longrightarrow> 0 < prcForVariant r (vc_VariantName vc))
           (ar_VariantCapacities anchor)) (votingResults (mr_AnalyzerResults req)) \<and>
     list_all (\<lambda>role. list_ex (\<lambda>vc. canon_role (vc_Role vc) = role \<and> 0 < vc_PerReplicaCapacity vc \<and>
         replica_limit (buildStateMap (mr_VariantStates req)) (vc_VariantName vc) = None) (ar_VariantCapacities anchor))
       (request_roles req)"

lemma cost_pick_nonempty:
  assumes "vc \<in> set vcs" and "canon_role (vc_Role vc) = role" and "0 < vc_PerReplicaCapacity vc"
    and "replica_limit sm (vc_VariantName vc) = None" and "[] \<notin> set (names vcs)"
  shows "fst (costGreedyRolePick role s vcs sm av tg) \<noteq> []"
proof -
  let ?xs = "sortByCostEfficiencyAsc (variantsForRole vcs role)"
  have xs: "set ?xs = {vc \<in> set vcs. canon_role (vc_Role vc) = role}"
    by (simp add: sortByCostEfficiencyAsc_def variantsForRole_def)
  moreover have "has_headroom sm tg vc" using assms by (simp add: has_headroom_def within_limit_def)
  ultimately obtain w where w: "find (has_headroom sm tg) ?xs = Some w" using assms(1,2)
    by (cases "find (has_headroom sm tg) ?xs") (auto simp: find_None_iff)
  then have "w \<in> set vcs" using xs by (auto simp: find_Some_iff) (metis (mono_tags, lifting) mem_Collect_eq nth_mem)
  then show ?thesis using w assms(5) by (force simp: costGreedyRolePick_def first_with_headroom_find)
qed

lemma cost_aware_no_demand_left:
  assumes "satisfiable req anchor"
  shows "\<not> anyRoleNeedsScaleUp (as_demand (allocateForModelPaired costGreedyRolePick (ar_VariantCapacities anchor)
    (buildStateMap (mr_VariantStates req)) (request_roles req) (start_state req None))) (request_roles req)"
proof
  let ?vcs = "ar_VariantCapacities anchor" and ?sm = "buildStateMap (mr_VariantStates req)"
  let ?st = "start_state req None"
  define st where "st = allocateForModelPaired costGreedyRolePick ?vcs ?sm (request_roles req) ?st"
  assume left: "anyRoleNeedsScaleUp (as_demand (allocateForModelPaired costGreedyRolePick ?vcs ?sm (request_roles req) ?st))
    (request_roles req)"
  have d: "distinct (names ?vcs)" "[] \<notin> set (names ?vcs)" using assms by (simp_all add: satisfiable_def)
  obtain r where r: "r \<in> set (request_roles req)" and why: "let v = fst (costGreedyRolePick r (as_ballot st) ?vcs ?sm
      (budget_map st) (as_targets st)) in v = [] \<or> 0 < top_demand (as_demand st) r \<and>
      roleBottleneckReplicas (as_ballot st) (as_demand st) r v \<le> 0"
    using cost_pick.loop_exit [OF _ d(1) left] by (auto simp: st_def)
  obtain v c where v: "costGreedyRolePick r (as_ballot st) ?vcs ?sm (budget_map st) (as_targets st) = (v, c)"
    by (metis prod.exhaust)
  obtain w where "w \<in> set ?vcs" "canon_role (vc_Role w) = r" "0 < vc_PerReplicaCapacity w"
    "replica_limit ?sm (vc_VariantName w) = None"
    using assms r by (auto simp: satisfiable_def list_all_iff list_ex_iff)
  from cost_pick_nonempty [OF this d(2)] have "v \<noteq> []" using v by (metis fst_conv)
  with why have dem: "0 < top_demand (as_demand st) r" and none: "roleBottleneckReplicas (as_ballot st) (as_demand st) r v \<le> 0"
    by (simp_all add: v Let_def)
  obtain vc where vc: "vc \<in> set ?vcs" "vc_VariantName vc = v" "0 < vc_PerReplicaCapacity vc"
    using cost_pick.pick_variant [OF v \<open>v \<noteq> []\<close>] by blast
  have len: "length (as_demand st) = length (votingResults (mr_AnalyzerResults req))"
    "length (as_ballot st) = length (votingResults (mr_AnalyzerResults req))"
    using arg_cong [OF loop_results, of length] by (simp_all add: st_def loop_length)
  obtain i where i: "i < length (as_demand st)" "0 < mget 0 (as_demand st ! i) r"
    using dem by (auto simp: top_demand_pos_iff in_set_conv_nth)
  let ?e = "votingResults (mr_AnalyzerResults req) ! i"
  have res: "map nr_Result (as_ballot st) = map nr_Result (votingResults (mr_AnalyzerResults req))"
    by (simp add: st_def loop_results comp_def)
  then have "nr_Result (as_ballot st ! i) = nr_Result ?e" using i(1) len by (metis nth_map)
  moreover have "?e \<in> set (votingResults (mr_AnalyzerResults req))" using i(1) len by simp
  then obtain res where "nr_Result ?e = Some res" "0 < prcForVariant res v"
    using assms vc by (auto simp: satisfiable_def list_all_iff split: option.splits)
  ultimately have "0 < roleBottleneckReplicas (as_ballot st) (as_demand st) r v"
    using bottleneck_pos [where i = i] i len by simp
  then show False using none by simp
qed

lemma scale_up_served:
  assumes "satisfiable req anchor" and "anyRoleNeedsScaleUp (as_demand (start_state req None)) (request_roles req)"
    and "e \<in> set (votingResults (mr_AnalyzerResults req))" and "role \<in> set (request_roles req)"
  shows "mget 0 (role_demand e) role \<le>
    capacity_on (ar_VariantCapacities anchor) (cost_aware_targets req anchor) role -
    capacity_on (ar_VariantCapacities anchor) (initTargets (mr_VariantStates req)) role"
proof -
  let ?vcs = "ar_VariantCapacities anchor" and ?sm = "buildStateMap (mr_VariantStates req)"
  let ?st = "start_state req None"
  let ?st' = "allocateForModelPaired costGreedyRolePick ?vcs ?sm (request_roles req) ?st"
  obtain i where i: "i < length (as_demand ?st)" "as_demand ?st ! i = role_demand e"
    using assms(3) by (auto simp: in_set_conv_nth)
  have d: "distinct (names ?vcs)" using assms(1) by (simp add: satisfiable_def)
  have served: "i < length (as_demand ?st') \<and> mget 0 (as_demand ?st ! i) role + capacity_on ?vcs (as_targets ?st) role
      \<le> mget 0 (as_demand ?st' ! i) role + capacity_on ?vcs (as_targets ?st') role"
    by (rule cost_pick.loop_served [OF distinct_request_roles d i(1)])
  then have "mget 0 (as_demand ?st' ! i) role \<le> 0"
    using cost_aware_no_demand_left [OF assms(1)] assms(4) nth_mem [of i "as_demand ?st'"]
    by (fastforce simp: anyRoleNeedsScaleUp_def list_ex_iff not_less)
  then show ?thesis using served i(2) assms(2) by (simp add: cost_aware_targets_def Let_def)
qed


lemma example_votes [simp]:
  "votingResults (mr_AnalyzerResults (example_request required spare)) = [example_vote required spare]"
  by (simp add: votingResults_def example_request_def) (simp add: example_vote_def)

lemma example_roles [simp]: "request_roles (example_request required spare) = [RoleBoth]"
  by (simp add: request_roles_def initRoleState_def)
    (simp add: role_demand_def example_vote_def example_result_def)

lemma example_satisfiable: "satisfiable (example_request required 0) (example_result required 0)"
  by (simp add: satisfiable_def)
    (simp add: example_defs zero_capacity_def zero_state_def prcForVariant_def canon_role_def replica_limit_def
      buildStateMap_def RoleBoth_def)


section \<open>Scaling down keeps what the analyzers need\<close>

text \<open>The capacity of a role as one analyzer measures it.\<close>

definition measured_capacity :: "analyzer_result \<Rightarrow> variant_capacity list \<Rightarrow> (string, int) gomap \<Rightarrow> string \<Rightarrow> gofloat" where
  "measured_capacity r vcs tg role = (\<Sum>vc\<leftarrow>vcs. if canon_role (vc_Role vc) = role
     then of_int (mget 0 tg (vc_VariantName vc)) * prcForVariant r (vc_VariantName vc) else 0)"

lemma measured_capacity_take:
  assumes "distinct (names vcs)" and "vc \<in> set vcs"
  shows "measured_capacity r vcs (mput (vc_VariantName vc) (mget 0 tg (vc_VariantName vc) - n) tg) role =
    measured_capacity r vcs tg role -
      (if canon_role (vc_Role vc) = role then of_int n * prcForVariant r (vc_VariantName vc) else 0)"
proof -
  have eq: "mput (vc_VariantName vc) (mget 0 tg (vc_VariantName vc) - n) tg = madd (vc_VariantName vc) (- n) tg"
    by (simp add: madd_def)
  show ?thesis unfolding measured_capacity_def eq by (subst sum_madd [OF assms, where k = "- n" and tg = tg]) simp
qed

lemma removal_bounds_mem:
  assumes "e \<in> set s" and "nr_Live e" and "nr_Result e = Some r" and "nr_RoleSpare e = Some m" and "0 < prcForVariant r v"
  shows "\<lfloor>mget 0 m role / prcForVariant r v\<rfloor> \<in> set (removal_bounds s v role)"
  using assms by (force simp: removal_bounds_def Let_def)

lemma fold_min_int_le: "n \<in> set ns \<Longrightarrow> fold (\<lambda>n sm. if n < sm then n else sm) ns a \<le> (n :: int)"
proof (induction ns arbitrary: a)
  case (Cons k ns)
  have le: "fold (\<lambda>n sm. if n < sm then n else sm) ns a \<le> a" for a :: int
  proof (induction ns arbitrary: a)
    case (Cons j ns)
    show ?case using Cons.IH [of "if j < a then j else a"] by (auto split: if_splits)
  qed simp
  show ?case using Cons le [of "if k < a then k else a"] by (auto split: if_splits)
qed simp

lemma safeRemoval_le:
  assumes "e \<in> set s" and "nr_Live e" and "nr_Result e = Some r" and "nr_RoleSpare e = Some m" and "0 < prcForVariant r v"
    and "0 < n" and "n \<le> safeRemovalReplicasForRole s v role"
  shows "of_int n * prcForVariant r v \<le> mget 0 m role"
proof -
  have "n \<le> \<lfloor>mget 0 m role / prcForVariant r v\<rfloor>"
    using assms(6,7) fold_min_int_le [OF removal_bounds_mem [OF assms(1-5), of role], of MaxInt]
    by (auto simp: safeRemovalReplicasForRole_def Let_def split: if_splits)
  then have "of_int n \<le> mget 0 m role / prcForVariant r v" by (simp add: le_floor_iff)
  then show ?thesis using assms(5) by (simp add: field_simps)
qed

text \<open>One removal, seen by a live analyzer.\<close>

definition keeps_spare :: "analyzer_result \<Rightarrow> variant_capacity list \<Rightarrow> string \<Rightarrow> nat \<Rightarrow> gofloat \<Rightarrow>
    (string, int) gomap \<Rightarrow> named_result list \<Rightarrow> bool" where
  "keeps_spare r vcs role i bound tg s \<longleftrightarrow> i < length s \<and> nr_Live (s ! i) \<and> nr_Result (s ! i) = Some r \<and>
     nr_RoleSpare (s ! i) \<noteq> None \<and> bound \<le> measured_capacity r vcs tg role - max 0 (spare_of (s ! i) role)"

lemma keeps_spare_step:
  assumes d: "distinct (names vcs)" and K: "keeps_spare r vcs role i bound tg s" and vc: "vc \<in> set vcs"
    and vr: "canon_role (vc_Role vc) = role'" and n: "0 < n"
    and safe: "n \<le> safeRemovalReplicasForRole s (vc_VariantName vc) role'"
  shows "keeps_spare r vcs role i bound (mput (vc_VariantName vc) (mget 0 tg (vc_VariantName vc) - n) tg)
    (applyDeallocationForRole (vc_VariantName vc) role' n s)"
proof -
  let ?v = "vc_VariantName vc"
  obtain m where i: "i < length s" "nr_Live (s ! i)" "nr_Result (s ! i) = Some r" "nr_RoleSpare (s ! i) = Some m"
    and b: "bound \<le> measured_capacity r vcs tg role - max 0 (spare_of (s ! i) role)"
    using K by (auto simp: keeps_spare_def)
  have e: "applyDeallocationForRole ?v role' n s ! i = dealloc_one ?v role' n (s ! i)"
    using i(1) by (simp add: applyDeallocationForRole_def)
  have "max 0 (spare_of (dealloc_one ?v role' n (s ! i)) role)
      \<le> max 0 (spare_of (s ! i) role) - (if role' = role then of_int n * prcForVariant r ?v else 0)"
  proof (cases "0 < prcForVariant r ?v")
    case True
    then have "of_int n * prcForVariant r ?v \<le> mget 0 m role'"
      using safeRemoval_le [OF _ i(2,3,4) True n safe] i(1) by simp
    then show ?thesis using True i n by (auto simp: dealloc_one_def spare_of_def Let_def)
  next
    case False
    then have "of_int n * prcForVariant r ?v \<le> 0" using n by (simp add: mult_nonneg_nonpos)
    then show ?thesis using False i by (auto simp: dealloc_one_def spare_of_def Let_def)
  qed
  moreover have "nr_Live (dealloc_one ?v role' n (s ! i))" "nr_Result (dealloc_one ?v role' n (s ! i)) = Some r"
    "nr_RoleSpare (dealloc_one ?v role' n (s ! i)) \<noteq> None" using i by (auto simp: dealloc_one_def Let_def)
  ultimately show ?thesis
    using b i(1) measured_capacity_take [OF d vc, of r tg n role] vr
    by (auto simp: keeps_spare_def e) (simp add: applyDeallocationForRole_def)+
qed

lemma role_spare_some:
  "nr_Result e \<noteq> None \<Longrightarrow> nr_RoleSpare (role_spare e) \<noteq> None" "nr_Live (role_spare e) = nr_Live e"
  by (auto simp: role_spare_def Let_def split: option.splits)

text \<open>C32. Scaling a model down never takes more than an analyzer can spare: for each role, the capacity
  removed, as any live voting analyzer measures it, is at most the spare capacity that analyzer
  reported for the role.\<close>

theorem scale_down_within_spare:
  assumes "distinct (names (ar_VariantCapacities anchor))" and "e \<in> set (votingResults (mr_AnalyzerResults req))"
    and "nr_Live e" and "nr_Result e = Some r"
  shows "measured_capacity r (ar_VariantCapacities anchor) (initTargets (mr_VariantStates req)) role -
    measured_capacity r (ar_VariantCapacities anchor) (scale_down_targets req anchor) role
    \<le> max 0 (spare_of (role_spare e) role)"
proof -
  let ?vcs = "ar_VariantCapacities anchor" and ?tg = "initTargets (mr_VariantStates req)"
  let ?s = "map role_spare (votingResults (mr_AnalyzerResults req))"
  let ?b = "measured_capacity r ?vcs ?tg role - max 0 (spare_of (role_spare e) role)"
  obtain i where i: "i < length ?s" "?s ! i = role_spare e" using assms(2) by (auto simp: in_set_conv_nth)
  have "keeps_spare r ?vcs role i ?b ?tg ?s"
    using i assms(3,4) role_spare_some by (auto simp: keeps_spare_def)
  then have "case scaleDownRoleIterated ?s ?vcs ?tg (Some (buildStateMap (mr_VariantStates req))) of
      (tg', s') \<Rightarrow> keeps_spare r ?vcs role i ?b tg' s'"
    by (rule scale_down_invariant) (rule keeps_spare_step [OF assms(1)])
  then show ?thesis by (auto simp: keeps_spare_def scale_down_targets_def split: prod.splits)
qed

lemma scale_down_within_spare_witness:
  "measured_capacity (example_result 0 9) (ar_VariantCapacities (example_result 0 9))
      (initTargets (mr_VariantStates (example_request 0 9))) RoleBoth -
   measured_capacity (example_result 0 9) (ar_VariantCapacities (example_result 0 9))
      (scale_down_targets (example_request 0 9) (example_result 0 9)) RoleBoth \<le> 9"
proof -
  have "distinct (names (ar_VariantCapacities (example_result 0 9)))" by (simp add: example_result_def zero_capacity_def)
  moreover have "nr_Live (example_vote 0 9)" "nr_Result (example_vote 0 9) = Some (example_result 0 9)"
    by (simp_all add: example_vote_def)
  moreover have "spare_of (role_spare (example_vote 0 9)) RoleBoth = 9"
    by (simp add: spare_of_def role_spare_def example_vote_def example_result_def)
  ultimately show ?thesis
    using scale_down_within_spare [of "example_result 0 9" "example_vote 0 9" "example_request 0 9" "example_result 0 9" RoleBoth]
    by simp
qed

section \<open>The cheapest variant of a role\<close>

lemma scale_down_from_last:
  "distinct (names (before @ xs @ [l])) \<Longrightarrow> 0 < mget 0 tg (vc_VariantName l) \<Longrightarrow>
     \<exists>vc\<in>set (before @ xs @ [l]).
       0 < mget 0 (fst (scale_down_from states mr f before (xs @ [l]) (tg, s))) (vc_VariantName vc)"
proof (induction xs arbitrary: before tg s)
  case Nil
  define n where "n = removal_count states tg (mr s l) before True l"
  let ?c = "mget 0 tg (vc_VariantName l)"
  let ?tg = "fst (scale_down_from states mr f before [l] (tg, s))"
  have tg: "?tg = (if n \<le> 0 then tg else mput (vc_VariantName l) (?c - n) tg)"
    by (simp add: Let_def n_def [symmetric])
  show ?case
  proof (cases "n \<le> 0 \<or> 0 < ?c - n")
    case True
    then show ?thesis using Nil.prems(2) tg by (auto split: if_splits)
  next
    case False
    then have "anyHasReplicas before tg" using Nil.prems(2)
      by (auto simp: n_def removal_count_def Let_def split: if_splits)
    then obtain vc where "vc \<in> set before" "0 < mget 0 tg (vc_VariantName vc)"
      by (auto simp: anyHasReplicas_def list_ex_iff)
    moreover have "vc_VariantName vc \<noteq> vc_VariantName l" using Nil.prems(1) calculation(1)
      by simp (metis image_eqI)
    ultimately show ?thesis using tg by (auto split: if_splits)
  qed
next
  case (Cons x xs)
  define n where "n = removal_count states tg (mr s x) before False x"
  have "vc_VariantName x \<noteq> vc_VariantName l" using Cons.prems(1) by auto
  then have "0 < mget 0 (if n \<le> 0 then tg else mput (vc_VariantName x) (mget 0 tg (vc_VariantName x) - n) tg) (vc_VariantName l)"
    using Cons.prems(2) by auto
  then show ?case using Cons.IH [of "before @ [x]"
      "if n \<le> 0 then tg else mput (vc_VariantName x) (mget 0 tg (vc_VariantName x) - n) tg" "if n \<le> 0 then s else f x n s"]
      Cons.prems(1)
    by (cases "n \<le> 0") (simp_all add: Let_def n_def [symmetric])
qed

text \<open>Shedding replicas never empties a role whose cheapest variant is running: whatever the
  caller permits, some variant of the list keeps a replica.\<close>

theorem cheapest_variant_protected:
  assumes "distinct (names vcs)" and "vcs \<noteq> []" and "0 < mget 0 targets (vc_VariantName (last vcs))"
  shows "\<exists>vc\<in>set vcs. 0 < mget 0 (fst (scaleDownVariantSet vcs targets states maxRemovable onRemove s)) (vc_VariantName vc)"
proof -
  have "vcs = [] @ butlast vcs @ [last vcs]" using assms(2) by simp
  then show ?thesis using scale_down_from_last [of "[]" "butlast vcs" "last vcs" targets states maxRemovable onRemove s] assms
    by (simp add: scaleDownVariantSet_def)
qed

lemma cheapest_variant_protected_witness:
  "\<exists>vc\<in>{zero_capacity\<lparr>vc_VariantName := ''b'', vc_PerReplicaCapacity := 2\<rparr>,
        zero_capacity\<lparr>vc_VariantName := ''a'', vc_PerReplicaCapacity := 1\<rparr>}.
     0 < mget 0 (fst (scaleDownVariantSet [zero_capacity\<lparr>vc_VariantName := ''b'', vc_PerReplicaCapacity := 2\<rparr>,
        zero_capacity\<lparr>vc_VariantName := ''a'', vc_PerReplicaCapacity := 1\<rparr>] [(''a'', 3), (''b'', 1)] None
        (\<lambda>s vc. 9) (\<lambda>vc n s. s) ())) (vc_VariantName vc)"
  using cheapest_variant_protected [of "[zero_capacity\<lparr>vc_VariantName := ''b'', vc_PerReplicaCapacity := 2\<rparr>,
        zero_capacity\<lparr>vc_VariantName := ''a'', vc_PerReplicaCapacity := 1\<rparr>]" "[(''a'', 3), (''b'', 1)]" None
        "\<lambda>s vc. 9" "\<lambda>vc n s. s" "()"]
  by (simp add: zero_capacity_def)

section \<open>The anchor\<close>

text \<open>What a variant is, apart from how it is sized.\<close>

definition topology :: "variant_capacity \<Rightarrow> string \<times> string \<times> gofloat \<times> string \<times> int \<times> int" where
  "topology vc = (vc_VariantName vc, vc_AcceleratorName vc, vc_Cost vc, vc_Role vc, vc_ReplicaCount vc, vc_PendingReplicas vc)"

lemma merge_variant_topology [simp]: "topology (merge_variant bs en a) = topology a"
  by (simp add: merge_variant_def topology_def Let_def split: option.split)

lemma merge_variant_total:
  "vc_TotalCapacity (merge_variant bs en a) =
     of_int (vc_ReplicaCount (merge_variant bs en a)) * vc_PerReplicaCapacity (merge_variant bs en a)"
  by (simp add: merge_variant_def Let_def split: option.split)

lemma merge_variant_prc:
  "distinct (names bs) \<Longrightarrow> a \<in> set bs \<Longrightarrow> vc_PerReplicaCapacity (merge_variant bs en a) = vc_PerReplicaCapacity a"
  by (simp add: merge_variant_def Let_def buildCapacityMap_distinct)

text \<open>The anchor an optimizer works on is the saturation report with its sizing merged in: when
  saturation reported, the anchor has the same variants with the same accelerators, costs, roles and
  replica counts; total capacity is always the replica count times the capacity of a replica; and when
  saturation itself is usable the anchor keeps its capacities.\<close>

theorem anchor_extends_saturation:
  assumes "bindingAnchor s = Some a" and "find_saturation s = Some sat" and "nr_Result sat = Some r"
  shows "map topology (ar_VariantCapacities a) = map topology (ar_VariantCapacities r) \<and>
    (\<forall>vc\<in>set (ar_VariantCapacities a). vc_TotalCapacity vc = of_int (vc_ReplicaCount vc) * vc_PerReplicaCapacity vc) \<and>
    (usable sat \<and> distinct (names (ar_VariantCapacities r)) \<longrightarrow>
       map vc_PerReplicaCapacity (ar_VariantCapacities a) = map vc_PerReplicaCapacity (ar_VariantCapacities r))"
proof -
  obtain b br where b: "select_binding s = Some b" "nr_Result b = Some br"
    using assms(1) by (auto simp: bindingAnchor_def split: option.splits)
  have a: "ar_VariantCapacities a = map (merge_variant (ar_VariantCapacities br) (nr_Enabled sat)) (ar_VariantCapacities r)"
    using assms b by (auto simp: bindingAnchor_def Let_def)
  have "usable sat \<Longrightarrow> br = r" using b assms(2,3) by (simp add: select_binding_def Let_def)
  then show ?thesis by (auto simp: a comp_def merge_variant_total merge_variant_prc)
qed

lemma anchor_extends_saturation_witness:
  "\<exists>a. bindingAnchor [example_vote 30 0] = Some a \<and>
     map topology (ar_VariantCapacities a) = map topology (ar_VariantCapacities (example_result 30 0))"
proof -
  obtain a where a: "bindingAnchor [example_vote 30 0] = Some a"
    using example_anchor [of 30 0] by (simp add: example_request_def)
  have "find_saturation [example_vote 30 0] = Some (example_vote 30 0)" "nr_Result (example_vote 30 0) = Some (example_result 30 0)"
    by (simp_all add: find_saturation_def example_vote_def)
  then show ?thesis using a anchor_extends_saturation [OF a] by blast
qed

end
