(* ===== verification/Greedy_Saturation.thy ===== *)
theory Greedy_Saturation
  imports Domain
begin

text \<open>
  The allocation algorithm \<open>GreedyBySaturation\<close> and the interface \<open>ResourceAllocator\<close> it
  works through (\<open>greedy_saturation_algorithm.go\<close>, \<open>limiter_interfaces.go\<close>).  An
  allocator is a state and a function \<open>TryAllocate\<close> that returns the GPUs it grants, the
  decision (allocators may resolve its accelerator or append a step) and the new state; the
  algorithm takes that function as a parameter.  The locale states what an allocator promises and
  proves once what the algorithm then guarantees.
\<close>

type_synonym 'a try_allocate = "'a \<Rightarrow> variant_decision \<Rightarrow> int \<Rightarrow> int \<times> variant_decision \<times> 'a"

section \<open>The algorithm\<close>

definition filterScaleUpCandidates :: "variant_decision list \<Rightarrow> nat list" where
  "filterScaleUpCandidates ds =
     filter (\<lambda>i. d_TargetReplicas (ds ! i) > d_CurrentReplicas (ds ! i)) [0..<length ds]"

definition saturation_less :: "variant_decision \<Rightarrow> variant_decision \<Rightarrow> bool" where
  "saturation_less a b =
     (if d_SpareCapacity a \<noteq> d_SpareCapacity b then d_SpareCapacity a < d_SpareCapacity b
      else d_Cost a < d_Cost b)"

definition sortByPriority :: "variant_decision list \<Rightarrow> nat list \<Rightarrow> nat list" where
  "sortByPriority ds js = go_sort (\<lambda>i j. saturation_less (ds ! i) (ds ! j)) js"

definition gpus_per_replica :: "variant_decision \<Rightarrow> int" where
  "gpus_per_replica d = (if d_GPUsPerReplica d \<le> 0 then 1 else d_GPUsPerReplica d)"

definition cap_by_max :: "variant_decision \<Rightarrow> variant_decision" where
  "cap_by_max d = (case d_MaxReplicas d of
     Some m \<Rightarrow> if 0 < m \<and> m < d_TargetReplicas d then d\<lparr>d_TargetReplicas := m\<rparr> else d
   | None \<Rightarrow> d)"

definition floor_by_min :: "variant_decision \<Rightarrow> variant_decision" where
  "floor_by_min d = (case d_MinReplicas d of
     Some m \<Rightarrow> if d_TargetReplicas d < m then d\<lparr>d_TargetReplicas := m\<rparr> else d
   | None \<Rightarrow> d)"

definition allocateForDecision ::
  "'a try_allocate \<Rightarrow> variant_decision \<Rightarrow> 'a \<Rightarrow> variant_decision \<times> 'a" where
  "allocateForDecision tryA d a =
     (if d_TargetReplicas d - d_CurrentReplicas d \<le> 0 then (d, a)
      else
        let d1 = cap_by_max d;
            replicasNeeded = d_TargetReplicas d1 - d_CurrentReplicas d1
        in if replicasNeeded \<le> 0 then (d1, a)
        else
          let gpusPerReplica = gpus_per_replica d1;
              (gpusAllocated, d2, a') = tryA a d1 (replicasNeeded * gpusPerReplica);
              replicasAllocated =
                (if 0 < gpusPerReplica then go_div gpusAllocated gpusPerReplica else 0);
              d3 = d2\<lparr>d_GPUsAllocated := replicasAllocated * gpusPerReplica,
                      d_TargetReplicas := d_CurrentReplicas d2 + replicasAllocated\<rparr>;
              d4 = floor_by_min d3
          in (if replicasAllocated < replicasNeeded then d4\<lparr>d_WasLimited := True\<rparr> else d4, a'))"

fun allocate_in_order ::
  "'a try_allocate \<Rightarrow> nat list \<Rightarrow> variant_decision list \<Rightarrow> 'a \<Rightarrow> variant_decision list \<times> 'a" where
  "allocate_in_order tryA [] ds a = (ds, a)"
| "allocate_in_order tryA (i # js) ds a =
     (let (d', a') = allocateForDecision tryA (ds ! i) a
      in allocate_in_order tryA js (ds[i := d']) a')"

definition greedy_Allocate ::
  "'a try_allocate \<Rightarrow> variant_decision list \<Rightarrow> 'a \<Rightarrow> variant_decision list \<times> 'a" where
  "greedy_Allocate tryA ds a =
     allocate_in_order tryA (sortByPriority ds (filterScaleUpCandidates ds)) ds a"

section \<open>Facts that hold for every allocator\<close>

lemma gpus_per_replica_pos [simp]: "0 < gpus_per_replica d"
  by (simp add: gpus_per_replica_def)

lemma cap_by_max_frame [simp]:
  "same_request d (cap_by_max d)" "d_AcceleratorName (cap_by_max d) = d_AcceleratorName d"
  "d_CurrentReplicas (cap_by_max d) = d_CurrentReplicas d"
  "gpus_per_replica (cap_by_max d) = gpus_per_replica d"
  "d_WasLimited (cap_by_max d) = d_WasLimited d"
  "d_TargetReplicas (cap_by_max d) \<le> d_TargetReplicas d"
  "d_LimitedBy (cap_by_max d) = d_LimitedBy d"
  by (simp_all add: cap_by_max_def same_request_def gpus_per_replica_def split: option.split)

lemma floor_by_min_frame [simp]:
  "same_request d (floor_by_min d)" "d_AcceleratorName (floor_by_min d) = d_AcceleratorName d"
  "d_WasLimited (floor_by_min d) = d_WasLimited d"
  "d_GPUsAllocated (floor_by_min d) = d_GPUsAllocated d" "d_LimitedBy (floor_by_min d) = d_LimitedBy d"
  by (simp_all add: floor_by_min_def same_request_def split: option.split)

text \<open>The three ways through \<open>allocateForDecision\<close>.\<close>

lemma allocateForDecision_idle:
  "d_TargetReplicas d \<le> d_CurrentReplicas d \<Longrightarrow> allocateForDecision tryA d a = (d, a)"
  by (simp add: allocateForDecision_def)

lemma allocateForDecision_capped:
  "d_CurrentReplicas d < d_TargetReplicas d \<Longrightarrow> d_TargetReplicas (cap_by_max d) \<le> d_CurrentReplicas d \<Longrightarrow>
     allocateForDecision tryA d a = (cap_by_max d, a)"
  by (simp add: allocateForDecision_def)

lemma allocateForDecision_grow:
  assumes "d_CurrentReplicas d < d_TargetReplicas d"
    and "n = d_TargetReplicas (cap_by_max d) - d_CurrentReplicas d" and "0 < n"
    and "tryA a (cap_by_max d) (n * gpus_per_replica d) = (g, d2, a2)"
    and "r = go_div g (gpus_per_replica d)"
    and "d3 = d2\<lparr>d_GPUsAllocated := r * gpus_per_replica d,
                 d_TargetReplicas := d_CurrentReplicas d2 + r\<rparr>"
  shows "allocateForDecision tryA d a =
    (if r < n then (floor_by_min d3)\<lparr>d_WasLimited := True\<rparr> else floor_by_min d3, a2)"
  using assms by (simp add: allocateForDecision_def Let_def)

lemma candidates_distinct: "distinct (sortByPriority ds (filterScaleUpCandidates ds))"
  by (simp add: sortByPriority_def filterScaleUpCandidates_def)

lemma candidates_set:
  "set (sortByPriority ds (filterScaleUpCandidates ds)) =
     {i. i < length ds \<and> d_CurrentReplicas (ds ! i) < d_TargetReplicas (ds ! i)}"
  by (auto simp: sortByPriority_def filterScaleUpCandidates_def)

lemma saturation_less_strict_weak: "strict_weak saturation_less"
  unfolding strict_weak_def saturation_less_def by (smt (verit))

lemma candidates_sorted:
  "sorted_wrt (\<lambda>i j. \<not> saturation_less (ds ! j) (ds ! i))
     (sortByPriority ds (filterScaleUpCandidates ds))"
proof -
  have "strict_weak (\<lambda>i j. saturation_less (ds ! i) (ds ! j))"
    using saturation_less_strict_weak unfolding strict_weak_def by blast
  then show ?thesis unfolding sortByPriority_def by (rule sorted_go_sort)
qed

lemma length_allocate_in_order [simp]: "length (fst (allocate_in_order tryA js ds a)) = length ds"
  by (induction tryA js ds a rule: allocate_in_order.induct) (auto split: prod.splits)

lemma allocate_in_order_untouched:
  "i \<notin> set js \<Longrightarrow> fst (allocate_in_order tryA js ds a) ! i = ds ! i"
proof (induction tryA js ds a rule: allocate_in_order.induct)
  case (2 tryA j js ds a)
  then show ?case by (cases "allocateForDecision tryA (ds ! j) a") simp
qed simp

lemma length_greedy_Allocate [simp]: "length (fst (greedy_Allocate tryA ds a)) = length ds"
  by (simp add: greedy_Allocate_def)

text \<open>A decision that does not ask for more replicas is not touched.\<close>

lemma greedy_untouched:
  "i < length ds \<Longrightarrow> d_TargetReplicas (ds ! i) \<le> d_CurrentReplicas (ds ! i) \<Longrightarrow>
     fst (greedy_Allocate tryA ds a) ! i = ds ! i"
  unfolding greedy_Allocate_def by (rule allocate_in_order_untouched) (simp add: candidates_set)

text \<open>The GPUs of the replicas a decision adds, and the decisions no minimum pushes up.\<close>

definition extra_gpus :: "variant_decision \<Rightarrow> int" where
  "extra_gpus d = max 0 (d_TargetReplicas d - d_CurrentReplicas d) * gpus_per_replica d"

definition floor_free :: "variant_decision \<Rightarrow> bool" where
  "floor_free d = (case d_MinReplicas d of None \<Rightarrow> True | Some m \<Rightarrow> m \<le> d_CurrentReplicas d)"

definition wanted_gpus :: "variant_decision \<Rightarrow> int" where
  "wanted_gpus d = max 0 (d_TargetReplicas (cap_by_max d) - d_CurrentReplicas d) * gpus_per_replica d"

lemma wanted_gpus_nonneg: "0 \<le> wanted_gpus d"
  using gpus_per_replica_pos [of d] by (simp add: wanted_gpus_def less_imp_le)

lemma extra_gpus_nonneg: "0 \<le> extra_gpus d"
  using gpus_per_replica_pos [of d] by (simp add: extra_gpus_def less_imp_le)

lemma extra_gpus_le:
  assumes "same_request d d'" and "d_TargetReplicas d' \<le> d_CurrentReplicas d + r" and "0 \<le> r"
  shows "extra_gpus d' \<le> r * gpus_per_replica d"
proof -
  have "gpus_per_replica d' = gpus_per_replica d" "d_CurrentReplicas d' = d_CurrentReplicas d"
    using assms(1) by (simp_all add: same_request_def gpus_per_replica_def)
  then show ?thesis
    using assms(2,3) gpus_per_replica_pos [of d]
    by (simp add: extra_gpus_def mult_right_mono)
qed

section \<open>The contract of an allocator\<close>

text \<open>
  \<open>meter a d\<close> is the pool a decision is charged to, \<^const>\<open>None\<close> when no pool is charged
  (the allocator lets it pass, or refuses it outright); \<open>left a p\<close> is what the pool still
  holds.  A pool is never overdrawn, and a request it can serve is served in full.
\<close>

locale resource_allocator =
  fixes try_alloc :: "'a try_allocate"
    and invar :: "'a \<Rightarrow> bool"
    and meter :: "'a \<Rightarrow> variant_decision \<Rightarrow> 'p option"
    and left :: "'a \<Rightarrow> 'p \<Rightarrow> int"
  assumes grant_bounds: "invar a \<Longrightarrow> try_alloc a d n = (g, d', a') \<Longrightarrow> 0 \<le> g \<and> g \<le> max 0 n"
    and invar_try: "invar a \<Longrightarrow> try_alloc a d n = (g, d', a') \<Longrightarrow> invar a'"
    and try_frame: "invar a \<Longrightarrow> try_alloc a d n = (g, d', a') \<Longrightarrow>
      same_request d d' \<and> d_TargetReplicas d' = d_TargetReplicas d \<and>
      d_WasLimited d' = d_WasLimited d \<and> d_LimitedBy d' = d_LimitedBy d"
    and charge: "invar a \<Longrightarrow> try_alloc a d n = (g, d', a') \<Longrightarrow> meter a d = Some p \<Longrightarrow> g \<le> left a p"
    and left_try: "invar a \<Longrightarrow> try_alloc a d n = (g, d', a') \<Longrightarrow>
      left a' q = left a q - (if meter a d = Some q then g else 0)"
    and meter_state: "invar a \<Longrightarrow> try_alloc a d n = (g, d', a') \<Longrightarrow> meter a' e = meter a e"
    and meter_same: "d_AcceleratorName e = d_AcceleratorName d \<Longrightarrow> d_Namespace e = d_Namespace d \<Longrightarrow>
      meter a e = meter a d"
    and left_nonneg: "invar a \<Longrightarrow> 0 \<le> left a p"
    and full_grant: "invar a \<Longrightarrow> try_alloc a d n = (g, d', a') \<Longrightarrow> meter a d = Some p \<Longrightarrow>
      0 < n \<Longrightarrow> n \<le> left a p \<Longrightarrow> g = n"
begin

text \<open>One decision: everything the client needs, in terms of the grant \<open>r\<close> in replicas.\<close>

lemma allocate_one:
  assumes inv: "invar a" and call: "allocateForDecision try_alloc d a = (d', a')"
  obtains r where "0 \<le> r"
    and "r \<le> max 0 (d_TargetReplicas d - d_CurrentReplicas d)"
    and "invar a'" and "same_request d d'"
    and "meter a' = meter a"
    and "\<And>q. left a' q \<le> left a q"
    and "\<And>p. meter a d = Some p \<Longrightarrow> r * gpus_per_replica d \<le> left a p - left a' p"
    and "d_TargetReplicas d' \<le> d_CurrentReplicas d + r
         \<or> (\<exists>m. d_MinReplicas d = Some m \<and> d_TargetReplicas d' = m)
         \<or> d' = d \<and> d_TargetReplicas d \<le> d_CurrentReplicas d"
proof -
  define d1 where "d1 = cap_by_max d"
  define n where "n = d_TargetReplicas d1 - d_CurrentReplicas d"
  define k where "k = gpus_per_replica d"
  have nle: "n \<le> d_TargetReplicas d - d_CurrentReplicas d" by (simp add: n_def d1_def)
  consider "d_TargetReplicas d \<le> d_CurrentReplicas d"
    | "d_CurrentReplicas d < d_TargetReplicas d" "n \<le> 0"
    | "d_CurrentReplicas d < d_TargetReplicas d" "0 < n"
    by linarith
  then show ?thesis
  proof cases
    case 1
    with call have "d' = d" "a' = a" by (simp_all add: allocateForDecision_idle)
    with 1 inv show ?thesis by (intro that [of 0]) simp_all
  next
    case 2
    with call have "d' = d1" "a' = a"
      by (simp_all add: allocateForDecision_capped n_def d1_def)
    with 2 inv show ?thesis by (intro that [of 0]) (simp_all add: d1_def n_def)
  next
    case 3
    obtain g d2 a2 where t: "try_alloc a d1 (n * k) = (g, d2, a2)" by (metis prod_cases3)
    define r where "r = go_div g k"
    define d3 where "d3 = d2\<lparr>d_GPUsAllocated := r * k, d_TargetReplicas := d_CurrentReplicas d2 + r\<rparr>"
    have k: "0 < k" by (simp add: k_def)
    have g: "0 \<le> g" "g \<le> n * k"
      using grant_bounds [OF inv t] 3 k by auto
    have r: "0 \<le> r" "r \<le> n" "r * k \<le> g"
      using g k by (simp_all add: r_def go_div_ge0 go_div_mult_le go_div_le_of_le_mult)
    have fr: "same_request d d2"
      using try_frame [OF inv t] cap_by_max_frame(1) same_request_trans d1_def by blast
    have m: "meter a d1 = meter a d"
      by (rule meter_same) (simp_all add: d1_def cap_by_max_def split: option.split)
    have res: "d' = (if r < n then (floor_by_min d3)\<lparr>d_WasLimited := True\<rparr> else floor_by_min d3)"
      and a': "a' = a2"
      using call allocateForDecision_grow [of d n try_alloc a g d2 a2 r d3, OF 3(1) n_def [unfolded d1_def] 3(2)
          t [unfolded d1_def k_def] r_def [unfolded k_def] d3_def [unfolded k_def]] by simp_all
    show ?thesis
    proof (rule that [of r])
      show "r \<le> max 0 (d_TargetReplicas d - d_CurrentReplicas d)" using r nle by simp
      show "invar a'" using invar_try [OF inv t] a' by simp
      show "same_request d d'" using fr
        by (simp add: res d3_def same_request_def floor_by_min_def split: option.split)
      show "meter a' = meter a" using meter_state [OF inv t] a' by auto
      show "left a' q \<le> left a q" for q using left_try [OF inv t, of q] a' g by simp
      show "r * gpus_per_replica d \<le> left a p - left a' p" if "meter a d = Some p" for p
        using left_try [OF inv t, of p] that m r a' by (simp add: k_def)
      show "d_TargetReplicas d' \<le> d_CurrentReplicas d + r
         \<or> (\<exists>m. d_MinReplicas d = Some m \<and> d_TargetReplicas d' = m)
         \<or> d' = d \<and> d_TargetReplicas d \<le> d_CurrentReplicas d"
        using fr by (auto simp: res d3_def floor_by_min_def same_request_def split: option.split)
    qed (rule r)
  qed
qed

text \<open>
  The whole pass.  Where no minimum forces a target up, the GPUs of the replicas a pass adds to the
  decisions of one pool are covered by what the pass took from that pool.
\<close>

lemma in_order_budget:
  assumes "invar a" and "distinct js" and "\<forall>i\<in>set js. i < length ds"
    and "\<forall>i\<in>set js. floor_free (ds ! i)"
    and "allocate_in_order try_alloc js ds a = (ds', a')"
  shows "invar a' \<and> meter a' = meter a \<and>
    (\<Sum>i\<leftarrow>js. if meter a (ds ! i) = Some p then extra_gpus (ds' ! i) else 0) \<le> left a p - left a' p"
  using assms
proof (induction js arbitrary: ds a)
  case (Cons i js)
  obtain d1 a1 where one: "allocateForDecision try_alloc (ds ! i) a = (d1, a1)"
    by (cases "allocateForDecision try_alloc (ds ! i) a")
  obtain r where r: "0 \<le> r" and inv1: "invar a1" and same: "same_request (ds ! i) d1"
    and met: "meter a1 = meter a" and mono: "left a1 p \<le> left a p"
    and cost: "meter a (ds ! i) = Some p \<Longrightarrow> r * gpus_per_replica (ds ! i) \<le> left a p - left a1 p"
    and tgt: "d_TargetReplicas d1 \<le> d_CurrentReplicas (ds ! i) + r
         \<or> (\<exists>m. d_MinReplicas (ds ! i) = Some m \<and> d_TargetReplicas d1 = m)
         \<or> d1 = ds ! i \<and> d_TargetReplicas (ds ! i) \<le> d_CurrentReplicas (ds ! i)"
    by (rule allocate_one [OF Cons.prems(1) one]) blast
  have "d_TargetReplicas d1 \<le> d_CurrentReplicas (ds ! i) + r"
    using tgt r Cons.prems(4) by (auto simp: floor_free_def)
  then have extra: "extra_gpus d1 \<le> r * gpus_per_replica (ds ! i)"
    using same r by (intro extra_gpus_le) auto
  have rest: "allocate_in_order try_alloc js (ds[i := d1]) a1 = (ds', a')"
    using Cons.prems(5) one by simp
  have other: "ds[i := d1] ! j = ds ! j" if "j \<in> set js" for j
    using that Cons.prems(2) by (intro nth_list_update_neq) auto
  have keep: "ds' ! i = d1"
    using allocate_in_order_untouched [of i js try_alloc "ds[i := d1]" a1] rest Cons.prems(2,3) by simp
  have IH: "invar a' \<and> meter a' = meter a1 \<and>
    (\<Sum>j\<leftarrow>js. if meter a1 (ds[i := d1] ! j) = Some p then extra_gpus (ds' ! j) else 0)
      \<le> left a1 p - left a' p"
    by (rule Cons.IH [OF inv1 _ _ _ rest]) (use Cons.prems other in auto)
  have eq: "(\<Sum>j\<leftarrow>js. if meter a1 (ds[i := d1] ! j) = Some p then extra_gpus (ds' ! j) else 0) =
      (\<Sum>j\<leftarrow>js. if meter a (ds ! j) = Some p then extra_gpus (ds' ! j) else 0)"
    using other met by (intro arg_cong [of _ _ sum_list] map_cong) auto
  show ?case using IH eq keep extra cost mono met by (auto split: if_splits)
qed simp

lemma greedy_budget:
  assumes "invar a" and "list_all floor_free ds"
    and "greedy_Allocate try_alloc ds a = (ds', a')"
  shows "(\<Sum>i\<leftarrow>[0..<length ds]. if meter a (ds ! i) = Some p then extra_gpus (ds' ! i) else 0)
      \<le> left a p"
proof -
  let ?js = "sortByPriority ds (filterScaleUpCandidates ds)"
  let ?f = "\<lambda>i. if meter a (ds ! i) = Some p then extra_gpus (ds' ! i) else 0"
  have call: "allocate_in_order try_alloc ?js ds a = (ds', a')"
    using assms(3) by (simp add: greedy_Allocate_def)
  have b: "invar a' \<and> meter a' = meter a \<and> (\<Sum>i\<leftarrow>?js. ?f i) \<le> left a p - left a' p"
    using assms(2) by (intro in_order_budget [OF assms(1) candidates_distinct _ _ call])
      (auto simp: candidates_set list_all_length)
  have idle: "?f i = 0" if "i < length ds" "i \<notin> set ?js" for i
  proof -
    have "ds' ! i = ds ! i" "d_TargetReplicas (ds ! i) \<le> d_CurrentReplicas (ds ! i)"
      using that call allocate_in_order_untouched [of i ?js try_alloc ds a]
      by (auto simp: candidates_set)
    then show ?thesis by (simp add: extra_gpus_def)
  qed
  have "(\<Sum>i\<leftarrow>[0..<length ds]. ?f i) = (\<Sum>i\<in>{0..<length ds}. ?f i)"
    by (simp add: sum_list_distinct_conv_sum_set)
  also have "\<dots> = (\<Sum>i\<in>set ?js. ?f i)"
    using idle by (intro sum.mono_neutral_right) (auto simp: candidates_set)
  also have "\<dots> = (\<Sum>i\<leftarrow>?js. ?f i)"
    by (simp add: sum_list_distinct_conv_sum_set candidates_distinct)
  finally show ?thesis using b left_nonneg [of a' p] by linarith
qed

text \<open>
  No decision is held back without need: when a pool can cover all that its decisions ask for, each
  of them gets its whole (capped) target and none is marked limited.
\<close>

lemma allocate_one_full:
  assumes inv: "invar a" and call: "allocateForDecision try_alloc d a = (d', a')"
    and grows: "d_CurrentReplicas d < d_TargetReplicas (cap_by_max d)"
  shows "left a' q \<ge> left a q - (if meter a d = Some q then wanted_gpus d else 0)"
    and "meter a d = Some p \<Longrightarrow> wanted_gpus d \<le> left a p \<Longrightarrow>
      d_TargetReplicas d' = d_TargetReplicas (floor_by_min (cap_by_max d)) \<and>
      d_WasLimited d' = d_WasLimited d"
proof -
  define d1 where "d1 = cap_by_max d"
  define n where "n = d_TargetReplicas d1 - d_CurrentReplicas d"
  define k where "k = gpus_per_replica d"
  have gr: "d_CurrentReplicas d < d_TargetReplicas d"
    by (rule less_le_trans [OF grows cap_by_max_frame(6)])
  have n: "0 < n" and k: "0 < k"
    using grows by (simp_all add: n_def d1_def k_def)
  then have w: "wanted_gpus d = n * k" by (simp add: wanted_gpus_def n_def d1_def k_def)
  obtain g d2 a2 where t: "try_alloc a d1 (n * k) = (g, d2, a2)" by (metis prod_cases3)
  define r where "r = go_div g k"
  define d3 where "d3 = d2\<lparr>d_GPUsAllocated := r * k, d_TargetReplicas := d_CurrentReplicas d2 + r\<rparr>"
  have res: "d' = (if r < n then (floor_by_min d3)\<lparr>d_WasLimited := True\<rparr> else floor_by_min d3)"
    and a': "a' = a2"
    using call allocateForDecision_grow [of d n try_alloc a g d2 a2 r d3, OF gr n_def [unfolded d1_def]
        n t [unfolded d1_def k_def] r_def [unfolded k_def] d3_def [unfolded k_def]] by simp_all
  have m: "meter a d1 = meter a d"
    by (rule meter_same) (simp_all add: d1_def cap_by_max_def split: option.split)
  have nk: "0 < n * k" using n k by simp
  have g: "g \<le> n * k" using grant_bounds [OF inv t] nk by simp
  show "left a' q \<ge> left a q - (if meter a d = Some q then wanted_gpus d else 0)"
    using left_try [OF inv t, of q] m g a' w by simp
  have fr: "same_request d1 d2 \<and> d_WasLimited d2 = d_WasLimited d"
    using try_frame [OF inv t] by (simp add: d1_def)
  show "d_TargetReplicas d' = d_TargetReplicas (floor_by_min (cap_by_max d)) \<and>
      d_WasLimited d' = d_WasLimited d"
    if "meter a d = Some p" "wanted_gpus d \<le> left a p"
  proof -
    have "g = n * k" using full_grant [OF inv t] that m nk w by simp
    then have "r = n" using n k by (simp add: r_def go_div_mult_self)
    then show ?thesis using fr
      by (auto simp: res d3_def floor_by_min_def same_request_def n_def d1_def split: option.split)
  qed
qed

text \<open>The same without the growth condition, for decisions no minimum pushes up.\<close>

lemma allocate_one_served:
  assumes inv: "invar a" and call: "allocateForDecision try_alloc d a = (d', a')" and ff: "floor_free d"
  shows "left a' q \<ge> left a q - (if meter a d = Some q then wanted_gpus d else 0)"
    and "meter a d = Some p \<Longrightarrow> wanted_gpus d \<le> left a p \<Longrightarrow> d_CurrentReplicas d < d_TargetReplicas d \<Longrightarrow>
      d_TargetReplicas d' = d_TargetReplicas (cap_by_max d) \<and> d_WasLimited d' = d_WasLimited d"
proof -
  have eq: "d_TargetReplicas (floor_by_min (cap_by_max d)) = d_TargetReplicas (cap_by_max d)"
    if "d_CurrentReplicas d < d_TargetReplicas (cap_by_max d)"
    using that ff cap_by_max_frame(1) [of d]
    by (auto simp: floor_by_min_def floor_free_def same_request_def split: option.split)
  show "left a' q \<ge> left a q - (if meter a d = Some q then wanted_gpus d else 0)"
  proof (cases "d_CurrentReplicas d < d_TargetReplicas (cap_by_max d)")
    case False
    then have "a' = a" using call by (simp add: allocateForDecision_def Let_def split: if_splits)
    then show ?thesis by (simp add: wanted_gpus_nonneg)
  qed (rule allocate_one_full(1) [OF inv call])
  show "d_TargetReplicas d' = d_TargetReplicas (cap_by_max d) \<and> d_WasLimited d' = d_WasLimited d"
    if "meter a d = Some p" "wanted_gpus d \<le> left a p" "d_CurrentReplicas d < d_TargetReplicas d"
  proof (cases "d_CurrentReplicas d < d_TargetReplicas (cap_by_max d)")
    case True
    then show ?thesis using allocate_one_full(2) [OF inv call True that(1,2)] eq by simp
  next
    case False
    then show ?thesis using call that(3) by (simp add: allocateForDecision_capped) auto
  qed
qed

lemma in_order_full:
  assumes "invar a" and "distinct js" and "\<forall>i\<in>set js. i < length ds"
    and "\<forall>i\<in>set js. floor_free (ds ! i) \<and> d_CurrentReplicas (ds ! i) < d_TargetReplicas (ds ! i)"
    and "(\<Sum>i\<leftarrow>js. if meter a (ds ! i) = Some p then wanted_gpus (ds ! i) else 0) \<le> left a p"
    and "allocate_in_order try_alloc js ds a = (ds', a')"
    and "i \<in> set js" and "meter a (ds ! i) = Some p"
  shows "d_TargetReplicas (ds' ! i) = d_TargetReplicas (cap_by_max (ds ! i)) \<and>
    d_WasLimited (ds' ! i) = d_WasLimited (ds ! i)"
  using assms
proof (induction js arbitrary: ds a)
  case (Cons j js)
  let ?w = "\<lambda>a ds i. if meter a (ds ! i) = Some p then wanted_gpus (ds ! i) else 0"
  obtain d1 a1 where one: "allocateForDecision try_alloc (ds ! j) a = (d1, a1)"
    by (cases "allocateForDecision try_alloc (ds ! j) a")
  have gj: "floor_free (ds ! j)" "d_CurrentReplicas (ds ! j) < d_TargetReplicas (ds ! j)"
    using Cons.prems(4) by simp_all
  have inv1: "invar a1" and met: "meter a1 = meter a"
    by (rule allocate_one [OF Cons.prems(1) one], blast)+
  have rest: "allocate_in_order try_alloc js (ds[j := d1]) a1 = (ds', a')"
    using Cons.prems(6) one by simp
  have other: "ds[j := d1] ! q = ds ! q" if "q \<in> set js" for q
    using that Cons.prems(2) by (intro nth_list_update_neq) auto
  have eq: "(\<Sum>q\<leftarrow>js. ?w a1 (ds[j := d1]) q) = (\<Sum>q\<leftarrow>js. ?w a ds q)"
    using other met by (intro arg_cong [of _ _ sum_list] map_cong) auto
  have "?w a ds j \<ge> left a p - left a1 p"
    using allocate_one_served(1) [OF Cons.prems(1) one gj(1), of p] by simp
  then have left1: "(\<Sum>q\<leftarrow>js. ?w a1 (ds[j := d1]) q) \<le> left a1 p"
    using Cons.prems(5) eq by simp
  show ?case
  proof (cases "i = j")
    case True
    have "(\<Sum>q\<leftarrow>js. ?w a ds q) \<ge> 0"
      by (rule sum_list_nonneg) (auto simp: wanted_gpus_nonneg)
    then have "wanted_gpus (ds ! j) \<le> left a p"
      using Cons.prems(5,8) True by simp
    then have "d_TargetReplicas d1 = d_TargetReplicas (cap_by_max (ds ! j)) \<and>
        d_WasLimited d1 = d_WasLimited (ds ! j)"
      using allocate_one_served(2) [OF Cons.prems(1) one gj(1)] gj(2) Cons.prems(8) True by simp
    moreover have "ds' ! j = d1"
      using allocate_in_order_untouched [of j js try_alloc "ds[j := d1]" a1] rest Cons.prems(2,3)
      by simp
    ultimately show ?thesis using True by simp
  next
    case False
    then have i: "i \<in> set js" using Cons.prems(7) by simp
    have "d_TargetReplicas (ds' ! i) = d_TargetReplicas (cap_by_max (ds[j := d1] ! i)) \<and>
      d_WasLimited (ds' ! i) = d_WasLimited (ds[j := d1] ! i)"
      by (rule Cons.IH [OF inv1 _ _ _ left1 rest i]) (use Cons.prems other met i in auto)
    then show ?thesis using other [OF i] by simp
  qed
qed simp

lemma greedy_full:
  assumes inv: "invar a" and ff: "list_all floor_free ds"
    and fits: "(\<Sum>d\<leftarrow>ds. if meter a d = Some p then wanted_gpus d else 0) \<le> left a p"
    and i: "i < length ds" and met: "meter a (ds ! i) = Some p"
    and grows: "d_CurrentReplicas (ds ! i) < d_TargetReplicas (ds ! i)"
  defines "d' \<equiv> fst (greedy_Allocate try_alloc ds a) ! i"
  shows "d_TargetReplicas d' = d_TargetReplicas (cap_by_max (ds ! i)) \<and>
    d_WasLimited d' = d_WasLimited (ds ! i)"
proof -
  let ?js = "sortByPriority ds (filterScaleUpCandidates ds)"
  let ?w = "\<lambda>d. if meter a d = Some p then wanted_gpus d else 0"
  obtain ds' a' where call: "allocate_in_order try_alloc ?js ds a = (ds', a')" by fastforce
  have "(\<Sum>i\<leftarrow>?js. ?w (ds ! i)) = (\<Sum>i\<in>set ?js. ?w (ds ! i))"
    by (simp add: sum_list_distinct_conv_sum_set candidates_distinct)
  also have "\<dots> \<le> (\<Sum>i\<in>{0..<length ds}. ?w (ds ! i))"
    by (rule sum_mono2) (auto simp: candidates_set wanted_gpus_nonneg)
  also have "\<dots> = (\<Sum>d\<leftarrow>ds. ?w d)" by (simp add: sum_list_sum_nth)
  finally have "(\<Sum>i\<leftarrow>?js. ?w (ds ! i)) \<le> left a p" using fits by simp
  then have "d_TargetReplicas (ds' ! i) = d_TargetReplicas (cap_by_max (ds ! i)) \<and>
      d_WasLimited (ds' ! i) = d_WasLimited (ds ! i)"
    by (intro in_order_full [OF inv candidates_distinct _ _ _ call])
      (use ff i met grows in \<open>auto simp: candidates_set list_all_length\<close>)
  then show ?thesis using call by (simp add: d'_def greedy_Allocate_def)
qed

text \<open>What every step gives of one decision holds of the whole pass.\<close>

lemma in_order_pointwise:
  assumes step: "\<forall>a d d' a'. invar a \<longrightarrow> J a \<longrightarrow> allocateForDecision try_alloc d a = (d', a') \<longrightarrow>
      R d d' \<and> J a'"
    and refl: "\<forall>d. R d d"
    and "invar a \<and> J a" and "distinct js" and "\<forall>i\<in>set js. i < length ds"
    and "allocate_in_order try_alloc js ds a = (ds', a')" and "i < length ds"
  shows "R (ds ! i) (ds' ! i)"
  using assms(3-)
proof (induction js arbitrary: ds a)
  case (Cons j js)
  obtain d1 a1 where one: "allocateForDecision try_alloc (ds ! j) a = (d1, a1)"
    by (cases "allocateForDecision try_alloc (ds ! j) a")
  have inv1: "invar a1 \<and> J a1" and Rj: "R (ds ! j) d1"
    using allocate_one [OF conjunct1 [OF Cons.prems(1)] one] step Cons.prems(1) one by blast+
  have rest: "allocate_in_order try_alloc js (ds[j := d1]) a1 = (ds', a')"
    using Cons.prems(4) one by simp
  have IH: "R (ds[j := d1] ! i) (ds' ! i)"
    by (rule Cons.IH [OF inv1 _ _ rest]) (use Cons.prems in auto)
  show ?case
  proof (cases "i = j")
    case True
    then have "ds' ! i = d1"
      using allocate_in_order_untouched [of i js try_alloc "ds[j := d1]" a1] rest Cons.prems by simp
    then show ?thesis using Rj True by simp
  qed (use IH in simp)
qed (simp add: refl)

lemma greedy_pointwise:
  assumes "\<forall>a d d' a'. invar a \<longrightarrow> J a \<longrightarrow> allocateForDecision try_alloc d a = (d', a') \<longrightarrow>
      R d d' \<and> J a'"
    and "\<forall>d. R d d"
    and "invar a \<and> J a" and "i < length ds"
  shows "R (ds ! i) (fst (greedy_Allocate try_alloc ds a) ! i)"
proof -
  let ?js = "sortByPriority ds (filterScaleUpCandidates ds)"
  obtain ds' a' where call: "allocate_in_order try_alloc ?js ds a = (ds', a')" by fastforce
  have "R (ds ! i) (ds' ! i)"
    by (rule in_order_pointwise [of J R, OF assms(1-3) candidates_distinct _ call assms(4)])
      (simp add: candidates_set)
  then show ?thesis using call by (simp add: greedy_Allocate_def)
qed

lemma one_same_request:
  "invar a \<Longrightarrow> allocateForDecision try_alloc d a = (d', a') \<Longrightarrow> same_request d d'"
  by (rule allocate_one)

text \<open>The mark of a limited decision is never taken back, and attribution is not touched.\<close>

lemma one_marks:
  assumes inv: "invar a" and call: "allocateForDecision try_alloc d a = (d', a')"
  shows "(d_WasLimited d \<longrightarrow> d_WasLimited d') \<and> d_LimitedBy d' = d_LimitedBy d"
proof -
  obtain g d2 a2 where t: "try_alloc a (cap_by_max d)
      ((d_TargetReplicas (cap_by_max d) - d_CurrentReplicas d) * gpus_per_replica d) = (g, d2, a2)"
    by (metis prod_cases3)
  have "d_WasLimited d2 = d_WasLimited d \<and> d_LimitedBy d2 = d_LimitedBy d"
    using try_frame [OF inv t] by simp
  then show ?thesis
    using call t by (auto simp: allocateForDecision_def Let_def split: if_splits)
qed

lemma greedy_marks:
  "invar a \<Longrightarrow> i < length ds \<Longrightarrow>
     (d_WasLimited (ds ! i) \<longrightarrow> d_WasLimited (fst (greedy_Allocate try_alloc ds a) ! i)) \<and>
     d_LimitedBy (fst (greedy_Allocate try_alloc ds a) ! i) = d_LimitedBy (ds ! i)"
  using greedy_pointwise [where J = "\<lambda>_. True" and
      R = "\<lambda>d d'. (d_WasLimited d \<longrightarrow> d_WasLimited d') \<and> d_LimitedBy d' = d_LimitedBy d"] one_marks
  by blast

lemma one_target:
  assumes "invar a" and "allocateForDecision try_alloc d a = (d', a')" and "floor_free d"
  shows "d_TargetReplicas d' \<le> d_TargetReplicas d"
proof -
  obtain r where "0 \<le> r" "r \<le> max 0 (d_TargetReplicas d - d_CurrentReplicas d)"
    and t: "d_TargetReplicas d' \<le> d_CurrentReplicas d + r
         \<or> (\<exists>m. d_MinReplicas d = Some m \<and> d_TargetReplicas d' = m)
         \<or> d' = d \<and> d_TargetReplicas d \<le> d_CurrentReplicas d"
    by (rule allocate_one [OF assms(1,2)]) blast
  then show ?thesis
    using assms(2,3) by (cases "d_TargetReplicas d \<le> d_CurrentReplicas d")
      (auto simp: allocateForDecision_idle floor_free_def)
qed

lemma greedy_same_request:
  "invar a \<Longrightarrow> i < length ds \<Longrightarrow>
     same_request (ds ! i) (fst (greedy_Allocate try_alloc ds a) ! i)"
  using greedy_pointwise [where R = same_request and J = "\<lambda>_. True"] one_same_request same_request_refl by blast

lemma greedy_target:
  assumes "invar a" and "i < length ds" and "floor_free (ds ! i)"
  shows "d_TargetReplicas (fst (greedy_Allocate try_alloc ds a) ! i) \<le> d_TargetReplicas (ds ! i)"
  using greedy_pointwise [where R = "\<lambda>d d'. floor_free d \<longrightarrow> d_TargetReplicas d' \<le> d_TargetReplicas d"
      and J = "\<lambda>_. True", OF _ _ _ assms(2)] one_target assms(1,3) by blast

text \<open>
  The budget in the form a client reads off the decisions: replicas after the pass, replicas
  before it, and what the pool held.
\<close>

lemma greedy_total:
  assumes inv: "invar a" and ff: "list_all floor_free ds"
    and gpr: "\<forall>d\<in>set ds. 0 < d_GPUsPerReplica d"
    and call: "greedy_Allocate try_alloc ds a = (ds', a')"
    and sel: "\<And>i. i < length ds \<Longrightarrow> P i \<Longrightarrow> meter a (ds ! i) = Some p"
  shows "(\<Sum>i\<leftarrow>[0..<length ds]. if P i then d_TargetReplicas (ds' ! i) * d_GPUsPerReplica (ds ! i) else 0)
    \<le> (\<Sum>i\<leftarrow>[0..<length ds]. if P i then d_CurrentReplicas (ds ! i) * d_GPUsPerReplica (ds ! i) else 0)
       + left a p"
proof -
  let ?e = "\<lambda>i. if meter a (ds ! i) = Some p then extra_gpus (ds' ! i) else 0"
  let ?t = "\<lambda>i. if P i then d_TargetReplicas (ds' ! i) * d_GPUsPerReplica (ds ! i) else 0"
  let ?c = "\<lambda>i. if P i then d_CurrentReplicas (ds ! i) * d_GPUsPerReplica (ds ! i) else 0"
  have "?t i \<le> ?c i + ?e i" if i: "i < length ds" for i
  proof (cases "P i")
    case True
    have "same_request (ds ! i) (ds' ! i)" using greedy_same_request [OF inv i] call by simp
    moreover have g: "0 < d_GPUsPerReplica (ds ! i)" using gpr i by simp
    ultimately have "extra_gpus (ds' ! i) =
        max 0 (d_TargetReplicas (ds' ! i) - d_CurrentReplicas (ds ! i)) * d_GPUsPerReplica (ds ! i)"
      by (simp add: extra_gpus_def gpus_per_replica_def same_request_def)
    moreover have "(d_TargetReplicas (ds' ! i) - d_CurrentReplicas (ds ! i)) * d_GPUsPerReplica (ds ! i)
        \<le> max 0 (d_TargetReplicas (ds' ! i) - d_CurrentReplicas (ds ! i)) * d_GPUsPerReplica (ds ! i)"
      using g by (intro mult_right_mono) auto
    ultimately show ?thesis using True sel [OF i] by (simp add: algebra_simps)
  qed (simp add: extra_gpus_nonneg)
  then have "(\<Sum>i\<leftarrow>[0..<length ds]. ?t i) \<le> (\<Sum>i\<leftarrow>[0..<length ds]. ?c i + ?e i)"
    by (intro sum_list_mono) auto
  also have "\<dots> = (\<Sum>i\<leftarrow>[0..<length ds]. ?c i) + (\<Sum>i\<leftarrow>[0..<length ds]. ?e i)"
    by (rule sum_list_addf)
  also have "(\<Sum>i\<leftarrow>[0..<length ds]. ?e i) \<le> left a p"
    by (rule greedy_budget [OF inv ff call])
  finally show ?thesis by simp
qed

end

end
