(* ===== verification/Type_Inventory.thy ===== *)
theory Type_Inventory
  imports Greedy_Saturation
begin

text \<open>
  The physical GPU inventory (\<open>type_inventory.go\<close>): capacity, usage and availability per
  accelerator type, and the allocator that hands the available GPUs out.  What cluster discovery
  returns is an argument of the refresh operations.  The allocator is shown to honour the contract
  of \<open>resource_allocator\<close>.
\<close>

section \<open>Pools\<close>

record resource_pool =
  rp_Limit :: int
  rp_Used :: int

definition Available :: "resource_pool \<Rightarrow> int" where
  "Available p = (let avail = rp_Limit p - rp_Used p in if avail < 0 then 0 else avail)"

section \<open>The inventory\<close>

record type_inventory =
  ti_name :: string
  ti_limitByType :: "(string, int) gomap"
  ti_usedByType :: "(string, int) gomap"
  ti_totalLimit :: int
  ti_totalUsed :: int

definition NewTypeInventory :: "string \<Rightarrow> type_inventory" where
  "NewTypeInventory name = \<lparr>ti_name = name, ti_limitByType = [], ti_usedByType = [],
     ti_totalLimit = 0, ti_totalUsed = 0\<rparr>"

datatype inventory_error =
    DiscoverFailed string
  | UsageNotConfigured
  | UsageDiscoveryFailed string

text \<open>What discovery reports: node to full model name to GPU count.\<close>

type_synonym node_inventory = "(string, (string, int) gomap) gomap"

definition add_model :: "string \<times> int \<Rightarrow> (string, int) gomap \<times> int \<Rightarrow> (string, int) gomap \<times> int" where
  "add_model = (\<lambda>(fullModelName, count) (byType, total).
     (madd (NormalizeAcceleratorName fullModelName) count byType, total + count))"

definition aggregate_nodes :: "node_inventory \<Rightarrow> (string, int) gomap \<times> int" where
  "aggregate_nodes nodes = fold (\<lambda>(_, accelerators). fold add_model accelerators) nodes ([], 0)"

definition ti_Refresh :: "string + node_inventory \<Rightarrow> type_inventory \<Rightarrow> inventory_error + type_inventory" where
  "ti_Refresh discovered i = (case discovered of
     Inl e \<Rightarrow> Inl (DiscoverFailed e)
   | Inr nodes \<Rightarrow> (let (byType, total) = aggregate_nodes nodes in
       Inr (i\<lparr>ti_limitByType := byType, ti_totalLimit := total\<rparr>)))"

definition ti_SetUsed :: "(string, int) gomap \<Rightarrow> type_inventory \<Rightarrow> type_inventory" where
  "ti_SetUsed usedByType i = i\<lparr>ti_usedByType := usedByType, ti_totalUsed := msum usedByType\<rparr>"

definition ti_RefreshAll ::
  "string + node_inventory \<Rightarrow> (string + (string, int) gomap) option \<Rightarrow> type_inventory \<Rightarrow>
   inventory_error + type_inventory" where
  "ti_RefreshAll discovered usageDiscovery i = (case usageDiscovery of
     None \<Rightarrow> Inl UsageNotConfigured
   | Some usage \<Rightarrow> (case ti_Refresh discovered i of
       Inl e \<Rightarrow> Inl e
     | Inr i' \<Rightarrow> (case usage of
         Inl e \<Rightarrow> Inl (UsageDiscoveryFailed e)
       | Inr usedByType \<Rightarrow> Inr (ti_SetUsed usedByType i'))))"

definition ti_TotalAvailable :: "type_inventory \<Rightarrow> int" where
  "ti_TotalAvailable i =
     (let available = ti_totalLimit i - ti_totalUsed i in if available < 0 then 0 else available)"

definition LimitByType :: "type_inventory \<Rightarrow> string \<Rightarrow> int" where
  "LimitByType i accType = mget 0 (ti_limitByType i) accType"

definition UsedByType :: "type_inventory \<Rightarrow> string \<Rightarrow> int" where
  "UsedByType i accType = mget 0 (ti_usedByType i) accType"

definition AvailableByType :: "type_inventory \<Rightarrow> string \<Rightarrow> int" where
  "AvailableByType i accType =
     (let available = mget 0 (ti_limitByType i) accType - mget 0 (ti_usedByType i) accType
      in if available < 0 then 0 else available)"

definition ti_GetResourcePools :: "type_inventory \<Rightarrow> (string, resource_pool) gomap" where
  "ti_GetResourcePools i =
     map (\<lambda>(accType, limit). (accType, \<lparr>rp_Limit = limit, rp_Used = mget 0 (ti_usedByType i) accType\<rparr>))
       (ti_limitByType i)"

definition AcceleratorTypes :: "type_inventory \<Rightarrow> string list" where
  "AcceleratorTypes i = mkeys (ti_limitByType i)"

section \<open>The allocator\<close>

record type_allocator =
  ta_remainingByType :: "(string, int) gomap"
  ta_totalRemaining :: int

definition ti_CreateAllocator :: "type_inventory \<Rightarrow> type_allocator" where
  "ti_CreateAllocator i =
     (let remaining = map (\<lambda>(accType, limit).
            (accType, let available = limit - mget 0 (ti_usedByType i) accType
                      in if available < 0 then 0 else available)) (ti_limitByType i)
      in \<lparr>ta_remainingByType = remaining, ta_totalRemaining = msum remaining\<rparr>)"

text \<open>The pool a decision draws on: its own type, or the only type of a homogeneous cluster.\<close>

definition resolve_pool :: "type_allocator \<Rightarrow> variant_decision \<Rightarrow> string option" where
  "resolve_pool a d =
     (if IsAcceleratorResolved (d_AcceleratorName d) then Some (d_AcceleratorName d)
      else case ta_remainingByType a of [(resolvedType, _)] \<Rightarrow> Some resolvedType | _ \<Rightarrow> None)"

definition ta_TryAllocate :: "type_allocator try_allocate" where
  "ta_TryAllocate a d gpusRequested =
     (if gpusRequested \<le> 0 then (0, d, a)
      else case resolve_pool a d of
        None \<Rightarrow> (0, d, a)
      | Some accType \<Rightarrow>
          let d' = (if IsAcceleratorResolved (d_AcceleratorName d) then d
                    else d\<lparr>d_AcceleratorName := accType\<rparr>);
              available = mget 0 (ta_remainingByType a) accType
          in if available \<le> 0 then (0, d', a)
          else let allocated = (if gpusRequested > available then available else gpusRequested)
            in (allocated, d',
                a\<lparr>ta_remainingByType := madd accType (- allocated) (ta_remainingByType a),
                  ta_totalRemaining := ta_totalRemaining a - allocated\<rparr>))"

definition ta_Remaining :: "type_allocator \<Rightarrow> int" where
  "ta_Remaining a = ta_totalRemaining a"

definition RemainingForType :: "type_allocator \<Rightarrow> string \<Rightarrow> int" where
  "RemainingForType a accType = mget 0 (ta_remainingByType a) accType"

section \<open>Aggregation over the nodes\<close>

lemma fold_add_model:
  "fold add_model xs (m, t) =
     (fold (\<lambda>(n, c). madd (NormalizeAcceleratorName n) c) xs m, t + msum xs)"
  by (induction xs arbitrary: m t) (auto simp: add_model_def)

lemma wf_fold_madd: "wf_map m \<Longrightarrow> wf_map (fold (\<lambda>(n, c). madd (f n) c) xs m)"
  by (induction xs arbitrary: m) auto

lemma mget_fold_madd:
  "mget 0 (fold (\<lambda>(n, c). madd (f n) c) xs m) t =
     mget 0 m t + (\<Sum>(n, c)\<leftarrow>xs. if f n = t then c else 0)"
  by (induction xs arbitrary: m) auto

lemma msum_fold_madd: "wf_map m \<Longrightarrow> msum (fold (\<lambda>(n, c). madd (f n) c) xs m) = msum m + msum xs"
  by (induction xs arbitrary: m) (auto simp: msum_madd)

lemma aggregate_nodes_flat:
  "aggregate_nodes nodes = fold add_model (concat (map snd nodes)) ([], 0)"
proof -
  have "fold (\<lambda>(_, accelerators). fold add_model accelerators) nodes acc =
      fold add_model (concat (map snd nodes)) acc" for acc
    by (induction nodes arbitrary: acc) auto
  then show ?thesis by (simp add: aggregate_nodes_def)
qed

lemma aggregate_nodes_mget:
  "mget 0 (fst (aggregate_nodes nodes)) t =
     (\<Sum>(n, c)\<leftarrow>concat (map snd nodes). if NormalizeAcceleratorName n = t then c else 0)"
  by (simp add: aggregate_nodes_flat fold_add_model mget_fold_madd)

lemma aggregate_nodes_wf: "wf_map (fst (aggregate_nodes nodes))"
  by (simp add: aggregate_nodes_flat fold_add_model wf_fold_madd)

lemma aggregate_nodes_total: "snd (aggregate_nodes nodes) = msum (fst (aggregate_nodes nodes))"
  by (simp add: aggregate_nodes_flat fold_add_model msum_fold_madd)

lemma mhas_fold_madd:
  "mhas (fold (\<lambda>(n, c). madd (f n) c) xs m) t \<longleftrightarrow> mhas m t \<or> (\<exists>(n, c)\<in>set xs. f n = t)"
  by (induction xs arbitrary: m) (auto split: prod.splits)

lemma aggregate_nodes_mhas:
  "mhas (fst (aggregate_nodes nodes)) t \<longleftrightarrow>
     (\<exists>(n, c)\<in>set (concat (map snd nodes)). NormalizeAcceleratorName n = t)"
  by (simp add: aggregate_nodes_flat fold_add_model mhas_fold_madd)

section \<open>The allocator honours the contract\<close>

definition ta_invar :: "type_allocator \<Rightarrow> bool" where
  "ta_invar a \<longleftrightarrow> wf_map (ta_remainingByType a) \<and> (\<forall>t. 0 \<le> mget 0 (ta_remainingByType a) t) \<and>
     ta_totalRemaining a = msum (ta_remainingByType a)"

lemma mkeys_madd_present: "mhas m k \<Longrightarrow> mkeys (madd k x m) = mkeys m"
  by (simp add: madd_def mhas_iff update_keys image_iff)

lemma resolve_pool_keys:
  "mkeys (ta_remainingByType a') = mkeys (ta_remainingByType a) \<Longrightarrow> resolve_pool a' d = resolve_pool a d"
  by (auto simp: resolve_pool_def split: list.splits)

text \<open>The result of one call, the two refusals folded into a grant of nothing.\<close>

lemma ta_TryAllocate_cases:
  assumes "ta_TryAllocate a d n = (g, d', a')"
  shows "(g = 0 \<and> a' = a \<or>
     (\<exists>t. resolve_pool a d = Some t \<and> 0 < n \<and> 0 < mget 0 (ta_remainingByType a) t \<and>
        g = min n (mget 0 (ta_remainingByType a) t) \<and>
        a' = a\<lparr>ta_remainingByType := madd t (- g) (ta_remainingByType a),
               ta_totalRemaining := ta_totalRemaining a - g\<rparr>)) \<and>
     (d' = d \<or> (\<exists>t. d' = d\<lparr>d_AcceleratorName := t\<rparr>))"
proof (cases "resolve_pool a d")
  case None
  then show ?thesis using assms by (simp add: ta_TryAllocate_def split: if_splits)
next
  case (Some t)
  then show ?thesis using assms
    by (simp add: ta_TryAllocate_def Let_def min_def split: if_splits) auto
qed

lemma ta_TryAllocate_full:
  "ta_TryAllocate a d n = (g, d', a') \<Longrightarrow> resolve_pool a d = Some t \<Longrightarrow> 0 < n \<Longrightarrow>
     n \<le> mget 0 (ta_remainingByType a) t \<Longrightarrow> g = n"
  by (auto simp: ta_TryAllocate_def Let_def split: if_splits)

interpretation type_alloc: resource_allocator ta_TryAllocate ta_invar resolve_pool
  "\<lambda>a t. mget 0 (ta_remainingByType a) t"
proof unfold_locales
  fix a d n g d' a' t q and e :: variant_decision
  assume inv: "ta_invar a" and call: "ta_TryAllocate a d n = (g, d', a')"
  let ?rem = "ta_remainingByType a"
  note c = ta_TryAllocate_cases [OF call]
  show "0 \<le> g \<and> g \<le> max 0 n" using c by auto
  show "same_request d d' \<and> d_TargetReplicas d' = d_TargetReplicas d \<and>
      d_WasLimited d' = d_WasLimited d \<and> d_LimitedBy d' = d_LimitedBy d"
    using c by (auto simp: same_request_def)
  show "g \<le> mget 0 ?rem t" if "resolve_pool a d = Some t"
    using c inv that by (auto simp: ta_invar_def)
  show "mget 0 (ta_remainingByType a') q = mget 0 ?rem q - (if resolve_pool a d = Some q then g else 0)"
    using c by auto
  have keys: "mkeys (ta_remainingByType a') = mkeys ?rem"
    using c by (auto intro!: mkeys_madd_present mhas_of_pos)
  then show "resolve_pool a' e = resolve_pool a e" by (rule resolve_pool_keys)
  show "ta_invar a'"
    using c inv keys by (auto simp: ta_invar_def msum_madd)
  show "g = n" if "resolve_pool a d = Some t" "0 < n" "n \<le> mget 0 ?rem t"
    using ta_TryAllocate_full [OF call] that by simp
next
  fix d e :: variant_decision and a
  assume "d_AcceleratorName e = d_AcceleratorName d"
  then show "resolve_pool a e = resolve_pool a d" by (simp add: resolve_pool_def)
qed (simp add: ta_invar_def)

lemma map_of_map_snd:
  "map_of (map (\<lambda>(k, v). (k, f k v)) m) t = map_option (f t) (map_of m t)"
  by (induction m) auto

lemma CreateAllocator_remaining:
  "mget 0 (ta_remainingByType (ti_CreateAllocator i)) t =
     (if mhas (ti_limitByType i) t then AvailableByType i t else 0)"
  by (simp add: ti_CreateAllocator_def AvailableByType_def mget_def map_of_map_snd mhas_def Let_def
      split: option.split)

lemma CreateAllocator_invar:
  assumes "wf_map (ti_limitByType i)"
  shows "ta_invar (ti_CreateAllocator i)"
proof -
  have "mkeys (ta_remainingByType (ti_CreateAllocator i)) = mkeys (ti_limitByType i)"
    by (simp add: ti_CreateAllocator_def comp_def case_prod_unfold)
  moreover have "0 \<le> mget 0 (ta_remainingByType (ti_CreateAllocator i)) t" for t
    by (simp add: CreateAllocator_remaining AvailableByType_def Let_def)
  ultimately show ?thesis
    using assms by (simp add: ta_invar_def) (simp add: ti_CreateAllocator_def)
qed

end
