(* ===== verification/Quota_Config.thy ===== *)
theory Quota_Config
  imports Domain
begin

text \<open>
  The operator-declared quota limiter entries (\<open>internal/config/quota_limiter.go\<close>): the
  namespace lookup rules and the validation of a block of entries.
\<close>

section \<open>Entries and lookup\<close>

type_synonym QuotaScope = string

definition QuotaScopeCluster :: QuotaScope where "QuotaScopeCluster = ''cluster''"
definition QuotaScopeNamespace :: QuotaScope where "QuotaScopeNamespace = ''namespace''"
definition QuotaLimiterReservedNamespaceKey :: string where
  "QuotaLimiterReservedNamespaceKey = ''default''"
definition QuotaUnlimited :: int where "QuotaUnlimited = - 1"
definition MaxQuotaValue :: int where "MaxQuotaValue = 2 ^ 20"

lemmas quota_consts = QuotaScopeCluster_def QuotaScopeNamespace_def
  QuotaLimiterReservedNamespaceKey_def QuotaUnlimited_def MaxQuotaValue_def

lemma scopes_differ [simp]:
  "QuotaScopeCluster \<noteq> QuotaScopeNamespace" "QuotaScopeNamespace \<noteq> QuotaScopeCluster"
  by (simp_all add: quota_consts)

record quota_limiter_config =
  q_Name :: string
  q_Type :: string
  q_Scope :: QuotaScope
  q_ClusterQuotas :: "(string, int) gomap"
  q_NamespaceQuotas :: "(string, (string, int) gomap) gomap"
  q_Exclude :: "string list"

definition IsExcluded :: "quota_limiter_config \<Rightarrow> string \<Rightarrow> bool" where
  "IsExcluded q ns = (if q_Scope q \<noteq> QuotaScopeNamespace then False else ns \<in> set (q_Exclude q))"

text \<open>The second component says that the namespace bypasses the limiter.\<close>

definition QuotaForNamespace :: "quota_limiter_config \<Rightarrow> string \<Rightarrow> (string, int) gomap \<times> bool" where
  "QuotaForNamespace q ns =
     (if q_Scope q \<noteq> QuotaScopeNamespace then ([], False)
      else if IsExcluded q ns then ([], True)
      else case map_of (q_NamespaceQuotas q) ns of
        Some quotas \<Rightarrow> (quotas, False)
      | None \<Rightarrow> (case map_of (q_NamespaceQuotas q) QuotaLimiterReservedNamespaceKey of
          Some quotas \<Rightarrow> (quotas, False)
        | None \<Rightarrow> ([], False)))"

section \<open>Validation\<close>

datatype quota_error =
    EmptyName nat
  | DuplicateName nat string nat
  | BadType nat string string
  | NamespaceQuotasForCluster nat string
  | ExcludeForCluster nat string
  | QuotasForNamespace nat string
  | EmptyExclude nat string
  | EmptyNamespaceKey nat string
  | BadScope nat string string
  | EmptyAccType
  | QuotaTooLow string int
  | QuotaTooHigh string int

datatype quota_warning = ExcludedAndQuoted nat string string

text \<open>\<open>strings.TrimSpace(s) == ""\<close>, for the ASCII white space.\<close>

definition is_space :: "char \<Rightarrow> bool" where
  "is_space c \<longleftrightarrow> c \<in> {CHR 0x20, CHR 0x09, CHR 0x0A, CHR 0x0B, CHR 0x0C, CHR 0x0D}"

definition blank :: "string \<Rightarrow> bool" where
  "blank s = list_all is_space s"

fun validateTypeQuotaMap :: "(string, int) gomap \<Rightarrow> quota_error list" where
  "validateTypeQuotaMap [] = []"
| "validateTypeQuotaMap ((accType, value) # rest) =
     (if blank accType then [EmptyAccType]
      else (if value < QuotaUnlimited then [QuotaTooLow accType value] else []) @
           (if value > MaxQuotaValue then [QuotaTooHigh accType value] else []))
     @ validateTypeQuotaMap rest"

fun validate_namespaces :: "nat \<Rightarrow> quota_limiter_config \<Rightarrow> (string, (string, int) gomap) gomap \<Rightarrow>
    quota_warning list \<times> quota_error list" where
  "validate_namespaces i q [] = ([], [])"
| "validate_namespaces i q ((ns, perType) # rest) =
     (let (ws, es) = validate_namespaces i q rest in
      if blank ns then (ws, EmptyNamespaceKey i (q_Name q) # es)
      else ((if IsExcluded q ns then [ExcludedAndQuoted i (q_Name q) ns] else []) @ ws,
            validateTypeQuotaMap perType @ es))"

definition validate_entry :: "nat \<Rightarrow> quota_limiter_config \<Rightarrow> quota_warning list \<times> quota_error list" where
  "validate_entry i q =
     (let ty = (if q_Type q \<noteq> ''quota'' then [BadType i (q_Name q) (q_Type q)] else []) in
      if q_Scope q = QuotaScopeCluster then
        ([], ty @
             (if q_NamespaceQuotas q \<noteq> [] then [NamespaceQuotasForCluster i (q_Name q)] else []) @
             (if q_Exclude q \<noteq> [] then [ExcludeForCluster i (q_Name q)] else []) @
             validateTypeQuotaMap (q_ClusterQuotas q))
      else if q_Scope q = QuotaScopeNamespace then
        (let (ws, es) = validate_namespaces i q (q_NamespaceQuotas q) in
         (ws, ty @
              (if q_ClusterQuotas q \<noteq> [] then [QuotasForNamespace i (q_Name q)] else []) @
              map (\<lambda>_. EmptyExclude i (q_Name q)) (filter blank (q_Exclude q)) @ es))
      else ([], ty @ [BadScope i (q_Name q) (q_Scope q)]))"

text \<open>
  The loop over the entries.  A nameless entry and a repeated name end the checks of that entry;
  \<open>seen\<close> holds the index where each name was first met.
\<close>

fun validate_loop :: "nat \<Rightarrow> (string, nat) gomap \<Rightarrow> quota_limiter_config list \<Rightarrow>
    quota_warning list \<times> quota_error list" where
  "validate_loop i seen [] = ([], [])"
| "validate_loop i seen (q # qs) =
     (if q_Name q = [] then
        (let (ws, es) = validate_loop (Suc i) seen qs in (ws, EmptyName i # es))
      else case map_of seen (q_Name q) of
        Some prev \<Rightarrow>
          (let (ws, es) = validate_loop (Suc i) seen qs in (ws, DuplicateName i (q_Name q) prev # es))
      | None \<Rightarrow>
          (let (ws, es) = validate_loop (Suc i) (mput (q_Name q) i seen) qs;
               (ws1, es1) = validate_entry i q
           in (ws1 @ ws, es1 @ es)))"

definition Validate_entries :: "quota_limiter_config list \<Rightarrow> quota_warning list \<times> quota_error list" where
  "Validate_entries qs = validate_loop 0 [] qs"

section \<open>What a validated block guarantees\<close>

definition wf_quota_map :: "(string, int) gomap \<Rightarrow> bool" where
  "wf_quota_map m \<longleftrightarrow> (\<forall>(t, v)\<in>set m. \<not> blank t \<and> QuotaUnlimited \<le> v \<and> v \<le> MaxQuotaValue)"

definition wf_entry :: "quota_limiter_config \<Rightarrow> bool" where
  "wf_entry q \<longleftrightarrow> q_Name q \<noteq> [] \<and> q_Type q = ''quota'' \<and>
     (q_Scope q = QuotaScopeCluster \<and> q_NamespaceQuotas q = [] \<and> q_Exclude q = [] \<and>
        wf_quota_map (q_ClusterQuotas q)
      \<or> q_Scope q = QuotaScopeNamespace \<and> q_ClusterQuotas q = [] \<and>
        (\<forall>ns\<in>set (q_Exclude q). \<not> blank ns) \<and>
        (\<forall>(ns, m)\<in>set (q_NamespaceQuotas q). \<not> blank ns \<and> wf_quota_map m))"

lemma validateTypeQuotaMap_ok: "validateTypeQuotaMap m = [] \<longleftrightarrow> wf_quota_map m"
  by (induction m rule: validateTypeQuotaMap.induct) (auto simp: wf_quota_map_def not_less)

lemma validate_namespaces_ok:
  "snd (validate_namespaces i q m) = [] \<longleftrightarrow> (\<forall>(ns, p)\<in>set m. \<not> blank ns \<and> wf_quota_map p)"
  by (induction i q m rule: validate_namespaces.induct)
    (auto simp: validateTypeQuotaMap_ok split: prod.splits)

lemma validate_entry_ok:
  "q_Name q \<noteq> [] \<Longrightarrow> snd (validate_entry i q) = [] \<longleftrightarrow> wf_entry q"
  using validate_namespaces_ok [of i q "q_NamespaceQuotas q"]
  by (auto simp: validate_entry_def wf_entry_def validateTypeQuotaMap_ok filter_empty_conv Let_def
      split: prod.splits)

lemma validate_loop_ok:
  "snd (validate_loop i seen qs) = [] \<longleftrightarrow>
     list_all wf_entry qs \<and> distinct (map q_Name qs) \<and>
     (\<forall>q\<in>set qs. map_of seen (q_Name q) = None)"
proof (induction qs arbitrary: i seen)
  case (Cons q qs)
  show ?case
  proof (cases "q_Name q = []")
    case True
    then show ?thesis by (simp add: wf_entry_def split: prod.splits)
  next
    case False
    show ?thesis
    proof (cases "map_of seen (q_Name q)")
      case None
      have "snd (validate_loop i seen (q # qs)) = [] \<longleftrightarrow> wf_entry q \<and>
          snd (validate_loop (Suc i) (mput (q_Name q) i seen) qs) = []"
        using False None validate_entry_ok [OF False, of i] by (auto split: prod.splits)
      moreover have "(\<forall>p\<in>set qs. map_of (mput (q_Name q) i seen) (q_Name p) = None) \<longleftrightarrow>
          q_Name q \<notin> q_Name ` set qs \<and> (\<forall>p\<in>set qs. map_of seen (q_Name p) = None)"
        unfolding update_conv' by (rule fresh_key)
      ultimately show ?thesis
        using Cons.IH [of "Suc i" "mput (q_Name q) i seen"] None by auto
    qed (use False in \<open>simp split: prod.splits\<close>)
  qed
qed simp

text \<open>A quota read from a validated entry is the unlimited sentinel or a bounded count.\<close>

lemma QuotaForNamespace_in:
  "map_of (fst (QuotaForNamespace q ns)) t = Some v \<Longrightarrow>
     \<exists>k m. (k, m) \<in> set (q_NamespaceQuotas q) \<and> (t, v) \<in> set m"
  by (auto simp: QuotaForNamespace_def split: if_splits option.splits dest!: map_of_SomeD)

end
