(* ===== verification/Quota_Inventory.thy ===== *)
theory Quota_Inventory
  imports Type_Inventory Quota_Config
begin

text \<open>
  The quota inventory (\<open>quota_inventory.go\<close>): usage against the operator-declared caps of
  one configuration entry, and its allocator for both scopes.  Locks are left out: every operation
  is one atomic step.  The allocator is shown to honour the contract of
  \<open>resource_allocator\<close>.
\<close>

section \<open>The inventory\<close>

type_synonym ns_usage = "(string, (string, int) gomap) gomap"

record quota_inventory =
  qi_name :: string
  qi_cfg :: quota_limiter_config
  qi_usedByType :: "(string, int) gomap"
  qi_usedByNS :: ns_usage

definition NewQuotaInventory :: "quota_limiter_config \<Rightarrow> quota_inventory" where
  "NewQuotaInventory cfg = \<lparr>qi_name = q_Name cfg, qi_cfg = cfg, qi_usedByType = [], qi_usedByNS = []\<rparr>"

definition qi_SetUsed :: "(string, int) gomap \<Rightarrow> quota_inventory \<Rightarrow> quota_inventory" where
  "qi_SetUsed usedByType q =
     (if q_Scope (qi_cfg q) \<noteq> QuotaScopeCluster then q else q\<lparr>qi_usedByType := usedByType\<rparr>)"

definition qi_SetUsedByNamespace :: "ns_usage \<Rightarrow> quota_inventory \<Rightarrow> quota_inventory" where
  "qi_SetUsedByNamespace usedByNS q =
     (if q_Scope (qi_cfg q) \<noteq> QuotaScopeNamespace then q else q\<lparr>qi_usedByNS := usedByNS\<rparr>)"

text \<open>The namespaces a total ranges over: neither the reserved key nor an excluded one.\<close>

definition counted_namespaces :: "quota_limiter_config \<Rightarrow> (string, (string, int) gomap) gomap" where
  "counted_namespaces cfg = filter (\<lambda>(ns, _).
     ns \<noteq> QuotaLimiterReservedNamespaceKey \<and> \<not> IsExcluded cfg ns) (q_NamespaceQuotas cfg)"

definition totalLimitLocked :: "quota_inventory \<Rightarrow> int" where
  "totalLimitLocked q =
     (if q_Scope (qi_cfg q) = QuotaScopeCluster then
        (\<Sum>(_, v)\<leftarrow>q_ClusterQuotas (qi_cfg q). if v = QuotaUnlimited then 0 else v)
      else if q_Scope (qi_cfg q) = QuotaScopeNamespace then
        (\<Sum>(ns, perType)\<leftarrow>counted_namespaces (qi_cfg q).
           \<Sum>(_, v)\<leftarrow>perType. if v = QuotaUnlimited then 0 else v)
      else 0)"

definition totalUsedLocked :: "quota_inventory \<Rightarrow> int" where
  "totalUsedLocked q =
     (if q_Scope (qi_cfg q) = QuotaScopeCluster then
        (\<Sum>(accType, limit)\<leftarrow>q_ClusterQuotas (qi_cfg q).
           if limit = QuotaUnlimited then 0 else mget 0 (qi_usedByType q) accType)
      else if q_Scope (qi_cfg q) = QuotaScopeNamespace then
        (\<Sum>(ns, perType)\<leftarrow>counted_namespaces (qi_cfg q).
           \<Sum>(accType, limit)\<leftarrow>perType.
             if limit = QuotaUnlimited then 0 else mget 0 (mget [] (qi_usedByNS q) ns) accType)
      else 0)"

definition qi_TotalAvailable :: "quota_inventory \<Rightarrow> int" where
  "qi_TotalAvailable q =
     (let avail = totalLimitLocked q - totalUsedLocked q in if avail < 0 then 0 else avail)"

definition zero_pool :: resource_pool where
  "zero_pool = \<lparr>rp_Limit = 0, rp_Used = 0\<rparr>"

text \<open>\<open>pool := pools[t]; pool.Limit += l; pool.Used += u; pools[t] = pool\<close>.\<close>

definition add_pool :: "string \<Rightarrow> int \<Rightarrow> int \<Rightarrow> (string, resource_pool) gomap \<Rightarrow>
    (string, resource_pool) gomap" where
  "add_pool t l u pools = (let p = mget zero_pool pools t in
     mput t \<lparr>rp_Limit = rp_Limit p + l, rp_Used = rp_Used p + u\<rparr> pools)"

definition qi_GetResourcePools :: "quota_inventory \<Rightarrow> (string, resource_pool) gomap" where
  "qi_GetResourcePools q =
     (if q_Scope (qi_cfg q) = QuotaScopeCluster then
        map (\<lambda>(accType, limit).
          (accType, \<lparr>rp_Limit = limit, rp_Used = mget 0 (qi_usedByType q) accType\<rparr>))
          (q_ClusterQuotas (qi_cfg q))
      else if q_Scope (qi_cfg q) = QuotaScopeNamespace then
        fold (\<lambda>(ns, perType). fold (\<lambda>(accType, limit) pools.
            if limit = QuotaUnlimited then pools
            else add_pool accType limit (mget 0 (mget [] (qi_usedByNS q) ns) accType) pools) perType)
          (counted_namespaces (qi_cfg q)) []
      else [])"

text \<open>\<^const>\<open>None\<close> is the nil map a cluster-scoped inventory returns.\<close>

type_synonym ns_pools = "(string, (string, resource_pool) gomap) gomap"

definition NamespaceResourcePools :: "quota_inventory \<Rightarrow> string list \<Rightarrow> ns_pools option" where
  "NamespaceResourcePools q activeNamespaces =
     (if q_Scope (qi_cfg q) \<noteq> QuotaScopeNamespace then None
      else Some (fold (\<lambda>ns out.
        let (quotas, excluded) = QuotaForNamespace (qi_cfg q) ns in
        if excluded then out
        else mput ns (fold (\<lambda>(accType, limit).
               mput accType \<lparr>rp_Limit = limit, rp_Used = mget 0 (mget [] (qi_usedByNS q) ns) accType\<rparr>)
             quotas (mget [] out ns)) out) activeNamespaces []))"

section \<open>The allocator\<close>

record quota_allocator =
  qa_name :: string
  qa_scope :: QuotaScope
  qa_cfg :: quota_limiter_config
  qa_usedByType :: "(string, int) gomap"
  qa_usedByNS :: ns_usage

definition qi_CreateAllocator :: "quota_inventory \<Rightarrow> quota_allocator" where
  "qi_CreateAllocator q = \<lparr>qa_name = qi_name q, qa_scope = q_Scope (qi_cfg q), qa_cfg = qi_cfg q,
     qa_usedByType = qi_usedByType q, qa_usedByNS = qi_usedByNS q\<rparr>"

definition tryAllocateCluster :: "string \<Rightarrow> int \<Rightarrow> quota_allocator \<Rightarrow> int \<times> quota_allocator" where
  "tryAllocateCluster accType gpusRequested a =
     (case map_of (q_ClusterQuotas (qa_cfg a)) accType of
        None \<Rightarrow> (0, a)
      | Some limit \<Rightarrow>
          if limit = QuotaUnlimited then (gpusRequested, a)
          else let available = limit - mget 0 (qa_usedByType a) accType in
            if available \<le> 0 then (0, a)
            else let granted = min gpusRequested available in
              (granted, a\<lparr>qa_usedByType := madd accType granted (qa_usedByType a)\<rparr>))"

definition tryAllocateNamespace ::
  "string \<Rightarrow> string \<Rightarrow> int \<Rightarrow> quota_allocator \<Rightarrow> int \<times> quota_allocator" where
  "tryAllocateNamespace ns accType gpusRequested a =
     (let (quotas, excluded) = QuotaForNamespace (qa_cfg a) ns in
      if excluded then (gpusRequested, a)
      else case map_of quotas accType of
        None \<Rightarrow> (0, a)
      | Some limit \<Rightarrow>
          if limit = QuotaUnlimited then (gpusRequested, a)
          else let a1 = (if mhas (qa_usedByNS a) ns then a
                         else a\<lparr>qa_usedByNS := mput ns [] (qa_usedByNS a)\<rparr>);
                   used = mget [] (qa_usedByNS a1) ns;
                   available = limit - mget 0 used accType in
            if available \<le> 0 then (0, a1)
            else let granted = min gpusRequested available in
              (granted, a1\<lparr>qa_usedByNS := mput ns (madd accType granted used) (qa_usedByNS a1)\<rparr>))"

definition formatLimitReason :: "quota_allocator \<Rightarrow> string \<Rightarrow> string \<Rightarrow> string" where
  "formatLimitReason a namespace accType =
     (if qa_scope a = QuotaScopeNamespace then
        ''limited by quota[scope=namespace, namespace='' @ namespace @ '', type='' @ accType @ '']''
      else ''limited by quota[scope='' @ qa_scope a @ '', type='' @ accType @ '']'')"

text \<open>An unknown scope is an error with a grant of nothing; the algorithm drops the error.\<close>

definition qa_TryAllocate :: "quota_allocator try_allocate" where
  "qa_TryAllocate a d gpusRequested =
     (if gpusRequested \<le> 0 then (0, d, a)
      else if d_AcceleratorName d = [] then
        (0, AddDecisionStep (qa_name a)
              (''denied by quota[scope='' @ qa_scope a @ '']: accelerator type unresolved'') True d, a)
      else if qa_scope a \<noteq> QuotaScopeCluster \<and> qa_scope a \<noteq> QuotaScopeNamespace then (0, d, a)
      else
        let (granted, a') =
              (if qa_scope a = QuotaScopeCluster then
                 tryAllocateCluster (d_AcceleratorName d) gpusRequested a
               else tryAllocateNamespace (d_Namespace d) (d_AcceleratorName d) gpusRequested a)
        in (granted,
            if granted < gpusRequested then
              AddDecisionStep (qa_name a)
                (formatLimitReason a (d_Namespace d) (d_AcceleratorName d)) True d
            else d, a'))"

definition qa_Remaining :: "quota_allocator \<Rightarrow> int" where
  "qa_Remaining a =
     (let left = (\<lambda>limit used. if limit = QuotaUnlimited then 0
                               else if limit - used > 0 then limit - used else 0) in
      if qa_scope a = QuotaScopeCluster then
        (\<Sum>(accType, limit)\<leftarrow>q_ClusterQuotas (qa_cfg a). left limit (mget 0 (qa_usedByType a) accType))
      else if qa_scope a = QuotaScopeNamespace then
        (\<Sum>(ns, perType)\<leftarrow>counted_namespaces (qa_cfg a).
           \<Sum>(accType, limit)\<leftarrow>perType. left limit (mget 0 (mget [] (qa_usedByNS a) ns) accType))
      else 0)"

section \<open>The allocator honours the contract\<close>

text \<open>
  A pool is a capped pair of namespace and type (the namespace is absent at cluster scope).  A type
  with no entry is a pool that holds nothing; an unlimited type and an excluded namespace charge no
  pool.
\<close>

type_synonym quota_pool = "string option \<times> string"

definition quota_cap :: "quota_limiter_config \<Rightarrow> quota_pool \<Rightarrow> int option" where
  "quota_cap cfg = (\<lambda>(ns, t). case ns of
     None \<Rightarrow> map_of (q_ClusterQuotas cfg) t
   | Some n \<Rightarrow> map_of (fst (QuotaForNamespace cfg n)) t)"

definition quota_used :: "quota_allocator \<Rightarrow> quota_pool \<Rightarrow> int" where
  "quota_used a = (\<lambda>(ns, t). case ns of
     None \<Rightarrow> mget 0 (qa_usedByType a) t
   | Some n \<Rightarrow> mget 0 (mget [] (qa_usedByNS a) n) t)"

definition quota_meter :: "quota_allocator \<Rightarrow> variant_decision \<Rightarrow> quota_pool option" where
  "quota_meter a d =
     (let ns = (if qa_scope a = QuotaScopeCluster then None else Some (d_Namespace d));
          pool = (ns, d_AcceleratorName d) in
      if d_AcceleratorName d = [] \<or>
         qa_scope a \<noteq> QuotaScopeCluster \<and>
           (qa_scope a \<noteq> QuotaScopeNamespace \<or> snd (QuotaForNamespace (qa_cfg a) (d_Namespace d))) \<or>
         quota_cap (qa_cfg a) pool = Some QuotaUnlimited
      then None else Some pool)"

definition quota_left :: "quota_allocator \<Rightarrow> quota_pool \<Rightarrow> int" where
  "quota_left a p = (case quota_cap (qa_cfg a) p of
     None \<Rightarrow> 0 | Some limit \<Rightarrow> max 0 (limit - quota_used a p))"

lemmas quota_pool_defs = quota_meter_def quota_left_def quota_cap_def quota_used_def

lemma tryAllocateCluster_spec:
  assumes "tryAllocateCluster t n a = (g, a')" and "0 < n"
  defines "unl \<equiv> quota_cap (qa_cfg a) (None, t) = Some QuotaUnlimited"
  shows "0 \<le> g \<and> g \<le> n \<and> qa_cfg a' = qa_cfg a \<and> qa_scope a' = qa_scope a"
    and "\<not> unl \<Longrightarrow> g = min n (quota_left a (None, t))"
    and "unl \<Longrightarrow> g = n"
    and "quota_left a' q = quota_left a q - (if \<not> unl \<and> q = (None, t) then g else 0)"
proof -
  note defs = tryAllocateCluster_def quota_pool_defs Let_def unl_def
  show "0 \<le> g \<and> g \<le> n \<and> qa_cfg a' = qa_cfg a \<and> qa_scope a' = qa_scope a"
    using assms(1,2) by (auto simp: defs split: option.splits if_splits)
  show "\<not> unl \<Longrightarrow> g = min n (quota_left a (None, t))"
    using assms(1,2) by (auto simp: defs split: option.splits if_splits)
  show "unl \<Longrightarrow> g = n"
    using assms(1) by (auto simp: defs)
  show "quota_left a' q = quota_left a q - (if \<not> unl \<and> q = (None, t) then g else 0)"
    using assms(1,2) by (cases q; cases "fst q") (auto simp: defs split: option.splits if_splits)
qed

lemma tryAllocateNamespace_spec:
  assumes "tryAllocateNamespace ns t n a = (g, a')" and "0 < n"
  defines "unl \<equiv> snd (QuotaForNamespace (qa_cfg a) ns) \<or>
     quota_cap (qa_cfg a) (Some ns, t) = Some QuotaUnlimited"
  shows "0 \<le> g \<and> g \<le> n \<and> qa_cfg a' = qa_cfg a \<and> qa_scope a' = qa_scope a"
    and "\<not> unl \<Longrightarrow> g = min n (quota_left a (Some ns, t))"
    and "unl \<Longrightarrow> g = n"
    and "quota_left a' q = quota_left a q - (if \<not> unl \<and> q = (Some ns, t) then g else 0)"
proof -
  note defs = tryAllocateNamespace_def quota_pool_defs Let_def unl_def mget_absent case_prod_unfold
  show "0 \<le> g \<and> g \<le> n \<and> qa_cfg a' = qa_cfg a \<and> qa_scope a' = qa_scope a"
    using assms(1,2) by (auto simp: defs split: option.splits if_splits)
  show "\<not> unl \<Longrightarrow> g = min n (quota_left a (Some ns, t))"
    using assms(1,2) by (auto simp: defs split: option.splits if_splits)
  show "unl \<Longrightarrow> g = n"
    using assms(1) by (auto simp: defs split: if_splits)
  show "quota_left a' q = quota_left a q - (if \<not> unl \<and> q = (Some ns, t) then g else 0)"
    using assms(1,2) by (cases q; cases "fst q") (auto simp: defs split: option.splits if_splits)
qed

text \<open>One call: what it grants, what it charges, and what it leaves alone.\<close>

lemma qa_TryAllocate_call:
  assumes "qa_TryAllocate a d n = (g, d', a')"
  shows "0 \<le> g \<and> g \<le> max 0 n \<and> qa_cfg a' = qa_cfg a \<and> qa_scope a' = qa_scope a"
    and "quota_meter a d = Some p \<Longrightarrow> g = min (max 0 n) (quota_left a p)"
    and "quota_left a' q = quota_left a q - (if quota_meter a d = Some q then g else 0)"
    and "d' = d \<or> (\<exists>name r. d' = AddDecisionStep name r True d)"
proof -
  let ?t = "d_AcceleratorName d" and ?ns = "d_Namespace d"
  have nn: "0 \<le> quota_left a p" by (simp add: quota_left_def split: option.split)
  consider (none) "n \<le> 0" | (blank) "0 < n" "?t = []"
    | (scope) "0 < n" "?t \<noteq> []" "qa_scope a \<noteq> QuotaScopeCluster" "qa_scope a \<noteq> QuotaScopeNamespace"
    | (cluster) "0 < n" "?t \<noteq> []" "qa_scope a = QuotaScopeCluster"
    | (ns) "0 < n" "?t \<noteq> []" "qa_scope a = QuotaScopeNamespace"
    by force
  note cases = this
  show "0 \<le> g \<and> g \<le> max 0 n \<and> qa_cfg a' = qa_cfg a \<and> qa_scope a' = qa_scope a"
    using cases assms
    by cases (auto simp: qa_TryAllocate_def dest: tryAllocateCluster_spec(1) tryAllocateNamespace_spec(1)
        split: prod.splits)
  show "g = min (max 0 n) (quota_left a p)" if "quota_meter a d = Some p"
    using cases assms that nn
    by cases (auto simp: qa_TryAllocate_def quota_meter_def Let_def
        dest: tryAllocateCluster_spec(2) tryAllocateNamespace_spec(2) split: prod.splits if_splits)
  show "quota_left a' q = quota_left a q - (if quota_meter a d = Some q then g else 0)"
    using cases assms
    by cases (auto simp: qa_TryAllocate_def quota_meter_def Let_def
        dest: tryAllocateCluster_spec(4) [where q = q] tryAllocateNamespace_spec(4) [where q = q]
        split: prod.splits if_splits)
  show "d' = d \<or> (\<exists>name r. d' = AddDecisionStep name r True d)"
    using assms by (auto simp: qa_TryAllocate_def split: prod.splits if_splits)
qed

lemma AddDecisionStep_frame [simp]:
  "same_request d (AddDecisionStep n r c d)" "d_WasLimited (AddDecisionStep n r c d) = d_WasLimited d"
  "d_TargetReplicas (AddDecisionStep n r c d) = d_TargetReplicas d"
  "d_AcceleratorName (AddDecisionStep n r c d) = d_AcceleratorName d"
  "d_LimitedBy (AddDecisionStep n r c d) = d_LimitedBy d"
  by (simp_all add: AddDecisionStep_def same_request_def)

interpretation quota_alloc: resource_allocator qa_TryAllocate "\<lambda>_. True" quota_meter quota_left
proof unfold_locales
  fix a d n g d' a' t q and e :: variant_decision
  assume call: "qa_TryAllocate a d n = (g, d', a')"
  note c = qa_TryAllocate_call [OF call]
  show "0 \<le> g \<and> g \<le> max 0 n" using c(1) by simp
  show "same_request d d' \<and> d_TargetReplicas d' = d_TargetReplicas d \<and>
      d_WasLimited d' = d_WasLimited d \<and> d_LimitedBy d' = d_LimitedBy d"
    using c(4) by auto
  show "g \<le> quota_left a t" if "quota_meter a d = Some t" using c(2) [OF that] by simp
  show "quota_left a' q = quota_left a q - (if quota_meter a d = Some q then g else 0)" by (rule c(3))
  show "quota_meter a' e = quota_meter a e" using c(1) by (simp add: quota_meter_def)
  show "g = n" if "quota_meter a d = Some t" "0 < n" "n \<le> quota_left a t"
    using c(2) [OF that(1)] that by simp
next
  fix d e :: variant_decision and a
  assume "d_AcceleratorName e = d_AcceleratorName d" "d_Namespace e = d_Namespace d"
  then show "quota_meter a e = quota_meter a d" by (simp add: quota_meter_def)
qed (simp_all add: quota_left_def split: option.split)

end
