(* ===== verification/Limiter.thy ===== *)
theory Limiter
  imports Quota_Inventory
begin

text \<open>
  The limiters (\<open>default_limiter.go\<close>, \<open>composite_limiter.go\<close>,
  \<open>noop_limiter.go\<close>, \<open>limiter_factory.go\<close>): the pass that refreshes an inventory,
  charges the running replicas to it, runs the allocation algorithm and annotates the decisions;
  the sequential composition of limiters; and the constraints they expose to the optimizers.  Node
  discovery is an argument; the limited-decisions counter is left out.
\<close>

section \<open>The two inventories behind one interface\<close>

datatype inventory = TypeInv type_inventory | QuotaInv quota_inventory

definition inv_Refresh :: "string + node_inventory \<Rightarrow> inventory \<Rightarrow> inventory_error + inventory" where
  "inv_Refresh discovered iv = (case iv of
     TypeInv i \<Rightarrow> (case ti_Refresh discovered i of Inl e \<Rightarrow> Inl e | Inr i' \<Rightarrow> Inr (TypeInv i'))
   | QuotaInv q \<Rightarrow> Inr (QuotaInv q))"

definition inv_SetUsed :: "(string, int) gomap \<Rightarrow> inventory \<Rightarrow> inventory" where
  "inv_SetUsed used iv = (case iv of
     TypeInv i \<Rightarrow> TypeInv (ti_SetUsed used i) | QuotaInv q \<Rightarrow> QuotaInv (qi_SetUsed used q))"

text \<open>Only the quota inventory is namespace-aware.\<close>

definition inv_SetUsedByNamespace :: "ns_usage \<Rightarrow> inventory \<Rightarrow> inventory" where
  "inv_SetUsedByNamespace used iv = (case iv of
     TypeInv i \<Rightarrow> TypeInv i | QuotaInv q \<Rightarrow> QuotaInv (qi_SetUsedByNamespace used q))"

definition inv_GetResourcePools :: "inventory \<Rightarrow> (string, resource_pool) gomap" where
  "inv_GetResourcePools iv = (case iv of
     TypeInv i \<Rightarrow> ti_GetResourcePools i | QuotaInv q \<Rightarrow> qi_GetResourcePools q)"

definition inv_totals :: "inventory \<Rightarrow> int \<times> int \<times> int" where
  "inv_totals iv = (case iv of
     TypeInv i \<Rightarrow> (ti_totalLimit i, ti_totalUsed i, ti_TotalAvailable i)
   | QuotaInv q \<Rightarrow> (totalLimitLocked q, totalUsedLocked q, qi_TotalAvailable q))"

text \<open>\<open>CreateAllocator\<close> followed by the algorithm: the allocator lives for one pass.\<close>

definition allocate_with :: "inventory \<Rightarrow> variant_decision list \<Rightarrow> variant_decision list" where
  "allocate_with iv ds = (case iv of
     TypeInv i \<Rightarrow> fst (greedy_Allocate ta_TryAllocate ds (ti_CreateAllocator i))
   | QuotaInv q \<Rightarrow> fst (greedy_Allocate qa_TryAllocate ds (qi_CreateAllocator q)))"

section \<open>The default limiter\<close>

record default_limiter =
  dl_name :: string
  dl_inventory :: inventory

definition resolveUnknownAccelerators :: "inventory \<Rightarrow> variant_decision list \<Rightarrow> variant_decision list" where
  "resolveUnknownAccelerators iv ds = (case inv_GetResourcePools iv of
     [(realType, _)] \<Rightarrow>
       map (\<lambda>d. if \<not> IsAcceleratorResolved (d_AcceleratorName d)
                then d\<lparr>d_AcceleratorName := realType\<rparr> else d) ds
   | _ \<Rightarrow> ds)"

definition calculateUsedGPUs :: "variant_decision list \<Rightarrow> (string, int) gomap" where
  "calculateUsedGPUs ds = fold (\<lambda>d used.
     if d_AcceleratorName d = [] then used
     else madd (d_AcceleratorName d) (d_CurrentReplicas d * d_GPUsPerReplica d) used) ds []"

definition calculateUsedGPUsByNamespace :: "variant_decision list \<Rightarrow> ns_usage" where
  "calculateUsedGPUsByNamespace ds = fold (\<lambda>d used.
     if d_AcceleratorName d = [] \<or> d_Namespace d = [] then used
     else mput (d_Namespace d)
       (madd (d_AcceleratorName d) (d_CurrentReplicas d * d_GPUsPerReplica d)
         (mget [] used (d_Namespace d))) used) ds []"

definition buildStepReason :: "variant_decision \<Rightarrow> bool \<Rightarrow> string" where
  "buildStepReason d limited =
     (let replicaChange = d_TargetReplicas d - d_CurrentReplicas d in
      if replicaChange \<le> 0 then
        ''no scale-up (target='' @ itoa (d_TargetReplicas d) @ '', current='' @
          itoa (d_CurrentReplicas d) @ '')''
      else if limited then
        ''limited: allocated '' @ itoa (d_GPUsAllocated d) @ '' GPUs for +'' @ itoa replicaChange @ '' replicas''
      else
        ''allocated '' @ itoa (d_GPUsAllocated d) @ '' GPUs for +'' @ itoa replicaChange @ '' replicas'')"

definition update_metadata :: "string \<Rightarrow> variant_decision \<Rightarrow> variant_decision \<Rightarrow> variant_decision" where
  "update_metadata name before d =
     (let d1 = (if d_WasLimited d \<and> \<not> d_WasLimited before then d\<lparr>d_LimitedBy := name\<rparr> else d);
          reducedHere = (d_WasLimited d1 \<and> d_TargetReplicas d1 < d_TargetReplicas before)
      in AddDecisionStep name (buildStepReason d1 reducedHere) reducedHere d1)"

definition updateDecisionMetadata ::
  "string \<Rightarrow> variant_decision list \<Rightarrow> variant_decision list \<Rightarrow> variant_decision list" where
  "updateDecisionMetadata name before ds = map2 (update_metadata name) before ds"

datatype limiter_error =
    RefreshFailed inventory_error
  | ConstituentFailed string nat string limiter_error

text \<open>
  The error, the decisions and the limiter after a call.  The decisions are modified in place, so
  they are part of the result even when there is an error.
\<close>

definition Limit :: "string + node_inventory \<Rightarrow> default_limiter \<Rightarrow> variant_decision list \<Rightarrow>
    limiter_error option \<times> variant_decision list \<times> default_limiter" where
  "Limit discovered l ds =
     (if ds = [] then (None, ds, l)
      else case inv_Refresh discovered (dl_inventory l) of
        Inl e \<Rightarrow> (Some (RefreshFailed e), ds, l)
      | Inr iv \<Rightarrow>
          let ds1 = resolveUnknownAccelerators iv ds;
              iv' = inv_SetUsedByNamespace (calculateUsedGPUsByNamespace ds1)
                       (inv_SetUsed (calculateUsedGPUs ds1) iv);
              ds2 = allocate_with iv' ds1
          in (None, updateDecisionMetadata (dl_name l) ds1 ds2, l\<lparr>dl_inventory := iv'\<rparr>))"

section \<open>Constraints for the optimizers\<close>

record resource_constraints =
  con_ProviderName :: string
  con_Pools :: "(string, resource_pool) gomap"
  con_NamespacePools :: "ns_pools"
  con_TotalLimit :: int
  con_TotalUsed :: int
  con_TotalAvail :: int

definition aggregateNamespacePools :: "ns_pools \<Rightarrow> (string, resource_pool) gomap" where
  "aggregateNamespacePools nsPools = fold (\<lambda>(_, perType). fold (\<lambda>(accType, pool) agg.
     if rp_Limit pool < 0 then agg else add_pool accType (rp_Limit pool) (rp_Used pool) agg) perType)
     nsPools []"

definition poolTotals :: "(string, resource_pool) gomap \<Rightarrow> int \<times> int \<times> int" where
  "poolTotals pools =
     (let limit = (\<Sum>(_, p)\<leftarrow>pools. rp_Limit p); used = (\<Sum>(_, p)\<leftarrow>pools. rp_Used p);
          avail = limit - used
      in (limit, used, if avail < 0 then 0 else avail))"

definition ComputeConstraints :: "string + node_inventory \<Rightarrow> (string, int) gomap \<Rightarrow> ns_usage \<Rightarrow>
    default_limiter \<Rightarrow> (limiter_error + resource_constraints) \<times> default_limiter" where
  "ComputeConstraints discovered usageByType usageByNamespace l =
     (case inv_Refresh discovered (dl_inventory l) of
        Inl e \<Rightarrow> (Inl (RefreshFailed e), l)
      | Inr iv \<Rightarrow>
          let iv1 = inv_SetUsed usageByType iv;
              (tl, tu, ta) = inv_totals iv1;
              rc = \<lparr>con_ProviderName = dl_name l, con_Pools = inv_GetResourcePools iv1,
                    con_NamespacePools = [], con_TotalLimit = tl, con_TotalUsed = tu,
                    con_TotalAvail = ta\<rparr>
          in case inv_SetUsedByNamespace usageByNamespace iv1 of
               TypeInv i \<Rightarrow> (Inr rc, l\<lparr>dl_inventory := TypeInv i\<rparr>)
             | QuotaInv q \<Rightarrow>
                 (case NamespaceResourcePools q (mkeys usageByNamespace) of
                    Some (p # ps) \<Rightarrow>
                      (let pools = aggregateNamespacePools (p # ps); (l', u', a') = poolTotals pools in
                       (Inr (rc\<lparr>con_NamespacePools := p # ps, con_Pools := pools,
                                con_TotalLimit := l', con_TotalUsed := u', con_TotalAvail := a'\<rparr>),
                        l\<lparr>dl_inventory := QuotaInv q\<rparr>))
                  | _ \<Rightarrow> (Inr rc, l\<lparr>dl_inventory := QuotaInv q\<rparr>)))"

section \<open>Composition\<close>

datatype limiter =
    DefaultLimiter default_limiter
  | CompositeLimiter string "limiter list"
  | NoOpLimiter string

definition limiter_name :: "limiter \<Rightarrow> string" where
  "limiter_name l = (case l of
     DefaultLimiter d \<Rightarrow> dl_name d | CompositeLimiter name _ \<Rightarrow> name | NoOpLimiter name \<Rightarrow> name)"

fun limit :: "string + node_inventory \<Rightarrow> limiter \<Rightarrow> variant_decision list \<Rightarrow>
    limiter_error option \<times> variant_decision list \<times> limiter"
  and limit_all :: "string + node_inventory \<Rightarrow> string \<Rightarrow> nat \<Rightarrow> limiter list \<Rightarrow> variant_decision list \<Rightarrow>
    limiter_error option \<times> variant_decision list \<times> limiter list" where
  "limit disc (NoOpLimiter name) ds = (None, ds, NoOpLimiter name)"
| "limit disc (DefaultLimiter l) ds =
     (let (e, ds', l') = Limit disc l ds in (e, ds', DefaultLimiter l'))"
| "limit disc (CompositeLimiter name ls) ds =
     (if ds = [] \<or> ls = [] then (None, ds, CompositeLimiter name ls)
      else let (e, ds', ls') = limit_all disc name 0 ls ds in (e, ds', CompositeLimiter name ls'))"
| "limit_all disc name i [] ds = (None, ds, [])"
| "limit_all disc name i (l # ls) ds =
     (let (e, ds1, l') = limit disc l ds in
      case e of
        Some err \<Rightarrow> (Some (ConstituentFailed name i (limiter_name l) err), ds1, l' # ls)
      | None \<Rightarrow> (let (e', ds2, ls') = limit_all disc name (Suc i) ls ds1 in (e', ds2, l' # ls')))"

section \<open>The factory\<close>

datatype factory_error = UnknownLimiterType string | NoQuotaEntries

definition LimiterTypeInventory :: string where "LimiterTypeInventory = ''inventory''"
definition LimiterTypeQuota :: string where "LimiterTypeQuota = ''quota''"

definition newInventoryLimiter :: limiter where
  "newInventoryLimiter = DefaultLimiter \<lparr>dl_name = ''gpu-limiter'',
     dl_inventory = TypeInv (NewTypeInventory ''cluster-gpu-inventory'')\<rparr>"

definition newQuotaLimiter :: "quota_limiter_config list \<Rightarrow> factory_error + limiter" where
  "newQuotaLimiter entries =
     (if entries = [] then Inl NoQuotaEntries
      else case map (\<lambda>entry. DefaultLimiter \<lparr>dl_name = q_Name entry,
                                 dl_inventory = QuotaInv (NewQuotaInventory entry)\<rparr>) entries of
          [l] \<Rightarrow> Inr l
        | ls \<Rightarrow> Inr (CompositeLimiter ''quota-limiter'' ls))"

definition NewLimiterFromConfig :: "string \<Rightarrow> quota_limiter_config list \<Rightarrow> factory_error + limiter" where
  "NewLimiterFromConfig mode entries =
     (if mode = LimiterTypeInventory then Inr newInventoryLimiter
      else if mode = LimiterTypeQuota then newQuotaLimiter entries
      else Inl (UnknownLimiterType mode))"

section \<open>Usage\<close>

text \<open>GPUs of the chosen decisions, before and after scaling.\<close>

definition current_gpus :: "(variant_decision \<Rightarrow> bool) \<Rightarrow> variant_decision list \<Rightarrow> int" where
  "current_gpus P ds = (\<Sum>d\<leftarrow>ds. if P d then d_CurrentReplicas d * d_GPUsPerReplica d else 0)"

definition target_gpus :: "(variant_decision \<Rightarrow> bool) \<Rightarrow> variant_decision list \<Rightarrow> int" where
  "target_gpus P ds = (\<Sum>d\<leftarrow>ds. if P d then d_TargetReplicas d * d_GPUsPerReplica d else 0)"

definition on_type :: "string \<Rightarrow> variant_decision \<Rightarrow> bool" where
  "on_type t d \<longleftrightarrow> d_AcceleratorName d = t"

definition in_ns :: "string \<Rightarrow> string \<Rightarrow> variant_decision \<Rightarrow> bool" where
  "in_ns ns t d \<longleftrightarrow> d_Namespace d = ns \<and> d_AcceleratorName d = t"

lemma calculateUsedGPUs_mget:
  "t \<noteq> [] \<Longrightarrow> mget 0 (calculateUsedGPUs ds) t = current_gpus (on_type t) ds"
proof -
  assume t: "t \<noteq> []"
  have "mget 0 (fold (\<lambda>d used. if d_AcceleratorName d = [] then used
      else madd (d_AcceleratorName d) (d_CurrentReplicas d * d_GPUsPerReplica d) used) ds m) t
      = mget 0 m t + current_gpus (on_type t) ds" for m
    using t by (induction ds arbitrary: m) (auto simp: current_gpus_def on_type_def)
  then show ?thesis by (simp add: calculateUsedGPUs_def)
qed

lemma calculateUsedGPUsByNamespace_mget:
  "t \<noteq> [] \<Longrightarrow> ns \<noteq> [] \<Longrightarrow>
     mget 0 (mget [] (calculateUsedGPUsByNamespace ds) ns) t = current_gpus (in_ns ns t) ds"
proof -
  assume t: "t \<noteq> []" "ns \<noteq> []"
  have "mget 0 (mget [] (fold (\<lambda>d used. if d_AcceleratorName d = [] \<or> d_Namespace d = [] then used
      else mput (d_Namespace d) (madd (d_AcceleratorName d) (d_CurrentReplicas d * d_GPUsPerReplica d)
         (mget [] used (d_Namespace d))) used) ds m) ns) t
      = mget 0 (mget [] m ns) t + current_gpus (in_ns ns t) ds" for m
    using t by (induction ds arbitrary: m) (auto simp: current_gpus_def in_ns_def)
  then show ?thesis by (simp add: calculateUsedGPUsByNamespace_def)
qed

section \<open>What one pass does to each decision\<close>

text \<open>
  A pass never asks for more, keeps a resolved accelerator, and keeps the mark and the attribution
  of a decision that was limited before.
\<close>

definition tightened :: "variant_decision \<Rightarrow> variant_decision \<Rightarrow> bool" where
  "tightened d d' \<longleftrightarrow> same_request d d' \<and>
     (floor_free d \<longrightarrow> d_TargetReplicas d' \<le> d_TargetReplicas d) \<and>
     (IsAcceleratorResolved (d_AcceleratorName d) \<longrightarrow> d_AcceleratorName d' = d_AcceleratorName d) \<and>
     (d_WasLimited d \<longrightarrow> d_WasLimited d' \<and> d_LimitedBy d' = d_LimitedBy d)"

lemma tightened_refl [simp]: "tightened d d"
  by (simp add: tightened_def)

lemma tightened_trans: "tightened a b \<Longrightarrow> tightened b c \<Longrightarrow> tightened a c"
  by (auto simp: tightened_def same_request_def floor_free_def split: option.splits)

lemma allocateForDecision_name:
  assumes "\<And>d2 a2 g n. tryA a (cap_by_max d) n = (g, d2, a2) \<Longrightarrow> Q (d_AcceleratorName d2) \<and> J a2"
    and "Q (d_AcceleratorName d)" and "J a"
    and "allocateForDecision tryA d a = (d', a')"
  shows "Q (d_AcceleratorName d') \<and> J a'"
proof -
  obtain g d2 a2 where t: "tryA a (cap_by_max d)
      ((d_TargetReplicas (cap_by_max d) - d_CurrentReplicas d) * gpus_per_replica d) = (g, d2, a2)"
    by (metis prod_cases3)
  show ?thesis
    using assms(4) assms(1) [OF t] assms(2,3) t
    by (auto simp: allocateForDecision_def Let_def split: if_splits)
qed

text \<open>The type allocator renames a decision only to the one type there is.\<close>

lemma ta_TryAllocate_name:
  assumes "ta_TryAllocate a d n = (g, d', a')" and "ta_invar a"
  shows "(d_AcceleratorName d' = d_AcceleratorName d \<or>
      \<not> IsAcceleratorResolved (d_AcceleratorName d) \<and> mkeys (ta_remainingByType a) = [d_AcceleratorName d'])
    \<and> mkeys (ta_remainingByType a') = mkeys (ta_remainingByType a)"
proof -
  have "mkeys (ta_remainingByType a') = mkeys (ta_remainingByType a)"
    using ta_TryAllocate_cases [OF assms(1)] by (auto intro!: mkeys_madd_present mhas_of_pos)
  moreover have "d_AcceleratorName d' = d_AcceleratorName d \<or>
      \<not> IsAcceleratorResolved (d_AcceleratorName d) \<and> mkeys (ta_remainingByType a) = [d_AcceleratorName d']"
    using assms(1)
    by (auto simp: ta_TryAllocate_def resolve_pool_def Let_def split: if_splits option.splits list.splits)
  ultimately show ?thesis by simp
qed

lemma type_greedy_name:
  assumes "ta_invar a" and "i < length ds"
  defines "d' \<equiv> fst (greedy_Allocate ta_TryAllocate ds a) ! i"
  shows "d_AcceleratorName d' = d_AcceleratorName (ds ! i) \<or>
    \<not> IsAcceleratorResolved (d_AcceleratorName (ds ! i)) \<and>
      mkeys (ta_remainingByType a) = [d_AcceleratorName d']"
proof -
  let ?K = "mkeys (ta_remainingByType a)"
  let ?R = "\<lambda>d d'. d_AcceleratorName d' = d_AcceleratorName d \<or>
    \<not> IsAcceleratorResolved (d_AcceleratorName d) \<and> ?K = [d_AcceleratorName d']"
  have "?R d d' \<and> mkeys (ta_remainingByType b') = ?K"
    if "ta_invar b" "mkeys (ta_remainingByType b) = ?K"
      "allocateForDecision ta_TryAllocate d b = (d', b')" for b d d' b'
    by (rule allocateForDecision_name [of ta_TryAllocate b d, OF _ _ _ that(3)])
      (use that ta_TryAllocate_name in fastforce)+
  then show ?thesis
    using type_alloc.greedy_pointwise [where R = ?R and J = "\<lambda>b. mkeys (ta_remainingByType b) = ?K",
        OF _ _ _ assms(2)] assms(1) unfolding d'_def by blast
qed

lemma quota_greedy_name:
  assumes "i < length ds"
  shows "d_AcceleratorName (fst (greedy_Allocate qa_TryAllocate ds a) ! i) = d_AcceleratorName (ds ! i)"
proof -
  have "d_AcceleratorName d' = d_AcceleratorName d"
    if "allocateForDecision qa_TryAllocate d b = (d', b')" for b d d' b'
    using allocateForDecision_name [of qa_TryAllocate b d "\<lambda>n. n = d_AcceleratorName d" "\<lambda>_. True" d' b']
      qa_TryAllocate_call(4) that by fastforce
  then show ?thesis
    using quota_alloc.greedy_pointwise [where J = "\<lambda>_. True" and
        R = "\<lambda>d d'. d_AcceleratorName d' = d_AcceleratorName d"] assms by blast
qed

definition wf_inventory :: "inventory \<Rightarrow> bool" where
  "wf_inventory iv = (case iv of TypeInv i \<Rightarrow> wf_map (ti_limitByType i) | QuotaInv _ \<Rightarrow> True)"

lemma refreshed_wf: "inv_Refresh disc iv = Inr iv' \<Longrightarrow>
    wf_inventory (inv_SetUsedByNamespace n (inv_SetUsed u iv'))"
  using aggregate_nodes_wf
  by (auto simp: inv_Refresh_def ti_Refresh_def wf_inventory_def inv_SetUsed_def ti_SetUsed_def
      inv_SetUsedByNamespace_def split: inventory.splits sum.splits prod.splits)
    (metis fst_conv)

lemma length_allocate_with [simp]: "length (allocate_with iv ds) = length ds"
  by (simp add: allocate_with_def split: inventory.split)

lemma allocate_with_tightened:
  assumes "wf_inventory iv" and "i < length ds"
  shows "tightened (ds ! i) (allocate_with iv ds ! i)"
    and "d_LimitedBy (allocate_with iv ds ! i) = d_LimitedBy (ds ! i)"
proof -
  have "tightened (ds ! i) (allocate_with iv ds ! i) \<and>
      d_LimitedBy (allocate_with iv ds ! i) = d_LimitedBy (ds ! i)"
  proof (cases iv)
    case (TypeInv j)
    then have "ta_invar (ti_CreateAllocator j)"
      using assms(1) by (intro CreateAllocator_invar) (simp add: wf_inventory_def)
    then show ?thesis
      using type_greedy_name type_alloc.greedy_same_request type_alloc.greedy_target
        type_alloc.greedy_marks assms(2) TypeInv
      by (fastforce simp: tightened_def allocate_with_def)
  next
    case (QuotaInv q)
    then show ?thesis
      using quota_greedy_name quota_alloc.greedy_same_request quota_alloc.greedy_target
        quota_alloc.greedy_marks assms(2)
      by (simp add: tightened_def allocate_with_def)
  qed
  then show "tightened (ds ! i) (allocate_with iv ds ! i)"
    and "d_LimitedBy (allocate_with iv ds ! i) = d_LimitedBy (ds ! i)" by simp_all
qed

lemma update_metadata_frame [simp]:
  "same_request d (update_metadata name b d)"
  "d_TargetReplicas (update_metadata name b d) = d_TargetReplicas d"
  "d_AcceleratorName (update_metadata name b d) = d_AcceleratorName d"
  "d_WasLimited (update_metadata name b d) = d_WasLimited d"
  by (simp_all add: update_metadata_def Let_def AddDecisionStep_def same_request_def)

lemma update_metadata_attribution:
  "d_LimitedBy (update_metadata name b d) =
     (if d_WasLimited d \<and> \<not> d_WasLimited b then name else d_LimitedBy d)"
  by (simp add: update_metadata_def Let_def AddDecisionStep_def)

lemma length_resolveUnknownAccelerators [simp]:
  "length (resolveUnknownAccelerators iv ds) = length ds"
  by (simp add: resolveUnknownAccelerators_def split: list.split prod.split)

lemma tightened_rename:
  "\<not> IsAcceleratorResolved (d_AcceleratorName d) \<Longrightarrow> tightened d (d\<lparr>d_AcceleratorName := n\<rparr>)"
  by (simp add: tightened_def same_request_def)

lemma resolve_tightened:
  "i < length ds \<Longrightarrow> tightened (ds ! i) (resolveUnknownAccelerators iv ds ! i)"
  by (simp add: resolveUnknownAccelerators_def tightened_rename split: list.split prod.split)

lemma tightened_metadata:
  "tightened b d \<Longrightarrow> tightened b (update_metadata name b d)"
  unfolding tightened_def update_metadata_attribution
  using same_request_trans update_metadata_frame(1) by auto

text \<open>The stages of a pass that gets past the refresh.\<close>

lemma Limit_stages:
  assumes "Limit disc l ds = (e, ds', l')" and "ds \<noteq> []"
  obtains (failed) err where "inv_Refresh disc (dl_inventory l) = Inl err"
      and "e = Some (RefreshFailed err)" and "ds' = ds" and "l' = l"
  | (ran) iv ds1 iv' where "inv_Refresh disc (dl_inventory l) = Inr iv"
      and "ds1 = resolveUnknownAccelerators iv ds"
      and "iv' = inv_SetUsedByNamespace (calculateUsedGPUsByNamespace ds1)
                   (inv_SetUsed (calculateUsedGPUs ds1) iv)"
      and "e = None" and "ds' = updateDecisionMetadata (dl_name l) ds1 (allocate_with iv' ds1)"
      and "dl_inventory l' = iv'" and "dl_name l' = dl_name l"
  using assms by (auto simp: Limit_def Let_def split: sum.splits)

lemma Limit_tightened:
  assumes "Limit disc l ds = (e, ds', l')"
  shows "length ds' = length ds \<and> (\<forall>i<length ds. tightened (ds ! i) (ds' ! i))"
proof (cases "ds = []")
  case True
  then show ?thesis using assms by (simp add: Limit_def)
next
  case False
  from assms False show ?thesis
  proof (cases rule: Limit_stages)
    case (ran iv ds1 iv')
    have len: "length ds1 = length ds" using ran(2) by simp
    have wf: "wf_inventory iv'" using ran(1,3) refreshed_wf by blast
    have "tightened (ds ! i) (ds' ! i)" if i: "i < length ds" for i
    proof -
      have "tightened (ds1 ! i) (ds' ! i)"
        using allocate_with_tightened(1) [OF wf] i len ran(5)
        by (simp add: updateDecisionMetadata_def tightened_metadata)
      moreover have "tightened (ds ! i) (ds1 ! i)" using resolve_tightened [OF i] ran(2) by simp
      ultimately show ?thesis using tightened_trans by blast
    qed
    then show ?thesis using ran(5) len by (simp add: updateDecisionMetadata_def)
  qed auto
qed

section \<open>The caps hold after a pass\<close>

text \<open>
  Replicas that already run are never taken away by a limiter, so usage stays below the cap or, where
  it was above it, does not grow.
\<close>

definition capped :: "(variant_decision \<Rightarrow> bool) \<Rightarrow> int \<Rightarrow> variant_decision list \<Rightarrow> bool" where
  "capped P cap ds \<longleftrightarrow> target_gpus P ds \<le> max cap (current_gpus P ds)"

definition within_types :: "(string, int) gomap \<Rightarrow> variant_decision list \<Rightarrow> bool" where
  "within_types limits ds \<longleftrightarrow>
     (\<forall>t. IsAcceleratorResolved t \<longrightarrow> capped (on_type t) (mget 0 limits t) ds)"

definition within_quota :: "quota_limiter_config \<Rightarrow> variant_decision list \<Rightarrow> bool" where
  "within_quota q ds \<longleftrightarrow>
     (if q_Scope q = QuotaScopeCluster then
        (\<forall>t. t \<noteq> [] \<and> map_of (q_ClusterQuotas q) t \<noteq> Some QuotaUnlimited \<longrightarrow>
           capped (on_type t) (mget 0 (q_ClusterQuotas q) t) ds)
      else q_Scope q = QuotaScopeNamespace \<longrightarrow>
        (\<forall>ns t. ns \<noteq> [] \<and> t \<noteq> [] \<and> \<not> IsExcluded q ns \<and>
           map_of (fst (QuotaForNamespace q ns)) t \<noteq> Some QuotaUnlimited \<longrightarrow>
           capped (in_ns ns t) (mget 0 (fst (QuotaForNamespace q ns)) t) ds))"

text \<open>The requests the caps can bind: no minimum above the current size, a known replica size.\<close>

definition cappable :: "variant_decision \<Rightarrow> bool" where
  "cappable d \<longleftrightarrow> floor_free d \<and> 0 < d_GPUsPerReplica d"

lemma cappable_same_request: "same_request d d' \<Longrightarrow> cappable d' = cappable d"
  by (auto simp: cappable_def same_request_def floor_free_def split: option.splits)

lemma cappable_tightened: "tightened d d' \<Longrightarrow> cappable d' = cappable d"
  by (simp add: tightened_def cappable_same_request)

text \<open>Sums over two lists that agree on what they sum.\<close>

lemma current_gpus_index:
  "current_gpus P ds = (\<Sum>i\<leftarrow>[0..<length ds]. if P (ds ! i) then d_CurrentReplicas (ds ! i) *
     d_GPUsPerReplica (ds ! i) else 0)"
  unfolding current_gpus_def
  by (simp add: map_nth_upt [where f = "\<lambda>d. if P d then d_CurrentReplicas d * d_GPUsPerReplica d else 0"])

lemma target_gpus_index:
  "target_gpus P ds = (\<Sum>i\<leftarrow>[0..<length ds]. if P (ds ! i) then d_TargetReplicas (ds ! i) *
     d_GPUsPerReplica (ds ! i) else 0)"
  unfolding target_gpus_def
  by (simp add: map_nth_upt [where f = "\<lambda>d. if P d then d_TargetReplicas d * d_GPUsPerReplica d else 0"])

lemma current_gpus_cong:
  assumes "length ds' = length ds"
    and "\<And>i. i < length ds \<Longrightarrow> same_request (ds ! i) (ds' ! i) \<and> P (ds' ! i) = P (ds ! i)"
  shows "current_gpus P ds' = current_gpus P ds"
  unfolding current_gpus_index assms(1)
  by (rule arg_cong [where f = sum_list], rule map_cong) (use assms(2) in \<open>auto simp: same_request_def\<close>)

lemma target_gpus_mono:
  assumes "length ds' = length ds"
    and "\<And>i. i < length ds \<Longrightarrow> same_request (ds ! i) (ds' ! i) \<and> P (ds' ! i) = P (ds ! i) \<and>
      d_TargetReplicas (ds' ! i) \<le> d_TargetReplicas (ds ! i) \<and> 0 < d_GPUsPerReplica (ds ! i)"
  shows "target_gpus P ds' \<le> target_gpus P ds"
  unfolding target_gpus_index assms(1)
  by (rule sum_list_mono) (use assms(2) in \<open>auto simp: same_request_def intro!: mult_right_mono\<close>)

lemma capped_mono:
  assumes "capped P cap ds" and "length ds' = length ds" and "list_all cappable ds"
    and "\<And>i. i < length ds \<Longrightarrow> tightened (ds ! i) (ds' ! i) \<and> P (ds' ! i) = P (ds ! i)"
  shows "capped P cap ds'"
proof -
  have "target_gpus P ds' \<le> target_gpus P ds"
    using assms by (intro target_gpus_mono) (auto simp: tightened_def cappable_def list_all_length)
  moreover have "current_gpus P ds' = current_gpus P ds"
    using assms by (intro current_gpus_cong) (auto simp: tightened_def)
  ultimately show ?thesis using assms(1) by (simp add: capped_def)
qed

text \<open>The budget of the contract, as a cap on the decisions of one pool.\<close>

context resource_allocator
begin

lemma greedy_capped:
  assumes inv: "invar a" and ok: "list_all cappable ds"
    and sel: "\<And>d. d \<in> set ds \<Longrightarrow> P d \<Longrightarrow> meter a d = Some p"
    and stable: "\<And>i. i < length ds \<Longrightarrow> P (fst (greedy_Allocate try_alloc ds a) ! i) = P (ds ! i)"
    and left: "left a p \<le> max 0 (cap - current_gpus P ds)"
  shows "capped P cap (fst (greedy_Allocate try_alloc ds a))"
proof -
  obtain ds' a' where call: "greedy_Allocate try_alloc ds a = (ds', a')" by fastforce
  have len: "length ds' = length ds" using length_greedy_Allocate [of try_alloc ds a] call by simp
  have same: "same_request (ds ! i) (ds' ! i) \<and> P (ds' ! i) = P (ds ! i)" if "i < length ds" for i
    using greedy_same_request [OF inv that] stable [OF that] call by simp
  have "target_gpus P ds' = (\<Sum>i\<leftarrow>[0..<length ds]. if P (ds ! i)
      then d_TargetReplicas (ds' ! i) * d_GPUsPerReplica (ds ! i) else 0)"
    unfolding target_gpus_index len
    by (rule arg_cong [where f = sum_list], rule map_cong) (use same in \<open>auto simp: same_request_def\<close>)
  also have "\<dots> \<le> current_gpus P ds + left a p"
    unfolding current_gpus_index
    using greedy_total [OF inv _ _ call, of "\<lambda>i. P (ds ! i)" p] ok sel
    by (simp add: cappable_def list_all_iff)
  also have "\<dots> \<le> max cap (current_gpus P ds)" using left by simp
  finally show ?thesis using current_gpus_cong [OF len same] call by (simp add: capped_def)
qed

end

text \<open>Annotation changes none of the sums.\<close>

lemma capped_metadata:
  assumes "length b = length ds"
    and "\<And>d d'. same_request d d' \<Longrightarrow> d_AcceleratorName d' = d_AcceleratorName d \<Longrightarrow> P d' = P d"
  shows "capped P cap (updateDecisionMetadata name b ds) = capped P cap ds"
proof -
  let ?m = "updateDecisionMetadata name b ds"
  have len: "length ?m = length ds" using assms(1) by (simp add: updateDecisionMetadata_def)
  have same: "same_request (ds ! i) (?m ! i) \<and> P (?m ! i) = P (ds ! i) \<and>
      d_TargetReplicas (?m ! i) = d_TargetReplicas (ds ! i)" if "i < length ds" for i
    using that assms by (simp add: updateDecisionMetadata_def)
  have "target_gpus P ?m = target_gpus P ds"
    unfolding target_gpus_index len
    by (rule arg_cong [where f = sum_list], rule map_cong) (use same in \<open>auto simp: same_request_def\<close>)
  moreover have "current_gpus P ?m = current_gpus P ds"
    using same by (intro current_gpus_cong [OF len]) blast
  ultimately show ?thesis by (simp add: capped_def)
qed

text \<open>The single type of a homogeneous cluster is given to every decision that names none.\<close>

lemma resolve_homogeneous:
  assumes "mkeys (ti_limitByType i) = [t]" and "IsAcceleratorResolved t"
    and "d \<in> set (resolveUnknownAccelerators (TypeInv i) ds)"
  shows "IsAcceleratorResolved (d_AcceleratorName d)"
proof -
  obtain n where "ti_limitByType i = [(t, n)]" using assms(1) by auto
  then show ?thesis
    using assms(2,3) by (auto simp: resolveUnknownAccelerators_def inv_GetResourcePools_def
        ti_GetResourcePools_def split: if_splits)
qed

lemma mkeys_CreateAllocator: "mkeys (ta_remainingByType (ti_CreateAllocator i)) = mkeys (ti_limitByType i)"
  by (simp add: ti_CreateAllocator_def comp_def case_prod_unfold)

lemma type_within:
  fixes i ds0
  defines "ds \<equiv> resolveUnknownAccelerators (TypeInv i) ds0"
  defines "i' \<equiv> ti_SetUsed (calculateUsedGPUs ds) i"
  assumes wf: "wf_map (ti_limitByType i)" and ok: "list_all cappable ds"
  shows "within_types (ti_limitByType i) (allocate_with (TypeInv i') ds)"
  unfolding within_types_def
proof (intro allI impI)
  fix t assume t: "IsAcceleratorResolved t"
  let ?a = "ti_CreateAllocator i'"
  have lm: "ti_limitByType i' = ti_limitByType i" "mget 0 (ti_usedByType i') t = current_gpus (on_type t) ds"
    using t by (simp_all add: i'_def ti_SetUsed_def calculateUsedGPUs_mget IsAcceleratorResolved_def)
  have inv: "ta_invar ?a" using wf lm by (intro CreateAllocator_invar) simp
  have nm: "d_AcceleratorName (fst (greedy_Allocate ta_TryAllocate ds ?a) ! k) = t \<longleftrightarrow>
      d_AcceleratorName (ds ! k) = t" if k: "k < length ds" for k
  proof -
    have "IsAcceleratorResolved (d_AcceleratorName (ds ! k))" if "mkeys (ti_limitByType i) = [t]"
      by (rule resolve_homogeneous [OF that t, of _ ds0]) (use k in \<open>simp add: ds_def\<close>)
    then show ?thesis
      using type_greedy_name [OF inv k] t by (auto simp: mkeys_CreateAllocator lm)
  qed
  have "mget 0 (ta_remainingByType ?a) t \<le>
      max 0 (mget 0 (ti_limitByType i) t - current_gpus (on_type t) ds)"
    using lm by (simp add: CreateAllocator_remaining AvailableByType_def Let_def)
  then have "capped (on_type t) (mget 0 (ti_limitByType i) t) (fst (greedy_Allocate ta_TryAllocate ds ?a))"
    by (rule type_alloc.greedy_capped [OF inv ok, rotated 2])
      (use t nm in \<open>auto simp: on_type_def resolve_pool_def\<close>)
  then show "capped (on_type t) (mget 0 (ti_limitByType i) t) (allocate_with (TypeInv i') ds)"
    by (simp add: allocate_with_def)
qed

lemma quota_within:
  fixes q ds
  defines "q' \<equiv> qi_SetUsedByNamespace (calculateUsedGPUsByNamespace ds) (qi_SetUsed (calculateUsedGPUs ds) q)"
  assumes ok: "list_all cappable ds"
  shows "within_quota (qi_cfg q) (allocate_with (QuotaInv q') ds)"
proof -
  let ?a = "qi_CreateAllocator q'" and ?c = "qi_cfg q"
  have cfg: "qi_cfg q' = ?c" by (simp add: q'_def qi_SetUsedByNamespace_def qi_SetUsed_def)
  have a: "qa_cfg ?a = ?c" "qa_scope ?a = q_Scope ?c" "qa_usedByType ?a = qi_usedByType q'"
    "qa_usedByNS ?a = qi_usedByNS q'"
    by (simp_all add: qi_CreateAllocator_def cfg)
  have mget_some: "map_of m k = Some v \<Longrightarrow> mget 0 m k = v" for m :: "(string, int) gomap" and k v
    by (simp add: mget_def)
  have left: "quota_left ?a (None, t) \<le> max 0 (mget 0 (q_ClusterQuotas ?c) t - current_gpus (on_type t) ds)"
    if "q_Scope ?c = QuotaScopeCluster" "t \<noteq> []" for t
  proof -
    have "qi_usedByType q' = calculateUsedGPUs ds"
      using that by (simp add: q'_def qi_SetUsedByNamespace_def qi_SetUsed_def)
    then show ?thesis using that calculateUsedGPUs_mget [of t ds]
      by (auto simp: quota_pool_defs a dest: mget_some split: option.split)
  qed
  have nleft: "quota_left ?a (Some ns, t) \<le>
      max 0 (mget 0 (fst (QuotaForNamespace ?c ns)) t - current_gpus (in_ns ns t) ds)"
    if "q_Scope ?c = QuotaScopeNamespace" "t \<noteq> []" "ns \<noteq> []" for ns t
  proof -
    have "qi_usedByNS q' = calculateUsedGPUsByNamespace ds"
      using that by (simp add: q'_def qi_SetUsedByNamespace_def qi_SetUsed_def)
    then show ?thesis using that calculateUsedGPUsByNamespace_mget [of t ns ds]
      by (auto simp: quota_pool_defs a dest: mget_some split: option.split)
  qed
  show ?thesis
  proof (cases "q_Scope ?c = QuotaScopeCluster")
    case True
    have "capped (on_type t) (mget 0 (q_ClusterQuotas ?c) t) (allocate_with (QuotaInv q') ds)"
      if "t \<noteq> []" "map_of (q_ClusterQuotas ?c) t \<noteq> Some QuotaUnlimited" for t
      unfolding allocate_with_def inventory.case
      by (rule quota_alloc.greedy_capped [OF TrueI ok _ _ left [OF True that(1)]])
        (use that True in \<open>auto simp: on_type_def quota_greedy_name quota_meter_def quota_cap_def a\<close>)
    with True show ?thesis by (simp add: within_quota_def)
  next
    case False
    have "capped (in_ns ns t) (mget 0 (fst (QuotaForNamespace ?c ns)) t) (allocate_with (QuotaInv q') ds)"
      if "q_Scope ?c = QuotaScopeNamespace" "t \<noteq> []" "ns \<noteq> []" "\<not> IsExcluded ?c ns"
        "map_of (fst (QuotaForNamespace ?c ns)) t \<noteq> Some QuotaUnlimited" for ns t
      unfolding allocate_with_def inventory.case
      by (rule quota_alloc.greedy_capped [OF TrueI ok _ _ nleft [OF that(1-3)]])
        (use that in \<open>auto simp: in_ns_def quota_greedy_name quota_meter_def quota_cap_def a
            QuotaForNamespace_def
            quota_alloc.greedy_same_request [unfolded same_request_def] split: option.splits\<close>)
    with False show ?thesis by (simp add: within_quota_def)
  qed
qed

lemma resolve_cappable:
  "list_all cappable (resolveUnknownAccelerators iv ds) = list_all cappable ds"
proof -
  have "cappable (resolveUnknownAccelerators iv ds ! i) = cappable (ds ! i)" if "i < length ds" for i
    by (rule cappable_tightened [OF resolve_tightened [OF that]])
  then show ?thesis by (simp add: list_all_length)
qed

lemma capped_metadata_pools:
  assumes "length b = length ds"
  shows "capped (on_type t) c (updateDecisionMetadata name b ds) = capped (on_type t) c ds"
    and "capped (in_ns ns t) c (updateDecisionMetadata name b ds) = capped (in_ns ns t) c ds"
  by (rule capped_metadata [OF assms]; simp add: on_type_def in_ns_def same_request_def)+

lemma within_metadata:
  assumes "length b = length ds"
  shows "within_types m (updateDecisionMetadata name b ds) = within_types m ds"
    and "within_quota q (updateDecisionMetadata name b ds) = within_quota q ds"
  by (simp_all only: within_types_def within_quota_def capped_metadata_pools [OF assms])

lemma within_Nil [simp]: "within_types m []" "within_quota q []"
  by (simp_all add: within_types_def within_quota_def capped_def target_gpus_def current_gpus_def)

lemma Limit_type:
  assumes "Limit (Inr nodes) l ds = (e, ds', l')" and "dl_inventory l = TypeInv i"
    and "list_all cappable ds"
  shows "e = None \<and> within_types (fst (aggregate_nodes nodes)) ds'"
proof (cases "ds = []")
  case True
  then show ?thesis using assms(1) by (simp add: Limit_def)
next
  case False
  let ?m = "fst (aggregate_nodes nodes)"
  let ?i = "i\<lparr>ti_limitByType := ?m, ti_totalLimit := snd (aggregate_nodes nodes)\<rparr>"
  have r: "inv_Refresh (Inr nodes) (dl_inventory l) = Inr (TypeInv ?i)"
    by (simp add: inv_Refresh_def ti_Refresh_def assms(2) split: prod.split)
  let ?ds = "resolveUnknownAccelerators (TypeInv ?i) ds"
  have "within_types ?m (allocate_with (TypeInv (ti_SetUsed (calculateUsedGPUs ?ds) ?i)) ?ds)"
    using type_within [of ?i ds] aggregate_nodes_wf assms(3) by (simp add: resolve_cappable)
  then show ?thesis
    using assms(1) False r
    by (auto simp: Limit_def Let_def inv_SetUsed_def inv_SetUsedByNamespace_def within_metadata)
qed

lemma Limit_quota:
  assumes "Limit disc l ds = (e, ds', l')" and "dl_inventory l = QuotaInv q"
    and "list_all cappable ds"
  shows "e = None \<and> within_quota (qi_cfg q) ds'"
proof (cases "ds = []")
  case True
  then show ?thesis using assms(1) by (simp add: Limit_def)
next
  case False
  have r: "inv_Refresh disc (dl_inventory l) = Inr (QuotaInv q)"
    by (simp add: inv_Refresh_def assms(2))
  let ?ds = "resolveUnknownAccelerators (QuotaInv q) ds"
  have "within_quota (qi_cfg q) (allocate_with (QuotaInv (qi_SetUsedByNamespace
      (calculateUsedGPUsByNamespace ?ds) (qi_SetUsed (calculateUsedGPUs ?ds) q))) ?ds)"
    using quota_within [of ?ds q] assms(3) by (simp add: resolve_cappable)
  then show ?thesis
    using assms(1) False r
    by (auto simp: Limit_def Let_def inv_SetUsed_def inv_SetUsedByNamespace_def within_metadata)
qed

section \<open>Composition keeps every cap\<close>

definition all_tightened :: "variant_decision list \<Rightarrow> variant_decision list \<Rightarrow> bool" where
  "all_tightened ds ds' \<longleftrightarrow> list_all2 tightened ds ds'"

lemma all_tightened_refl [simp]: "all_tightened ds ds"
  by (simp add: all_tightened_def list_all2_refl)

lemma all_tightened_trans: "all_tightened a b \<Longrightarrow> all_tightened b c \<Longrightarrow> all_tightened a c"
  unfolding all_tightened_def by (rule list_all2_trans) (auto intro: tightened_trans)

lemma limit_tightened:
  "limit disc l ds = (e, ds', l') \<Longrightarrow> all_tightened ds ds'"
  "limit_all disc name i ls ds = (e, ds', ls') \<Longrightarrow> all_tightened ds ds'"
proof (induction disc l ds and disc name i ls ds arbitrary: e ds' l' and e ds' ls'
    rule: limit_limit_all.induct)
  case (2 disc l ds)
  then show ?case
    by (auto simp: all_tightened_def list_all2_conv_all_nth dest: Limit_tightened split: prod.splits)
next
  case (3 disc name ls ds)
  then show ?case by (auto split: prod.splits if_splits)
next
  case (5 disc name i l ls ds)
  then show ?case by (auto split: prod.splits option.splits intro: all_tightened_trans)
qed auto

definition all_resolved :: "variant_decision list \<Rightarrow> bool" where
  "all_resolved ds \<longleftrightarrow> list_all (\<lambda>d. IsAcceleratorResolved (d_AcceleratorName d)) ds"

lemma tightened_kept:
  assumes "all_tightened ds ds'"
  shows "list_all cappable ds \<Longrightarrow> list_all cappable ds'"
    and "all_resolved ds \<Longrightarrow> all_resolved ds'"
  using assms unfolding all_tightened_def all_resolved_def
  by (auto simp: list_all2_conv_all_nth list_all_length cappable_tightened) (simp add: tightened_def)

lemma within_quota_kept:
  assumes "all_tightened ds ds'" and "list_all cappable ds" and "all_resolved ds" and "within_quota q ds"
  shows "within_quota q ds'"
proof -
  have len: "length ds' = length ds" using assms(1) by (simp add: all_tightened_def list_all2_lengthD)
  have t: "tightened (ds ! i) (ds' ! i) \<and> d_AcceleratorName (ds' ! i) = d_AcceleratorName (ds ! i) \<and>
      d_Namespace (ds' ! i) = d_Namespace (ds ! i)" if "i < length ds" for i
    using assms(1,3) that
    by (auto simp: all_tightened_def all_resolved_def list_all2_conv_all_nth list_all_length
        tightened_def same_request_def)
  have "capped (on_type a) c ds \<Longrightarrow> capped (on_type a) c ds'" for a c
    using t by (rule_tac capped_mono [OF _ len assms(2)]) (auto simp: on_type_def)
  moreover have "capped (in_ns n a) c ds \<Longrightarrow> capped (in_ns n a) c ds'" for n a c
    using t by (rule_tac capped_mono [OF _ len assms(2)]) (auto simp: in_ns_def)
  ultimately show ?thesis using assms(4) by (auto simp: within_quota_def)
qed

definition quota_limiter :: "quota_limiter_config \<Rightarrow> limiter" where
  "quota_limiter entry = DefaultLimiter \<lparr>dl_name = q_Name entry,
     dl_inventory = QuotaInv (NewQuotaInventory entry)\<rparr>"

lemma limit_quota:
  assumes "limit disc (quota_limiter q) ds = (e, ds', l')" and "list_all cappable ds"
  shows "e = None \<and> within_quota q ds'"
proof -
  obtain l1 where "Limit disc \<lparr>dl_name = q_Name q, dl_inventory = QuotaInv (NewQuotaInventory q)\<rparr> ds =
      (e, ds', l1)"
    using assms(1) by (auto simp: quota_limiter_def split: prod.splits)
  from Limit_quota [OF this _ assms(2)] show ?thesis by (simp add: NewQuotaInventory_def)
qed

lemma limit_all_quota:
  assumes "limit_all disc name i (map quota_limiter qs) ds = (e, ds', ls')"
    and "list_all cappable ds" and "all_resolved ds"
  shows "e = None \<and> list_all (\<lambda>q. within_quota q ds') qs"
  using assms
proof (induction qs arbitrary: i ds ls')
  case (Cons q qs)
  obtain e1 ds1 l1 where one: "limit disc (quota_limiter q) ds = (e1, ds1, l1)" by (metis prod_cases3)
  have q: "e1 = None" "within_quota q ds1" using limit_quota [OF one Cons.prems(2)] by simp_all
  obtain ls1 where rest: "limit_all disc name (Suc i) (map quota_limiter qs) ds1 = (e, ds', ls1)"
    using Cons.prems(1) one q(1) by (auto split: prod.splits)
  have ok: "list_all cappable ds1" "all_resolved ds1"
    using tightened_kept [OF limit_tightened(1) [OF one]] Cons.prems(2,3) by auto
  then have "e = None \<and> list_all (\<lambda>q. within_quota q ds') qs" by (rule Cons.IH [OF rest])
  moreover have "within_quota q ds'"
    by (rule within_quota_kept [OF limit_tightened(2) [OF rest] ok q(2)])
  ultimately show ?case by simp
qed simp

section \<open>Attribution\<close>

lemma Limit_attribution:
  assumes "Limit disc l ds = (None, ds', l')" and "i < length ds"
  shows "d_LimitedBy (ds' ! i) =
    (if d_WasLimited (ds' ! i) \<and> \<not> d_WasLimited (ds ! i) then dl_name l else d_LimitedBy (ds ! i))"
proof -
  have "ds \<noteq> []" using assms(2) by auto
  from assms(1) this show ?thesis
  proof (cases rule: Limit_stages)
    case (ran iv ds1 iv')
    have wf: "wf_inventory iv'" using ran(1,3) refreshed_wf by blast
    have len: "length ds1 = length ds" using ran(2) by simp
    have "d_WasLimited (ds1 ! i) = d_WasLimited (ds ! i) \<and> d_LimitedBy (ds1 ! i) = d_LimitedBy (ds ! i)"
      using assms(2) ran(2) by (simp add: resolveUnknownAccelerators_def split: list.split prod.split)
    then show ?thesis
      using allocate_with_tightened(2) [OF wf, of i ds1] assms(2) len ran(5)
      by (simp add: updateDecisionMetadata_def update_metadata_attribution)
  qed simp
qed

lemma limit_all_append:
  assumes "limit_all disc name i (ls @ ms) ds = (None, ds', rs)"
  obtains ds1 ls1 ms1 where "limit_all disc name i ls ds = (None, ds1, ls1)"
    and "limit_all disc name (i + length ls) ms ds1 = (None, ds', ms1)" and "rs = ls1 @ ms1"
  using assms
proof (induction ls arbitrary: i ds rs thesis)
  case (Cons l ls)
  obtain ds1 l1 where one: "limit disc l ds = (None, ds1, l1)"
    using Cons.prems(2) by (auto split: prod.splits option.splits)
  obtain rs1 where rest: "limit_all disc name (Suc i) (ls @ ms) ds1 = (None, ds', rs1)" "rs = l1 # rs1"
    using Cons.prems(2) one by (auto split: prod.splits)
  show ?case
    by (rule Cons.IH [OF _ rest(1)]) (rule Cons.prems(1), use one rest(2) in auto)
qed simp

section \<open>Properties\<close>

definition ex_request :: "string \<Rightarrow> int \<Rightarrow> int \<Rightarrow> int \<Rightarrow> variant_decision" where
  "ex_request t gpus cur tgt = zero_decision\<lparr>d_VariantName := ''v'', d_Namespace := ''team'',
     d_AcceleratorName := t, d_GPUsPerReplica := gpus, d_CurrentReplicas := cur, d_TargetReplicas := tgt\<rparr>"

definition ex_nodes :: node_inventory where
  "ex_nodes = [(''n1'', [(''NVIDIA-A100-PCIE-80GB'', 3)]), (''n2'', [(''A100'', 2), (''AMD-MI300X'', 8)])]"

definition ex_physical :: default_limiter where
  "ex_physical = \<lparr>dl_name = ''gpu-limiter'', dl_inventory = TypeInv (NewTypeInventory ''inventory'')\<rparr>"

definition ex_entries :: "quota_limiter_config list" where
  "ex_entries =
     [\<lparr>q_Name = ''cluster-quota'', q_Type = ''quota'', q_Scope = QuotaScopeCluster,
       q_ClusterQuotas = [(''A100'', 6)], q_NamespaceQuotas = [], q_Exclude = []\<rparr>,
      \<lparr>q_Name = ''ns-quota'', q_Type = ''quota'', q_Scope = QuotaScopeNamespace,
       q_ClusterQuotas = [], q_NamespaceQuotas = [(''team'', [(''A100'', 3)])], q_Exclude = []\<rparr>]"

lemmas ex_defs = ex_request_def ex_nodes_def ex_physical_def ex_entries_def zero_decision_def
  all_resolved_def cappable_def floor_free_def IsAcceleratorResolved_def DefaultAcceleratorName_def
  UnresolvedAcceleratorType_def quota_consts





text \<open>C13. No decision is held back without need: when the GPUs of one type that discovery found cover
  the running replicas and all the replicas the decisions of that type ask for, each of these
  decisions gets its whole target (only its own maximum caps it) and none is newly marked as
  limited.\<close>

theorem enough_capacity_serves_all:
  assumes call: "Limit (Inr nodes) l ds = (e, ds', l')" and inv: "dl_inventory l = TypeInv i"
    and ff: "list_all floor_free ds" and res: "all_resolved ds"
    and fits: "(\<Sum>d\<leftarrow>ds. if on_type t d then wanted_gpus d else 0) + current_gpus (on_type t) ds
      \<le> (\<Sum>(n, c)\<leftarrow>concat (map snd nodes). if NormalizeAcceleratorName n = t then c else 0)"
    and cur: "0 \<le> current_gpus (on_type t) ds"
    and k: "k < length ds" "on_type t (ds ! k)" "d_CurrentReplicas (ds ! k) < d_TargetReplicas (ds ! k)"
  shows "d_TargetReplicas (ds' ! k) = d_TargetReplicas (cap_by_max (ds ! k)) \<and>
    d_WasLimited (ds' ! k) = d_WasLimited (ds ! k)"
proof -
  let ?m = "fst (aggregate_nodes nodes)"
  let ?i = "i\<lparr>ti_limitByType := ?m, ti_totalLimit := snd (aggregate_nodes nodes)\<rparr>"
  let ?i' = "ti_SetUsed (calculateUsedGPUs ds) ?i"
  let ?a = "ti_CreateAllocator ?i'"
  have t: "IsAcceleratorResolved t" using res k by (auto simp: all_resolved_def list_all_length on_type_def)
  have r: "inv_Refresh (Inr nodes) (dl_inventory l) = Inr (TypeInv ?i)"
    by (simp add: inv_Refresh_def ti_Refresh_def inv split: prod.split)
  have id: "resolveUnknownAccelerators iv ds = ds" for iv
    using res by (auto simp: resolveUnknownAccelerators_def all_resolved_def list_all_iff
        intro!: map_idI split: list.split)
  have ds': "ds' = updateDecisionMetadata (dl_name l) ds (allocate_with (TypeInv ?i') ds)"
  proof -
    have "ds \<noteq> []" using k(1) by auto
    then show ?thesis
      using call r by (auto simp: Limit_def Let_def id inv_SetUsed_def inv_SetUsedByNamespace_def)
  qed
  have met: "resolve_pool ?a d = Some t \<longleftrightarrow> on_type t d" if "d \<in> set ds" for d
    using that res by (simp add: resolve_pool_def on_type_def all_resolved_def list_all_iff)
  have wanted: "(\<Sum>d\<leftarrow>ds. if resolve_pool ?a d = Some t then wanted_gpus d else 0) =
      (\<Sum>d\<leftarrow>ds. if on_type t d then wanted_gpus d else 0)"
    by (rule arg_cong [where f = sum_list], rule map_cong) (use met in auto)
  have "0 \<le> (\<Sum>d\<leftarrow>ds. if on_type t d then wanted_gpus d else 0)"
    by (rule sum_list_nonneg) (auto simp: wanted_gpus_nonneg)
  then have "(\<Sum>d\<leftarrow>ds. if resolve_pool ?a d = Some t then wanted_gpus d else 0) \<le>
      mget 0 (ta_remainingByType ?a) t"
    using fits cur t mget_absent [of ?m t 0] unfolding wanted aggregate_nodes_mget [symmetric]
    by (auto simp: CreateAllocator_remaining AvailableByType_def ti_SetUsed_def
        calculateUsedGPUs_mget IsAcceleratorResolved_def Let_def)
  moreover have "ta_invar ?a" by (rule CreateAllocator_invar) (simp add: ti_SetUsed_def aggregate_nodes_wf)
  ultimately show ?thesis
    using type_alloc.greedy_full [of ?a ds t k] ff k met [of "ds ! k"]
    by (simp add: ds' updateDecisionMetadata_def allocate_with_def)
qed

theorem enough_capacity_serves_all_witness:
  "d_TargetReplicas (fst (snd (Limit (Inr ex_nodes) ex_physical
      [ex_request ''A100'' 2 1 2, ex_request ''A100'' 1 0 1])) ! 1) = 1"
proof -
  let ?ds = "[ex_request ''A100'' 2 1 2, ex_request ''A100'' 1 0 1]"
  obtain e ds' l' where r: "Limit (Inr ex_nodes) ex_physical ?ds = (e, ds', l')" by (metis prod_cases3)
  have "d_TargetReplicas (ds' ! 1) = d_TargetReplicas (cap_by_max (?ds ! 1)) \<and>
    d_WasLimited (ds' ! 1) = d_WasLimited (?ds ! 1)"
    by (rule enough_capacity_serves_all [OF r, of "NewTypeInventory ''inventory''" "''A100''" 1])
      (simp_all add: ex_defs current_gpus_def on_type_def wanted_gpus_def cap_by_max_def
        gpus_per_replica_def NormalizeAcceleratorName_def Let_def)
  then show ?thesis unfolding r by (simp add: ex_defs cap_by_max_def)
qed

text \<open>In a chain of limiters the limiter that first holds a decision back is the one it is
  attributed to: if the decision was not limited before the pass of constituent \<open>l\<close> and is
  limited after it, the decision names \<open>l\<close> once the whole chain has run, whatever the later
  constituents do to it.\<close>

theorem first_limiter_is_credited:
  assumes "limit disc (CompositeLimiter name (pre @ DefaultLimiter l # post)) ds = (None, ds', lm')"
    and "limit_all disc name 0 pre ds = (None, ds1, pre')"
    and "Limit disc l ds1 = (None, ds2, l')"
    and "i < length ds" and "\<not> d_WasLimited (ds1 ! i)" and "d_WasLimited (ds2 ! i)"
  shows "d_WasLimited (ds' ! i) \<and> d_LimitedBy (ds' ! i) = dl_name l"
proof -
  have "ds \<noteq> []" using assms(4) by auto
  then obtain ls where all: "limit_all disc name 0 (pre @ DefaultLimiter l # post) ds = (None, ds', ls)"
    using assms(1) by (auto split: prod.splits if_splits)
  obtain ms1 where tail: "limit_all disc name (length pre) (DefaultLimiter l # post) ds1 = (None, ds', ms1)"
    by (rule limit_all_append [OF all]) (use assms(2) in simp)
  obtain ms2 where rest: "limit_all disc name (Suc (length pre)) post ds2 = (None, ds', ms2)"
    using tail assms(3) by (auto split: prod.splits)
  have len: "i < length ds1"
    using limit_tightened(2) [OF assms(2)] assms(4) by (simp add: all_tightened_def list_all2_lengthD)
  then have by_l: "d_LimitedBy (ds2 ! i) = dl_name l"
    using Limit_attribution [OF assms(3)] assms(5,6) by simp
  have "tightened (ds2 ! i) (ds' ! i)"
    using limit_tightened(2) [OF rest] len Limit_tightened [OF assms(3)]
    by (simp add: all_tightened_def list_all2_conv_all_nth)
  then show ?thesis using by_l assms(6) by (simp add: tightened_def)
qed

theorem first_limiter_is_credited_witness:
  "d_LimitedBy (fst (snd (limit (Inr []) (CompositeLimiter ''q''
      (map quota_limiter ex_entries)) [ex_request ''A100'' 1 1 9])) ! 0) = ''cluster-quota''"
proof -
  let ?l = "\<lparr>dl_name = ''cluster-quota'', dl_inventory = QuotaInv (NewQuotaInventory (ex_entries ! 0))\<rparr>"
  let ?ds = "[ex_request ''A100'' 1 1 9]" and ?post = "[quota_limiter (ex_entries ! 1)]"
  have es: "map quota_limiter ex_entries = [] @ DefaultLimiter ?l # ?post"
    by (simp add: ex_entries_def quota_limiter_def)
  obtain e ds' lm where r: "limit (Inr []) (CompositeLimiter ''q'' ([] @ DefaultLimiter ?l # ?post)) ?ds
      = (e, ds', lm)" by (metis prod_cases3)
  obtain e2 ds2 l2 where r2: "Limit (Inr []) ?l ?ds = (e2, ds2, l2)" by (metis prod_cases3)
  have w: "d_WasLimited (fst (snd (Limit (Inr []) ?l ?ds)) ! 0)" by code_simp
  have n: "fst (Limit (Inr []) ?l ?ds) = None" by code_simp
  have n2: "fst (limit (Inr []) (CompositeLimiter ''q'' ([] @ DefaultLimiter ?l # ?post)) ?ds) = None"
    by code_simp
  have e: "e = None" "e2 = None" using n n2 r r2 by (metis fst_conv)+
  have w2: "d_WasLimited (ds2 ! 0)" "\<not> d_WasLimited (?ds ! 0)"
    using w r2 by (simp_all add: ex_request_def zero_decision_def)
  have "d_WasLimited (ds' ! 0) \<and> d_LimitedBy (ds' ! 0) = dl_name ?l"
    by (rule first_limiter_is_credited [OF r [unfolded e] _ r2 [unfolded e] _ w2(2,1)]) simp_all
  then show ?thesis unfolding es r by simp
qed

section \<open>Stranded GPUs\<close>


end
