(* ===== verification/Gpu_Budget.thy ===== *)
theory Gpu_Budget
  imports Limiter
begin

text \<open>
  The GPU budget an optimizer may spend: the constraints of several providers merged per accelerator
  type and per namespace (\<open>mergeConstraints\<close>, \<open>mergeNamespaceConstraints\<close> in
  \<open>cost_aware_optimizer.go\<close>) and the budget of one model drawn from them
  (\<open>effectiveAvailable\<close> in \<open>greedy_score_optimizer.go\<close>).  A nil map of budgets per
  namespace, or of one namespace, is \<^const>\<open>None\<close>.  The theorems say that the merged budget
  is the tightest of what the providers report.
\<close>

section \<open>Merging\<close>

definition merge_pool :: "string \<times> resource_pool \<Rightarrow> (string, int) gomap \<Rightarrow> (string, int) gomap" where
  "merge_pool = (\<lambda>(accType, pool) merged.
     if rp_Limit pool < 0 then (if mhas merged accType then merged else mput accType MaxInt merged)
     else (case map_of merged accType of
       None \<Rightarrow> mput accType (Available pool) merged
     | Some existing \<Rightarrow> if Available pool < existing then mput accType (Available pool) merged else merged))"

definition mergeConstraints :: "resource_constraints option list \<Rightarrow> (string, int) gomap" where
  "mergeConstraints constraints = fold (\<lambda>c merged. case c of
     None \<Rightarrow> merged | Some rc \<Rightarrow> fold merge_pool (con_Pools rc) merged) constraints []"

definition nsPoolBudget :: "resource_pool \<Rightarrow> int" where
  "nsPoolBudget pool = (if rp_Limit pool < 0 then -1 else Available pool)"

definition tighterBudget :: "int \<Rightarrow> int \<Rightarrow> int" where
  "tighterBudget a b = (if a < 0 then b else if b < 0 then a else if b < a then b else a)"

type_synonym ns_budgets = "(string, (string, int) gomap) gomap"

definition merge_ns_pool :: "string \<times> resource_pool \<Rightarrow> (string, int) gomap \<Rightarrow> (string, int) gomap" where
  "merge_ns_pool = (\<lambda>(accType, pool) inner.
     mput accType (case map_of inner accType of
         Some existing \<Rightarrow> tighterBudget existing (nsPoolBudget pool)
       | None \<Rightarrow> nsPoolBudget pool) inner)"

definition merge_namespace :: "string \<times> (string, resource_pool) gomap \<Rightarrow> ns_budgets option \<Rightarrow> ns_budgets option" where
  "merge_namespace = (\<lambda>(ns, perType) merged.
     let m = (case merged of None \<Rightarrow> [] | Some m \<Rightarrow> m) in
     Some (mput ns (fold merge_ns_pool perType (mget [] m ns)) m))"

definition mergeNamespaceConstraints :: "resource_constraints option list \<Rightarrow> ns_budgets option" where
  "mergeNamespaceConstraints constraints = fold (\<lambda>c merged. case c of
     None \<Rightarrow> merged | Some rc \<Rightarrow> fold merge_namespace (con_NamespacePools rc) merged) constraints None"

text \<open>Indexing the nil map gives nil.\<close>

definition ns_budget :: "ns_budgets option \<Rightarrow> string \<Rightarrow> (string, int) gomap option" where
  "ns_budget availableByNS ns = (case availableByNS of None \<Rightarrow> None | Some m \<Rightarrow> map_of m ns)"

definition effectiveAvailable :: "(string, int) gomap \<Rightarrow> (string, int) gomap option \<Rightarrow> (string, int) gomap" where
  "effectiveAvailable available nsBudget = (case nsBudget of
     None \<Rightarrow> available
   | Some m \<Rightarrow> map (\<lambda>(accType, nsAvail). (accType,
       if nsAvail < 0 then (case map_of available accType of Some cv \<Rightarrow> cv | None \<Rightarrow> MaxInt)
       else (case map_of available accType of
         Some cv \<Rightarrow> if cv < nsAvail then cv else nsAvail
       | None \<Rightarrow> nsAvail))) m)"

section \<open>The merged budget is the tightest\<close>

text \<open>All pools the providers report for a type, and for a type in a namespace.\<close>

definition pools_of :: "resource_constraints option list \<Rightarrow> string \<Rightarrow> resource_pool list" where
  "pools_of cs t = concat (map (\<lambda>c. case c of None \<Rightarrow> []
     | Some rc \<Rightarrow> map snd (filter (\<lambda>(a, _). a = t) (con_Pools rc))) cs)"

definition pool_budget :: "resource_pool \<Rightarrow> int" where
  "pool_budget p = (if rp_Limit p < 0 then MaxInt else Available p)"

abbreviation of_type :: "string \<Rightarrow> (string, resource_pool) gomap \<Rightarrow> int list" where
  "of_type t ps \<equiv> map (\<lambda>p. pool_budget (snd p)) (filter (\<lambda>p. fst p = t) ps)"

text \<open>A running minimum with nothing recorded before the first pool.\<close>

definition lowest :: "int list \<Rightarrow> int option \<Rightarrow> int option" where
  "lowest bs = fold (\<lambda>b cur. case cur of None \<Rightarrow> Some b | Some c \<Rightarrow> Some (min b c)) bs"

lemma lowest_simps [simp]: "lowest [] c = c"
  "lowest (b # bs) c = lowest bs (case c of None \<Rightarrow> Some b | Some c \<Rightarrow> Some (min b c))"
  by (simp_all add: lowest_def)

lemma lowest_append: "lowest (xs @ ys) c = lowest ys (lowest xs c)"
  by (simp add: lowest_def)

lemma lowest_Some: "lowest bs (Some c) = Some (Min (insert c (set bs)))"
proof (induction bs arbitrary: c)
  case (Cons b bs)
  have "Min (insert (min b c) (set bs)) = Min (insert c (set (b # bs)))"
  proof (cases "bs = []")
    case True
    then show ?thesis by (simp add: min.commute)
  next
    case False
    then have "Min (insert (min b c) (set bs)) = min (min b c) (Min (set bs))" by simp
    also have "\<dots> = min c (min b (Min (set bs)))" by linarith
    finally show ?thesis using False by simp
  qed
  then show ?case by (simp only: lowest_simps option.case Cons.IH)
qed simp

lemma lowest_None: "lowest bs None = (if bs = [] then None else Some (Min (set bs)))"
  by (cases bs) (simp_all add: lowest_Some)

lemma merge_pool_lookup:
  assumes "pool_budget (snd p) \<le> MaxInt" and "\<forall>c. map_of m t = Some c \<longrightarrow> c \<le> MaxInt"
  shows "map_of (merge_pool p m) t =
    (if fst p = t then (case map_of m t of None \<Rightarrow> Some (pool_budget (snd p)) | Some c \<Rightarrow> Some (min (pool_budget (snd p)) c))
     else map_of m t)"
  using assms
  by (cases p) (auto simp: merge_pool_def pool_budget_def mhas_def update_conv' min_def split: option.splits)

lemma merge_pools_lookup:
  assumes "\<forall>p\<in>set ps. pool_budget (snd p) \<le> MaxInt" and "\<forall>c. map_of m t = Some c \<longrightarrow> c \<le> MaxInt"
  shows "map_of (fold merge_pool ps m) t = lowest (of_type t ps) (map_of m t) \<and>
    (\<forall>c. map_of (fold merge_pool ps m) t = Some c \<longrightarrow> c \<le> MaxInt)"
  using assms
proof (induction ps arbitrary: m)
  case (Cons p ps)
  have p: "pool_budget (snd p) \<le> MaxInt" using Cons.prems by simp
  note l = merge_pool_lookup [OF p Cons.prems(2)]
  have b: "\<forall>c. map_of (merge_pool p m) t = Some c \<longrightarrow> c \<le> MaxInt"
    using p Cons.prems(2) unfolding l by (auto split: option.splits if_splits)
  have IH: "map_of (fold merge_pool ps (merge_pool p m)) t = lowest (of_type t ps) (map_of (merge_pool p m) t)"
    "\<forall>c. map_of (fold merge_pool ps (merge_pool p m)) t = Some c \<longrightarrow> c \<le> MaxInt"
    using Cons.IH [OF _ b] Cons.prems(1) by simp_all
  have "lowest (of_type t ps) (map_of (merge_pool p m) t) = lowest (of_type t (p # ps)) (map_of m t)"
    unfolding l by simp
  then show ?case using IH unfolding fold_simps by presburger
qed simp

text \<open>The budget of an accelerator type is the least that any provider has available for it: a
  provider with an unlimited quota counts as an unbounded budget, a type no provider lists has no
  budget at all, and the order of the providers does not matter.\<close>

theorem merged_budget_is_tightest:
  assumes "\<forall>c\<in>set cs. \<forall>rc. c = Some rc \<longrightarrow> (\<forall>p\<in>set (con_Pools rc). pool_budget (snd p) \<le> MaxInt)"
  shows "map_of (mergeConstraints cs) t =
    (if pools_of cs t = [] then None else Some (Min (pool_budget ` set (pools_of cs t))))"
proof -
  let ?f = "\<lambda>c merged. case c of None \<Rightarrow> merged | Some rc \<Rightarrow> fold merge_pool (con_Pools rc) merged"
  have "map_of (fold ?f cs m) t = lowest (map pool_budget (pools_of cs t)) (map_of m t)"
    if "\<forall>c. map_of m t = Some c \<longrightarrow> c \<le> MaxInt" for m
    using that assms
  proof (induction cs arbitrary: m)
    case (Cons c cs)
    show ?case
    proof (cases c)
      case None
      then show ?thesis using Cons by (simp add: pools_of_def)
    next
      case (Some rc)
      have ps: "\<forall>p\<in>set (con_Pools rc). pool_budget (snd p) \<le> MaxInt" using Cons.prems(2) Some by simp
      note l = merge_pools_lookup [OF ps Cons.prems(1)]
      have "map pool_budget (pools_of (c # cs) t) = of_type t (con_Pools rc) @ map pool_budget (pools_of cs t)"
        by (simp add: pools_of_def Some case_prod_unfold)
      then show ?thesis using Cons.IH [of "fold merge_pool (con_Pools rc) m"] l Cons.prems(2) Some
        by (simp add: lowest_append)
    qed
  qed (simp add: pools_of_def)
  from this [of "[]"] show ?thesis by (simp add: mergeConstraints_def lowest_None)
qed

definition example_constraints :: "(string, resource_pool) gomap \<Rightarrow> ns_pools \<Rightarrow> resource_constraints" where
  "example_constraints pools nsPools = \<lparr>con_ProviderName = ''p'', con_Pools = pools, con_NamespacePools = nsPools,
     con_TotalLimit = 0, con_TotalUsed = 0, con_TotalAvail = 0\<rparr>"

lemma merged_budget_is_tightest_witness:
  "map_of (mergeConstraints [Some (example_constraints [(''A100'', \<lparr>rp_Limit = 8, rp_Used = 3\<rparr>)] []), None,
     Some (example_constraints [(''A100'', \<lparr>rp_Limit = -1, rp_Used = 3\<rparr>)] [])]) ''A100'' = Some 5"
  using merged_budget_is_tightest [of "[Some (example_constraints [(''A100'', \<lparr>rp_Limit = 8, rp_Used = 3\<rparr>)] []), None,
     Some (example_constraints [(''A100'', \<lparr>rp_Limit = -1, rp_Used = 3\<rparr>)] [])]" "''A100''"]
  by (simp add: example_constraints_def pools_of_def pool_budget_def Available_def MaxInt_def)

section \<open>The budget of a model\<close>

lemma fold_keeps: "(\<And>x m. P m \<Longrightarrow> P (f x m)) \<Longrightarrow> P m \<Longrightarrow> P (fold f xs m)"
  by (induction xs arbitrary: m) auto

lemma fold_reaches: "(\<And>x m. P m \<Longrightarrow> P (f x m)) \<Longrightarrow> x \<in> set xs \<Longrightarrow> (\<And>m. P (f x m)) \<Longrightarrow> P (fold f xs m)"
  by (induction xs arbitrary: m) (auto intro: fold_keeps)

lemma fold_keeps_mem: "(\<And>x m. x \<in> set xs \<Longrightarrow> P m \<Longrightarrow> P (f x m)) \<Longrightarrow> P m \<Longrightarrow> P (fold f xs m)"
  by (induction xs arbitrary: m) auto

lemma Available_nonneg: "0 \<le> Available p"
  by (simp add: Available_def Let_def)

definition capped_at :: "int \<Rightarrow> int option \<Rightarrow> bool" where
  "capped_at A v \<longleftrightarrow> (\<exists>b. v = Some b \<and> 0 \<le> b \<and> b \<le> A)"

lemma merge_ns_pool_keeps: "capped_at A (map_of inner t) \<Longrightarrow> capped_at A (map_of (merge_ns_pool q inner) t)"
  by (cases q) (auto simp: merge_ns_pool_def capped_at_def update_conv' tighterBudget_def)

lemma merge_ns_pool_sets: "0 \<le> rp_Limit p \<Longrightarrow> capped_at (Available p) (map_of (merge_ns_pool (t, p) inner) t)"
  using Available_nonneg [of p]
  by (auto simp: merge_ns_pool_def capped_at_def update_conv' tighterBudget_def nsPoolBudget_def split: option.splits)

lemma merge_ns_pool_dom: "dom (map_of (fold merge_ns_pool ps inner)) = dom (map_of inner) \<union> fst ` set ps"
  by (induction ps arbitrary: inner) (auto simp: merge_ns_pool_def dom_update update_conv' split: prod.split option.splits)

definition closed_cap :: "int \<Rightarrow> string \<Rightarrow> string \<Rightarrow> ns_budgets option \<Rightarrow> bool" where
  "closed_cap A ns t m \<longleftrightarrow> (\<exists>inner. ns_budget m ns = Some inner \<and> capped_at A (map_of inner t))"

lemma merge_namespace_lookup:
  "ns_budget (merge_namespace (ns', perType) m) ns =
     (if ns = ns' then Some (fold merge_ns_pool perType (case ns_budget m ns of None \<Rightarrow> [] | Some i \<Rightarrow> i)) else ns_budget m ns)"
  by (auto simp: merge_namespace_def ns_budget_def Let_def update_conv' mget_def split: option.split)

lemma merge_namespace_keeps: "closed_cap A ns t m \<Longrightarrow> closed_cap A ns t (merge_namespace p m)"
proof -
  assume m: "closed_cap A ns t m"
  obtain ns' perType where p: "p = (ns', perType)" by (cases p)
  have "capped_at A (map_of (fold merge_ns_pool perType inner) t)" if "capped_at A (map_of inner t)" for inner
    by (rule fold_keeps [where P = "\<lambda>i. capped_at A (map_of i t)"]) (auto intro: merge_ns_pool_keeps that)
  then show ?thesis using m by (auto simp: p closed_cap_def merge_namespace_lookup)
qed

lemma merge_namespace_sets:
  assumes "(t, p) \<in> set perType" and "0 \<le> rp_Limit p"
  shows "closed_cap (Available p) ns t (merge_namespace (ns, perType) m)"
proof -
  have "capped_at (Available p) (map_of (fold merge_ns_pool perType inner) t)" for inner
    by (rule fold_reaches [where P = "\<lambda>i. capped_at (Available p) (map_of i t)", OF _ assms(1)])
      (auto intro: merge_ns_pool_keeps merge_ns_pool_sets assms(2))
  then show ?thesis by (simp add: closed_cap_def merge_namespace_lookup)
qed

lemma namespace_cap:
  assumes "Some rc \<in> set cs" and "(ns, perType) \<in> set (con_NamespacePools rc)" and "(t, p) \<in> set perType" and "0 \<le> rp_Limit p"
  shows "closed_cap (Available p) ns t (mergeNamespaceConstraints cs)"
  unfolding mergeNamespaceConstraints_def
  by (rule fold_reaches [where P = "closed_cap (Available p) ns t", OF _ assms(1)])
    (auto split: option.split intro: fold_keeps merge_namespace_keeps
      fold_reaches [where P = "closed_cap (Available p) ns t", OF _ assms(2)] merge_namespace_sets [OF assms(3,4)])

definition at_most :: "int \<Rightarrow> string \<Rightarrow> (string, int) gomap \<Rightarrow> bool" where
  "at_most A t m \<longleftrightarrow> (\<exists>b. map_of m t = Some b \<and> b \<le> A)"

lemma merge_pool_keeps: "at_most A t m \<Longrightarrow> at_most A t (merge_pool p m)"
  by (cases p) (auto simp: at_most_def merge_pool_def mhas_def update_conv' split: option.splits)

lemma merge_pool_sets: "0 \<le> rp_Limit p \<Longrightarrow> at_most (Available p) t (merge_pool (t, p) m)"
  by (auto simp: at_most_def merge_pool_def update_conv' split: option.splits)

lemma cluster_cap:
  assumes "Some rc \<in> set cs" and "(t, p) \<in> set (con_Pools rc)" and "0 \<le> rp_Limit p"
  shows "at_most (Available p) t (mergeConstraints cs)"
  unfolding mergeConstraints_def
  by (rule fold_reaches [where P = "at_most (Available p) t", OF _ assms(1)])
    (auto split: option.split intro: fold_keeps merge_pool_keeps
      fold_reaches [where P = "at_most (Available p) t", OF _ assms(2)] merge_pool_sets [OF assms(3)])

text \<open>What a closed namespace lists is what some provider lists for it.\<close>

definition ns_lists :: "resource_constraints option list \<Rightarrow> string \<Rightarrow> string \<Rightarrow> bool" where
  "ns_lists cs ns t \<longleftrightarrow> (\<exists>rc perType p. Some rc \<in> set cs \<and> (ns, perType) \<in> set (con_NamespacePools rc) \<and> (t, p) \<in> set perType)"

definition only_listed :: "resource_constraints option list \<Rightarrow> string \<Rightarrow> ns_budgets option \<Rightarrow> bool" where
  "only_listed cs ns m \<longleftrightarrow> (\<forall>inner t. ns_budget m ns = Some inner \<longrightarrow> t \<in> dom (map_of inner) \<longrightarrow> ns_lists cs ns t)"

lemma merge_namespace_listed:
  assumes "Some rc \<in> set cs" and "q \<in> set (con_NamespacePools rc)" and "only_listed cs ns m"
  shows "only_listed cs ns (merge_namespace q m)"
  unfolding only_listed_def
proof (intro allI impI)
  fix inner t assume i: "ns_budget (merge_namespace q m) ns = Some inner" "t \<in> dom (map_of inner)"
  obtain ns' perType where q: "q = (ns', perType)" by (cases q)
  have "ns_lists cs ns t" if "ns' = ns" "t \<in> fst ` set perType"
    unfolding ns_lists_def using that assms(1,2) q by fastforce
  moreover have "ns_lists cs ns t" if "ns_budget m ns = Some j" "t \<in> dom (map_of j)" for j
    using that assms(3) by (simp add: only_listed_def)
  moreover have "t \<in> dom (map_of (case ns_budget m ns of None \<Rightarrow> [] | Some j \<Rightarrow> j)) \<union> fst ` set perType" if "ns' = ns"
    using i that by (simp add: q merge_namespace_lookup flip: merge_ns_pool_dom)
  ultimately show "ns_lists cs ns t"
    using i by (cases "ns' = ns"; cases "ns_budget m ns") (auto simp: q merge_namespace_lookup)
qed

lemma listed_types: "only_listed cs ns (mergeNamespaceConstraints cs)"
  unfolding mergeNamespaceConstraints_def
proof (rule fold_keeps_mem)
  fix c m assume "c \<in> set cs" "only_listed cs ns m"
  then show "only_listed cs ns (case c of None \<Rightarrow> m | Some rc \<Rightarrow> fold merge_namespace (con_NamespacePools rc) m)"
    by (auto split: option.split intro!: fold_keeps_mem [where P = "only_listed cs ns"] merge_namespace_listed)
qed (simp add: only_listed_def ns_budget_def)

definition is_closed :: "string \<Rightarrow> ns_budgets option \<Rightarrow> bool" where
  "is_closed ns m \<longleftrightarrow> ns_budget m ns \<noteq> None"

lemma merge_namespace_closed: "is_closed ns m \<or> fst q = ns \<Longrightarrow> is_closed ns (merge_namespace q m)"
  by (cases q) (auto simp: is_closed_def merge_namespace_lookup)

lemma namespace_closed:
  assumes "Some rc \<in> set cs" and "(ns, perType) \<in> set (con_NamespacePools rc)"
  shows "is_closed ns (mergeNamespaceConstraints cs)"
proof -
  have "is_closed ns (fold merge_namespace (con_NamespacePools rc) m)" for m
    by (rule fold_reaches [where P = "is_closed ns", OF _ assms(2)]) (auto intro: merge_namespace_closed)
  then show ?thesis unfolding mergeNamespaceConstraints_def
    by (intro fold_reaches [where P = "is_closed ns", OF _ assms(1)])
      (auto split: option.split intro: fold_keeps merge_namespace_closed)
qed

lemma effective_lookup:
  "map_of (effectiveAvailable av (Some m)) t = map_option (\<lambda>x. if x < 0
      then (case map_of av t of Some cv \<Rightarrow> cv | None \<Rightarrow> MaxInt)
      else (case map_of av t of Some cv \<Rightarrow> if cv < x then cv else x | None \<Rightarrow> x)) (map_of m t)"
  unfolding effectiveAvailable_def option.case by (rule map_of_map_key)

text \<open>What a model may spend never exceeds what any provider has available: its budget for a type
  is at most the available count of every finite pool for the type, and at most that of every finite
  pool for the type in its namespace; and when any provider constrains the namespace, only types listed
  for the namespace have a budget at all.\<close>

theorem effective_budget_sound:
  assumes "map_of (effectiveAvailable (mergeConstraints cs) (ns_budget (mergeNamespaceConstraints cs) ns)) t = Some b"
    and "Some rc \<in> set cs"
  shows "((t, p) \<in> set (con_Pools rc) \<longrightarrow> 0 \<le> rp_Limit p \<longrightarrow> b \<le> Available p) \<and>
    ((ns, perType) \<in> set (con_NamespacePools rc) \<longrightarrow>
       ((t, p) \<in> set perType \<longrightarrow> 0 \<le> rp_Limit p \<longrightarrow> b \<le> Available p) \<and>
       ns_lists cs ns t)"
proof -
  let ?av = "mergeConstraints cs" and ?ns = "ns_budget (mergeNamespaceConstraints cs) ns"
  note eff = effective_lookup [of ?av]
  have cluster: "b \<le> Available p" if c1: "(t, p) \<in> set (con_Pools rc)" and c2: "0 \<le> rp_Limit p"
  proof -
    obtain c where c: "map_of ?av t = Some c" "c \<le> Available p" using cluster_cap [OF assms(2) c1 c2] by (auto simp: at_most_def)
    show ?thesis
    proof (cases ?ns)
      case None
      then show ?thesis using assms(1) c by (simp add: effectiveAvailable_def)
    next
      case (Some m)
      then show ?thesis using assms(1) c by (auto simp: eff split: if_splits)
    qed
  qed
  have own: "b \<le> Available p" if o: "(ns, perType) \<in> set (con_NamespacePools rc)" "(t, p) \<in> set perType" "0 \<le> rp_Limit p"
  proof -
    obtain m x where "?ns = Some m" "map_of m t = Some x" "0 \<le> x" "x \<le> Available p"
      using namespace_cap [OF assms(2) o] by (auto simp: closed_cap_def capped_at_def)
    then show ?thesis using assms(1) by (auto simp: eff split: option.splits)
  qed
  have present: "?ns \<noteq> None" if "(ns, perType) \<in> set (con_NamespacePools rc)"
    using namespace_closed [OF assms(2) that] by (simp add: is_closed_def)
  have "ns_lists cs ns t" if l: "(ns, perType) \<in> set (con_NamespacePools rc)"
  proof -
    obtain m where m: "?ns = Some m" using present [OF l] by auto
    then have "t \<in> dom (map_of m)" using assms(1) by (auto simp: eff)
    then show ?thesis using listed_types [of cs ns] m by (auto simp: only_listed_def)
  qed
  then show ?thesis using cluster own by blast
qed

definition example_providers :: "resource_constraints option list" where
  "example_providers = [Some (example_constraints [(''A100'', \<lparr>rp_Limit = 8, rp_Used = 3\<rparr>)] []),
     Some (example_constraints [] [(''ns'', [(''A100'', \<lparr>rp_Limit = 4, rp_Used = 1\<rparr>)])])]"

lemma effective_budget_sound_witness:
  "\<exists>b. map_of (effectiveAvailable (mergeConstraints example_providers)
     (ns_budget (mergeNamespaceConstraints example_providers) ''ns'')) ''A100'' = Some b \<and> b \<le> 3"
proof -
  let ?p = "\<lparr>rp_Limit = 4, rp_Used = 1\<rparr>"
  let ?rc = "example_constraints [] [(''ns'', [(''A100'', ?p)])]"
  obtain b where b: "map_of (effectiveAvailable (mergeConstraints example_providers)
      (ns_budget (mergeNamespaceConstraints example_providers) ''ns'')) ''A100'' = Some b"
    by (simp add: example_providers_def example_constraints_def effectiveAvailable_def mergeConstraints_def
        mergeNamespaceConstraints_def ns_budget_def merge_namespace_def merge_pool_def merge_ns_pool_def Let_def)
  have "Some ?rc \<in> set example_providers" by (simp add: example_providers_def)
  from effective_budget_sound [OF b this, of ?p "[(''A100'', ?p)]"] have "b \<le> Available ?p"
    by (simp add: example_constraints_def)
  then show ?thesis using b by (simp add: Available_def)
qed

section \<open>The optimizer's budget and the limiter's refusal\<close>

lemma cluster_constraints:
  assumes "ComputeConstraints disc u uns \<lparr>dl_name = n, dl_inventory = QuotaInv q\<rparr> = (Inr rc, l')"
    and "q_Scope (qi_cfg q) = QuotaScopeCluster"
  shows "con_Pools rc = map (\<lambda>(accType, limit). (accType, \<lparr>rp_Limit = limit, rp_Used = mget 0 u accType\<rparr>))
    (q_ClusterQuotas (qi_cfg q))"
  using assms by (auto simp: ComputeConstraints_def inv_Refresh_def inv_SetUsed_def inv_SetUsedByNamespace_def Let_def
      qi_SetUsed_def qi_SetUsedByNamespace_def inv_GetResourcePools_def qi_GetResourcePools_def NamespaceResourcePools_def
      QuotaScopeCluster_def QuotaScopeNamespace_def split: prod.splits)

lemma merge_one_provider:
  assumes "wf_map ps" and "map_of ps t = Some p" and "0 \<le> rp_Limit p" and "map_of m t = None"
  shows "map_of (fold merge_pool ps m) t = Some (Available p)"
proof -
  have skip: "map_of (fold merge_pool ps m) t = map_of m t" if "t \<notin> fst ` set ps" for ps m
    using that by (induction ps arbitrary: m) (auto simp: merge_pool_def update_conv' split: prod.splits option.splits)
  obtain xs ys where ps: "ps = xs @ (t, p) # ys" using map_of_SomeD [OF assms(2)] by (meson split_list)
  have no: "t \<notin> fst ` set xs" "t \<notin> fst ` set ys" using assms(1) ps by auto
  have "map_of (merge_pool (t, p) (fold merge_pool xs m)) t = Some (Available p)"
    using assms(3,4) skip [OF no(1)] by (simp add: merge_pool_def update_conv')
  then show ?thesis by (simp add: ps skip [OF no(2)])
qed

lemma merge_skips:
  "t \<notin> fst ` set ps \<Longrightarrow> map_of (fold merge_pool ps m) t = map_of m t"
  by (induction ps arbitrary: m) (auto simp: merge_pool_def update_conv' split: prod.splits option.splits)

text \<open>With two cluster-wide quota entries the two paths disagree on a type that only one of them lists:
  the limiter of the other entry grants nothing for the type, yet the merged budget the optimizer
  spends is what the listing entry has available.\<close>

theorem unlisted_type_keeps_budget:
  assumes "q_Scope (qi_cfg q) = QuotaScopeCluster" and "q_Scope (qi_cfg q') = QuotaScopeCluster"
    and "wf_map (q_ClusterQuotas (qi_cfg q))" and "map_of (q_ClusterQuotas (qi_cfg q)) t = Some quota" and "0 \<le> quota"
    and "map_of (q_ClusterQuotas (qi_cfg q')) t = None"
    and "ComputeConstraints disc used usedNS \<lparr>dl_name = n, dl_inventory = QuotaInv q\<rparr> = (Inr rc, l)"
    and "ComputeConstraints disc used usedNS \<lparr>dl_name = n', dl_inventory = QuotaInv q'\<rparr> = (Inr rc', l')"
  shows "fst (tryAllocateCluster t gpus (qi_CreateAllocator q')) = 0 \<and>
    map_of (mergeConstraints [Some rc, Some rc']) t = Some (Available \<lparr>rp_Limit = quota, rp_Used = mget 0 used t\<rparr>)"
proof
  show "fst (tryAllocateCluster t gpus (qi_CreateAllocator q')) = 0"
    using assms(6) by (simp add: tryAllocateCluster_def qi_CreateAllocator_def)
  let ?f = "\<lambda>accType quota. \<lparr>rp_Limit = quota, rp_Used = mget 0 used accType\<rparr>"
  note rc = cluster_constraints [OF assms(7,1)] and rc' = cluster_constraints [OF assms(8,2)]
  have "t \<notin> fst ` set (con_Pools rc')" using assms(6) by (force simp: rc' map_of_eq_None_iff)
  moreover have "map_of (fold merge_pool (con_Pools rc) []) t = Some (Available (?f t quota))"
    using assms(3,4,5) by (intro merge_one_provider) (force simp: rc comp_def case_prod_unfold)+
  ultimately show "map_of (mergeConstraints [Some rc, Some rc']) t = Some (Available (?f t quota))"
    by (simp add: mergeConstraints_def merge_skips)
qed

definition example_quota :: "string \<Rightarrow> quota_inventory" where
  "example_quota t = NewQuotaInventory \<lparr>q_Name = t, q_Type = ''quota'', q_Scope = QuotaScopeCluster,
     q_ClusterQuotas = [(t, 4)], q_NamespaceQuotas = [], q_Exclude = []\<rparr>"

lemma unlisted_type_keeps_budget_witness:
  "\<exists>rc rc'. map_of (mergeConstraints [Some rc, Some rc']) ''A100'' = Some 4 \<and>
     fst (tryAllocateCluster ''A100'' 2 (qi_CreateAllocator (example_quota ''H100''))) = 0"
proof -
  have "\<exists>rc l. ComputeConstraints (Inl []) [] [] \<lparr>dl_name = n, dl_inventory = QuotaInv (example_quota t)\<rparr> = (Inr rc, l)" for n t
    by (simp add: ComputeConstraints_def inv_Refresh_def inv_SetUsed_def inv_SetUsedByNamespace_def Let_def qi_SetUsed_def
        qi_SetUsedByNamespace_def NamespaceResourcePools_def example_quota_def NewQuotaInventory_def
        QuotaScopeCluster_def QuotaScopeNamespace_def split: prod.split)
  then obtain rc l rc' l' where
    "ComputeConstraints (Inl []) [] [] \<lparr>dl_name = [], dl_inventory = QuotaInv (example_quota ''A100'')\<rparr> = (Inr rc, l)"
    "ComputeConstraints (Inl []) [] [] \<lparr>dl_name = [], dl_inventory = QuotaInv (example_quota ''H100'')\<rparr> = (Inr rc', l')" by meson
  from unlisted_type_keeps_budget [OF _ _ _ _ _ _ this, of "''A100''" 4 2]
  have "fst (tryAllocateCluster ''A100'' 2 (qi_CreateAllocator (example_quota ''H100''))) = 0 \<and>
    map_of (mergeConstraints [Some rc, Some rc']) ''A100'' = Some (Available \<lparr>rp_Limit = 4, rp_Used = 0\<rparr>)"
    by (simp add: example_quota_def NewQuotaInventory_def)
  then show ?thesis by (auto simp: Available_def)
qed

end
