(* ===== verification/Greedy_Score.thy ===== *)
theory Greedy_Score
  imports Cost_Aware Gpu_Budget
begin

text \<open>
  The fair-share optimizer for clusters with a GPU budget (\<open>greedy_score_optimizer.go\<close>):
  the priority value of a model, the picker that stays within the budget, one allocation for a model
  with its reconciliation against the cluster and namespace budgets, and the loop that serves the
  models in turn.  That loop is given a number of rounds; running out of it is \<^const>\<open>None\<close>.
  A nil map of namespace budgets is \<^const>\<open>None\<close>.
\<close>

section \<open>Priority value and picker\<close>

definition fairShareValue :: "gofloat \<Rightarrow> named_result list \<Rightarrow> role_state \<Rightarrow> string list \<Rightarrow> gofloat" where
  "fairShareValue priority s ps roles =
     (let weighted = (\<Sum>(e, m)\<leftarrow>zip s ps. if nr_Result e = None then 0
            else (\<Sum>role\<leftarrow>roles. mget 0 m role) * nr_Score e);
          fsv = priority * weighted
      in if fsv > 0 then fsv
         else fold (\<lambda>(e, m) mx. if nr_Result e = None then mx
                else fold (\<lambda>role mx. if mget 0 m role > mx then mget 0 m role else mx) roles mx) (zip s ps) 0)"

fun first_within_budget :: "gofloat \<Rightarrow> state_map \<Rightarrow> (string, int) gomap \<Rightarrow> (string, int) gomap \<Rightarrow>
    variant_capacity list \<Rightarrow> string \<times> int" where
  "first_within_budget target stateMap available targets [] = ([], 0)"
| "first_within_budget target stateMap available targets (vc # vcs) =
     (let skip = first_within_budget target stateMap available targets vcs;
          state = mget zero_state stateMap (vc_VariantName vc);
          gpusPR = (if st_GPUsPerReplica state \<le> 0 then 1 else st_GPUsPerReplica state);
          gpusAvail = mget 0 available (vc_AcceleratorName vc);
          capN = min \<lceil>target / vc_PerReplicaCapacity vc\<rceil> (go_div gpusAvail gpusPR)
      in if vc_PerReplicaCapacity vc \<le> 0 then skip
         else if gpusAvail < gpusPR then skip
         else case st_MaxReplicas state of
           Some m \<Rightarrow>
             if m > 0 then
               (let headroom = m - mget 0 targets (vc_VariantName vc) in
                if headroom \<le> 0 then skip
                else if min capN headroom > 0 then (vc_VariantName vc, min capN headroom) else skip)
             else if capN > 0 then (vc_VariantName vc, capN) else skip
         | None \<Rightarrow> if capN > 0 then (vc_VariantName vc, capN) else skip)"

definition fairShareRolePick :: "gofloat \<Rightarrow> role_pick" where
  "fairShareRolePick target role s variants stateMap available targets =
     first_within_budget target stateMap available targets
       (sortByCostEfficiencyAsc (variantsForRole variants role))"

section \<open>One allocation\<close>

record model_work =
  mw_req :: model_request
  mw_s :: "named_result list"
  mw_anchor :: analyzer_result
  mw_ps :: role_state
  mw_roles :: "string list"
  mw_remaining :: gofloat
  mw_targets :: "(string, int) gomap"

record budgets =
  bg_available :: "(string, int) gomap"
  bg_byNS :: "ns_budgets option"

definition cap_demand :: "gofloat \<Rightarrow> string list \<Rightarrow> role_state \<Rightarrow> role_state" where
  "cap_demand target roles ps = map (fold (\<lambda>role m. if mget 0 m role > target then mput role target m else m) roles) ps"

text \<open>What was consumed of one type is taken off the finite cluster budget and the finite cap of the
  namespace.\<close>

definition spend_cluster :: "string \<Rightarrow> int \<Rightarrow> (string, int) gomap \<Rightarrow> (string, int) gomap" where
  "spend_cluster accType consumed available = (case map_of available accType of
     None \<Rightarrow> available
   | Some cur \<Rightarrow> if cur \<noteq> MaxInt then mput accType (cur - consumed) available else available)"

definition spend_namespace :: "string \<Rightarrow> string \<Rightarrow> int \<Rightarrow> ns_budgets option \<Rightarrow> ns_budgets option" where
  "spend_namespace ns accType consumed byNS = (case byNS of
     None \<Rightarrow> None
   | Some m \<Rightarrow> (case map_of m ns of
       None \<Rightarrow> byNS
     | Some inner \<Rightarrow> (case map_of inner accType of
         None \<Rightarrow> byNS
       | Some nsCap \<Rightarrow> if nsCap \<ge> 0 then Some (mput ns (mput accType (nsCap - consumed) inner) m) else byNS)))"

definition reconcile :: "string \<Rightarrow> (string, int) gomap \<Rightarrow> string \<times> int \<Rightarrow> budgets \<Rightarrow> budgets" where
  "reconcile ns effAvail = (\<lambda>(accType, before) b.
     let consumed = before - mget 0 effAvail accType in
     if consumed \<le> 0 then b
     else \<lparr>bg_available = spend_cluster accType consumed (bg_available b),
           bg_byNS = spend_namespace ns accType consumed (bg_byNS b)\<rparr>)"

definition allocateForModel :: "model_work \<Rightarrow> gofloat \<Rightarrow> budgets \<Rightarrow> bool \<times> model_work \<times> budgets" where
  "allocateForModel w mean b =
     (let target = mw_remaining w - mean in
      if target \<le> 0 then (False, w, b)
      else let stateMap = buildStateMap (mr_VariantStates (mw_req w));
               (_, ps, s) = initRoleState (mw_s w);
               ns = mr_Namespace (mw_req w);
               effAvail = effectiveAvailable (bg_available b) (ns_budget (bg_byNS b) ns);
               st = allocateForModelPaired (fairShareRolePick target) (ar_VariantCapacities (mw_anchor w)) stateMap
                 (mw_roles w) \<lparr>as_ballot = s, as_available = Some effAvail, as_targets = mw_targets w,
                   as_demand = cap_demand target (mw_roles w) ps\<rparr>;
               b' = fold (reconcile ns (budget_map st)) effAvail b;
               (_, freshPs, freshS) = initRoleState (as_ballot st);
               single = (mw_roles w = [RoleBoth]);
               s' = (if single then freshS else as_ballot st);
               left = fairShareValue (mr_Priority (mw_req w)) s' (if single then freshPs else as_demand st) (mw_roles w)
           in (left < mw_remaining w,
               w\<lparr>mw_s := s', mw_targets := as_targets st, mw_remaining := left\<rparr>, b'))"

section \<open>Serving the models in turn\<close>

definition filterActive :: "model_work list \<Rightarrow> (nat \<times> model_work) list" where
  "filterActive work = filter (\<lambda>(_, w). mw_remaining w > 0) (zip [0..<length work] work)"

definition computeMean :: "(nat \<times> model_work) list \<Rightarrow> gofloat" where
  "computeMean active = (if active = [] then 0 else (\<Sum>(_, w)\<leftarrow>active. mw_remaining w) / of_nat (length active))"

definition sortByRemainingDesc :: "(nat \<times> model_work) list \<Rightarrow> (nat \<times> model_work) list" where
  "sortByRemainingDesc active = go_sort (\<lambda>a b. mw_remaining (snd a) > mw_remaining (snd b)) active"

definition total_gpus :: "(string, int) gomap \<Rightarrow> int" where
  "total_gpus available = (if list_ex (\<lambda>(_, v). v = MaxInt) available then MaxInt else msum available)"

text \<open>One round; \<^const>\<open>None\<close> is a \<open>break\<close>.\<close>

definition fair_share_round :: "model_work list \<times> budgets \<Rightarrow> (model_work list \<times> budgets) option" where
  "fair_share_round = (\<lambda>(work, b).
     let active = filterActive work in
     if active = [] then None
     else if total_gpus (bg_available b) = 0 then None
     else let mean = computeMean active;
              (i, w) = hd (sortByRemainingDesc active);
              allocationMean =
                (if length active = 1 then 0
                 else if mw_remaining w \<le> mean then mean - mw_remaining w / of_nat (length active)
                 else mean);
              (allocated, w1, b') = allocateForModel w allocationMean b;
              w2 = (if \<not> allocated \<or> mw_remaining w1 > mean then w1\<lparr>mw_remaining := -1\<rparr> else w1)
          in Some (work[i := w2], b'))"

fun fairShareScaleUp :: "nat \<Rightarrow> model_work list \<times> budgets \<Rightarrow> (model_work list \<times> budgets) option" where
  "fairShareScaleUp 0 x = None"
| "fairShareScaleUp (Suc n) x = (case fair_share_round x of None \<Rightarrow> Some x | Some y \<Rightarrow> fairShareScaleUp n y)"

definition buildScaleUpWork :: "model_request \<Rightarrow> analyzer_result \<Rightarrow> named_result list \<Rightarrow> role_state \<Rightarrow> string list \<Rightarrow>
    gofloat \<Rightarrow> model_work option" where
  "buildScaleUpWork req anchor s ps roles fsv =
     (if fsv \<le> 0 then None
      else Some \<lparr>mw_req = req, mw_s = s, mw_anchor = anchor, mw_ps = ps, mw_roles = roles, mw_remaining = fsv,
             mw_targets = initTargets (mr_VariantStates req)\<rparr>)"

section \<open>The picker keeps its contracts\<close>

lemma first_within_budget_facts:
  "first_within_budget target sm av tg vcs = (v, c) \<Longrightarrow> v \<noteq> [] \<Longrightarrow>
     \<exists>vc\<in>set vcs. vc_VariantName vc = v \<and> 0 < vc_PerReplicaCapacity vc \<and> 0 < c \<and>
       within_limit sm v (mget 0 tg v + c) \<and>
       c * gpusPerReplicaFromState sm v \<le> mget 0 av (vc_AcceleratorName vc)"
proof (induction vcs)
  case (Cons vc vcs)
  define g where "g = gpusPerReplicaFromState sm (vc_VariantName vc)"
  define a where "a = mget 0 av (vc_AcceleratorName vc)"
  have g: "(if st_GPUsPerReplica (mget zero_state sm (vc_VariantName vc)) \<le> 0 then 1
      else st_GPUsPerReplica (mget zero_state sm (vc_VariantName vc))) = g" "0 < g"
    by (auto simp: g_def gpusPerReplicaFromState_def mget_def zero_state_def split: option.splits)
  have fit: "c * g \<le> a" if "c \<le> go_div a g" "g \<le> a"
  proof -
    have "c * g \<le> go_div a g * g" using that g(2) by (intro mult_right_mono) auto
    also have "\<dots> \<le> a" using that g(2) by (intro go_div_mult_le) auto
    finally show ?thesis .
  qed
  define k where "k = min \<lceil>target / vc_PerReplicaCapacity vc\<rceil> (go_div a g)"
  let ?skip = "first_within_budget target sm av tg vcs"
  have eq: "first_within_budget target sm av tg (vc # vcs) =
      (if vc_PerReplicaCapacity vc \<le> 0 \<or> a < g then ?skip
       else case replica_limit sm (vc_VariantName vc) of
         None \<Rightarrow> if k > 0 then (vc_VariantName vc, k) else ?skip
       | Some m \<Rightarrow> let h = m - mget 0 tg (vc_VariantName vc) in
           if h \<le> 0 then ?skip else if min k h > 0 then (vc_VariantName vc, min k h) else ?skip)"
    unfolding first_within_budget.simps Let_def g(1) a_def [symmetric] k_def [symmetric] replica_limit_def
    by (simp split: option.split)
  show ?case
  proof (cases "?skip = (v, c)")
    case True
    then show ?thesis using Cons.IH Cons.prems(2) by auto
  next
    case False
    then have "v = vc_VariantName vc" "0 < vc_PerReplicaCapacity vc" "0 < c" "c \<le> go_div a g" "g \<le> a"
      "within_limit sm v (mget 0 tg v + c)"
      using Cons.prems(1) unfolding eq
      by (auto simp: Let_def within_limit_def k_def split: if_splits option.splits)
    then show ?thesis using fit by (auto simp: g_def a_def)
  qed
qed simp

text \<open>A picker that never asks for more GPUs than the budget of the accelerator holds.\<close>

locale budget_picker = role_picker +
  assumes pick_budget: "pick role s vcs sm av tg = (v, c) \<Longrightarrow> v \<noteq> [] \<Longrightarrow> distinct (names vcs) \<Longrightarrow>
      c * gpusPerReplicaFromState sm v \<le> mget 0 av (accFromVCs vcs v)"

lemma fair_share_budget_picker: "budget_picker (fairShareRolePick target)"
proof
  fix role s vcs sm av tg v c
  assume p: "fairShareRolePick target role s vcs sm av tg = (v, c)" and v: "v \<noteq> []"
  obtain vc where vc: "vc \<in> set vcs" "canon_role (vc_Role vc) = role" "vc_VariantName vc = v" "0 < vc_PerReplicaCapacity vc"
    "0 < c" "within_limit sm v (mget 0 tg v + c)" "c * gpusPerReplicaFromState sm v \<le> mget 0 av (vc_AcceleratorName vc)"
    using first_within_budget_facts [OF p [unfolded fairShareRolePick_def] v]
    by (auto simp: sortByCostEfficiencyAsc_def variantsForRole_def)
  show "\<exists>vc\<in>set vcs. vc_VariantName vc = v \<and> canon_role (vc_Role vc) = role \<and> 0 < vc_PerReplicaCapacity vc"
    and "0 < c" and "within_limit sm v (mget 0 tg v + c)" using vc by auto
  show "c * gpusPerReplicaFromState sm v \<le> mget 0 av (accFromVCs vcs v)" if "distinct (names vcs)"
    using vc accFromVCs_distinct [OF that vc(1)] by simp
qed

interpretation fair_pick: budget_picker "fairShareRolePick target" for target
  by (rule fair_share_budget_picker)

section \<open>A single role never overdraws the budget\<close>

context budget_picker
begin

lemma single_role_budget:
  fixes r :: string and st :: alloc_state and sm :: state_map and vcs :: "variant_capacity list"
  assumes "distinct (names vcs)" and "as_available st \<noteq> None"
  defines "st' \<equiv> allocateForModelPaired pick vcs sm [r] st"
  shows "as_available st' \<noteq> None \<and> mget 0 (budget_map st') a \<le> mget 0 (budget_map st) a \<and>
    (0 \<le> mget 0 (budget_map st) a \<longrightarrow> 0 \<le> mget 0 (budget_map st') a)"
  unfolding st'_def
proof (rule paired_invariant)
  fix x y assume I: "as_available x \<noteq> None \<and> mget 0 (budget_map x) a \<le> mget 0 (budget_map st) a \<and>
    (0 \<le> mget 0 (budget_map st) a \<longrightarrow> 0 \<le> mget 0 (budget_map x) a)"
    and step: "paired_step pick vcs sm [r] x = Some y"
  obtain cs where roles: "map (\<lambda>c. fst (fst c)) cs = [r]"
    and cs: "\<forall>c\<in>set cs. 0 \<le> snd c \<and> snd c \<le> snd (snd (fst c)) \<and>
      pick (fst (fst c)) (as_ballot x) vcs sm (budget_map x) (as_targets x) = snd (fst c) \<and> fst (snd (fst c)) \<noteq> []"
    and av: "as_available y = as_available (fold (commit_role vcs sm) cs x)"
    by (rule step_commits [OF step _ assms(1)]) simp
  obtain v n k where c: "cs = [((r, v, n), k)]" using roles by (auto simp: map_eq_Cons_conv)
  obtain m where m: "as_available x = Some m" using I by auto
  let ?g = "gpusPerReplicaFromState sm v"
  have k: "0 \<le> k" "k \<le> n" "v \<noteq> []" and p: "pick r (as_ballot x) vcs sm (budget_map x) (as_targets x) = (v, n)"
    using cs c by simp_all
  have g: "0 < ?g" by (auto simp: gpusPerReplicaFromState_def split: option.splits)
  have "k * ?g \<le> n * ?g" using k g by (intro mult_right_mono) auto
  also have "\<dots> \<le> mget 0 m (accFromVCs vcs v)"
    using pick_budget [OF p k(3) assms(1)] by (simp add: budget_map_def m)
  finally have "k * ?g \<le> mget 0 m (accFromVCs vcs v)" .
  moreover obtain m' where m': "as_available y = Some m'" and "mget 0 m' a = mget 0 m a -
      (if accFromVCs vcs v = a then k * ?g else 0)"
    using commit_fold_available [OF m, of vcs sm cs] unfolding av by (auto simp: c)
  moreover have "0 \<le> k * ?g" using k g by simp
  ultimately show "as_available y \<noteq> None \<and> mget 0 (budget_map y) a \<le> mget 0 (budget_map st) a \<and>
    (0 \<le> mget 0 (budget_map st) a \<longrightarrow> 0 \<le> mget 0 (budget_map y) a)"
    using I by (auto simp: budget_map_def m)
qed (use assms(2) in auto)

end

section \<open>What one allocation takes from the budgets\<close>

definition spend_value :: "int option \<Rightarrow> int \<Rightarrow> int option" where
  "spend_value v d = (case v of None \<Rightarrow> None | Some c \<Rightarrow> Some (if c \<noteq> MaxInt then c - d else c))"

definition ns_value :: "ns_budgets option \<Rightarrow> string \<Rightarrow> string \<Rightarrow> int option" where
  "ns_value m n t = (case ns_budget m n of None \<Rightarrow> None | Some inner \<Rightarrow> map_of inner t)"

definition spend_ns_value :: "int option \<Rightarrow> int \<Rightarrow> int option" where
  "spend_ns_value v d = (case v of None \<Rightarrow> None | Some c \<Rightarrow> Some (if c \<ge> 0 then c - d else c))"

lemma spend_zero [simp]: "spend_value v 0 = v" "spend_ns_value v 0 = v"
  by (simp_all add: spend_value_def spend_ns_value_def split: option.split)

lemma spend_cluster_lookup:
  "map_of (spend_cluster a d m) t = (if t = a then spend_value (map_of m t) d else map_of m t)"
  by (auto simp: spend_cluster_def spend_value_def update_conv' split: option.split)

lemma spend_namespace_lookup:
  "ns_value (spend_namespace ns a d m) n t =
     (if n = ns \<and> t = a then spend_ns_value (ns_value m n t) d else ns_value m n t)"
  by (auto simp: spend_namespace_def ns_value_def ns_budget_def spend_ns_value_def update_conv' split: option.split)

lemma spend_namespace_closed: "is_closed n (spend_namespace ns a d m) = is_closed n m"
  by (auto simp: spend_namespace_def is_closed_def ns_budget_def update_conv' split: option.split)

definition consumed_of :: "(string, int) gomap \<Rightarrow> (string, int) gomap \<Rightarrow> string \<Rightarrow> int" where
  "consumed_of e xs t = (case map_of xs t of None \<Rightarrow> 0 | Some before \<Rightarrow> max 0 (before - mget 0 e t))"

lemma reconcile_fold:
  assumes "wf_map xs"
  shows "map_of (bg_available (fold (reconcile ns e) xs b)) t = spend_value (map_of (bg_available b) t) (consumed_of e xs t)"
    and "ns_value (bg_byNS (fold (reconcile ns e) xs b)) n t =
      (if n = ns then spend_ns_value (ns_value (bg_byNS b) n t) (consumed_of e xs t) else ns_value (bg_byNS b) n t)"
    and "is_closed n (bg_byNS (fold (reconcile ns e) xs b)) = is_closed n (bg_byNS b)"
proof -
  have one: "map_of (bg_available (reconcile ns e (a, x) b)) t =
      (if t = a then spend_value (map_of (bg_available b) t) (max 0 (x - mget 0 e a)) else map_of (bg_available b) t)"
    "ns_value (bg_byNS (reconcile ns e (a, x) b)) n t =
      (if n = ns \<and> t = a then spend_ns_value (ns_value (bg_byNS b) n t) (max 0 (x - mget 0 e a)) else ns_value (bg_byNS b) n t)"
    "is_closed n (bg_byNS (reconcile ns e (a, x) b)) = is_closed n (bg_byNS b)" for a x b t n
    by (auto simp: reconcile_def Let_def spend_cluster_lookup spend_namespace_lookup spend_namespace_closed max_def)
  have absent: "consumed_of e xs a = 0" if "a \<notin> fst ` set xs" for a xs
    using that by (simp add: consumed_of_def flip: map_of_eq_None_iff)
  have cons: "consumed_of e ((a, x) # xs) t = (if t = a then max 0 (x - mget 0 e a) else consumed_of e xs t)" for a x xs t
    by (simp add: consumed_of_def)
  have nil: "consumed_of e [] t = 0" for t by (simp add: consumed_of_def)
  show "map_of (bg_available (fold (reconcile ns e) xs b)) t = spend_value (map_of (bg_available b) t) (consumed_of e xs t)"
    using assms
  proof (induction xs arbitrary: b)
    case (Cons x xs)
    obtain a y where x: "x = (a, y)" by (cases x)
    show ?case using Cons absent [of a xs] by (cases "t = a") (simp_all add: x one(1) cons)
  qed (simp add: nil)
  show "ns_value (bg_byNS (fold (reconcile ns e) xs b)) n t =
      (if n = ns then spend_ns_value (ns_value (bg_byNS b) n t) (consumed_of e xs t) else ns_value (bg_byNS b) n t)"
    using assms
  proof (induction xs arbitrary: b)
    case (Cons x xs)
    obtain a y where x: "x = (a, y)" by (cases x)
    show ?case using Cons absent [of a xs] by (cases "t = a") (simp_all add: x one(2) cons)
  qed (simp add: nil)
  show "is_closed n (bg_byNS (fold (reconcile ns e) xs b)) = is_closed n (bg_byNS b)"
  proof (induction xs arbitrary: b)
    case (Cons x xs)
    then show ?case by (cases x) (simp add: one(3))
  qed simp
qed

text \<open>Budgets with distinct keys and nothing overdrawn.\<close>

definition budgets_ok :: "budgets \<Rightarrow> bool" where
  "budgets_ok b \<longleftrightarrow> wf_map (bg_available b) \<and> (\<forall>t c. map_of (bg_available b) t = Some c \<longrightarrow> 0 \<le> c) \<and>
     (\<forall>n inner. ns_budget (bg_byNS b) n = Some inner \<longrightarrow> wf_map inner)"

lemma effective_wf: "budgets_ok b \<Longrightarrow> wf_map (effectiveAvailable (bg_available b) (ns_budget (bg_byNS b) n))"
  by (auto simp: budgets_ok_def effectiveAvailable_def comp_def case_prod_unfold split: option.split)

lemma effective_bounds:
  fixes n :: string
  assumes "budgets_ok b"
  defines "e \<equiv> effectiveAvailable (bg_available b) (ns_budget (bg_byNS b) n)"
  shows "0 \<le> mget 0 e t" and "map_of (bg_available b) t = Some c \<Longrightarrow> mget 0 e t \<le> c"
    and "ns_value (bg_byNS b) n t = Some c \<Longrightarrow> 0 \<le> c \<Longrightarrow> mget 0 e t \<le> c"
    and "is_closed n (bg_byNS b) \<Longrightarrow> ns_value (bg_byNS b) n t = None \<Longrightarrow> mget 0 e t = 0"
proof -
  have pos: "map_of (bg_available b) t = Some c \<Longrightarrow> 0 \<le> c" for c using assms(1) by (simp add: budgets_ok_def)
  show "0 \<le> mget 0 e t"
    using pos by (cases "ns_budget (bg_byNS b) n")
      (auto simp: e_def effectiveAvailable_def [of _ None] mget_def effective_lookup MaxInt_def split: option.splits)
  show "map_of (bg_available b) t = Some c \<Longrightarrow> mget 0 e t \<le> c"
    using pos by (cases "ns_budget (bg_byNS b) n")
      (auto simp: e_def effectiveAvailable_def [of _ None] mget_def effective_lookup split: option.splits)
  show "ns_value (bg_byNS b) n t = Some c \<Longrightarrow> 0 \<le> c \<Longrightarrow> mget 0 e t \<le> c"
    by (auto simp: e_def ns_value_def mget_def effective_lookup split: option.splits)
  show "is_closed n (bg_byNS b) \<Longrightarrow> ns_value (bg_byNS b) n t = None \<Longrightarrow> mget 0 e t = 0"
    by (auto simp: e_def ns_value_def is_closed_def mget_def effective_lookup split: option.splits)
qed

abbreviation work_states :: "model_work \<Rightarrow> state_map" where
  "work_states w \<equiv> buildStateMap (mr_VariantStates (mw_req w))"

abbreviation work_variants :: "model_work \<Rightarrow> variant_capacity list" where
  "work_variants w \<equiv> ar_VariantCapacities (mw_anchor w)"

definition work_gpus :: "model_work \<Rightarrow> string \<Rightarrow> int" where
  "work_gpus w t = gpus_on (work_variants w) (work_states w) (mw_targets w) t"

text \<open>A model with one role and variants of distinct names.\<close>

definition single_role :: "model_work \<Rightarrow> bool" where
  "single_role w \<longleftrightarrow> mw_roles w = [RoleBoth] \<and> distinct (names (work_variants w))"

definition same_model :: "model_work \<Rightarrow> model_work \<Rightarrow> bool" where
  "same_model w w' \<longleftrightarrow> mw_req w' = mw_req w \<and> mw_anchor w' = mw_anchor w \<and> mw_roles w' = mw_roles w"

lemma spend_available_wf: "wf_map (bg_available b) \<Longrightarrow> wf_map (bg_available (fold (reconcile ns e) xs b))"
  by (induction xs arbitrary: b)
    (auto simp: reconcile_def Let_def spend_cluster_def split: prod.split option.split)

lemma reconcile_inner_wf:
  "(\<forall>n inner. ns_budget (bg_byNS b) n = Some inner \<longrightarrow> wf_map inner) \<Longrightarrow>
     ns_budget (bg_byNS (fold (reconcile ns e) xs b)) n = Some inner \<Longrightarrow> wf_map inner"
proof (induction xs arbitrary: b)
  case (Cons x xs)
  have "\<forall>n inner. ns_budget (bg_byNS (reconcile ns e x b)) n = Some inner \<longrightarrow> wf_map inner"
    using Cons.prems(1)
    by (cases x) (auto simp: reconcile_def Let_def spend_namespace_def ns_budget_def update_conv' split: option.splits if_splits)
  then show ?case using Cons.IH Cons.prems(2) by simp
qed simp

lemma allocate_effect:
  assumes ok: "budgets_ok b" and w: "single_role w" and alloc: "allocateForModel w mean b = (done, w', b')"
  obtains delta where "\<And>t. work_gpus w' t = work_gpus w t + delta t"
    and "\<And>t. 0 \<le> delta t \<and> delta t \<le> mget 0 (effectiveAvailable (bg_available b) (ns_budget (bg_byNS b) (mr_Namespace (mw_req w)))) t"
    and "\<And>t. map_of (bg_available b') t = spend_value (map_of (bg_available b) t) (delta t)"
    and "\<And>n t. ns_value (bg_byNS b') n t =
      (if n = mr_Namespace (mw_req w) then spend_ns_value (ns_value (bg_byNS b) n t) (delta t) else ns_value (bg_byNS b) n t)"
    and "\<And>n. is_closed n (bg_byNS b') = is_closed n (bg_byNS b)"
    and "same_model w w'" and "budgets_ok b'"
proof (cases "mw_remaining w - mean \<le> 0")
  case True
  then have "w' = w" "b' = b" using alloc by (auto simp: allocateForModel_def Let_def)
  then show ?thesis using that [of "\<lambda>_. 0"] effective_bounds(1) [OF ok] ok by (simp add: same_model_def)
next
  case False
  define target where "target = mw_remaining w - mean"
  define ns where "ns = mr_Namespace (mw_req w)"
  define e where "e = effectiveAvailable (bg_available b) (ns_budget (bg_byNS b) ns)"
  obtain rs ps s where init: "initRoleState (mw_s w) = (rs, ps, s)" by (metis prod.exhaust)
  define st0 where "st0 = \<lparr>as_ballot = s, as_available = Some e, as_targets = mw_targets w,
    as_demand = cap_demand target (mw_roles w) ps\<rparr>"
  define st where "st = allocateForModelPaired (fairShareRolePick target) (work_variants w) (work_states w) (mw_roles w) st0"
  have roles: "mw_roles w = [RoleBoth]" and d: "distinct (names (work_variants w))" using w by (simp_all add: single_role_def)
  have res: "b' = fold (reconcile ns (budget_map st)) e b" "mw_targets w' = as_targets st" "same_model w w'"
    using alloc False
    by (auto simp: allocateForModel_def Let_def init target_def [symmetric] ns_def [symmetric] e_def [symmetric]
        st0_def [symmetric] st_def [symmetric] same_model_def split: prod.splits)
  have bm0: "budget_map st0 = e" "as_available st0 \<noteq> None" "as_targets st0 = mw_targets w"
    by (simp_all add: budget_map_def st0_def)
  have gpus: "mget 0 (budget_map st) t + gpus_on (work_variants w) (work_states w) (as_targets st) t =
      mget 0 e t + gpus_on (work_variants w) (work_states w) (mw_targets w) t" for t
    using fair_pick.loop_keeps_budget [where target = target and roles = "[RoleBoth]" and st = st0 and sm = "work_states w"
        and a = t, OF _ d bm0(2)] by (simp add: bm0(1,3) st_def roles)
  have bounds: "mget 0 (budget_map st) t \<le> mget 0 e t" "0 \<le> mget 0 (budget_map st) t" for t
    using fair_pick.single_role_budget [where target = target and st = st0 and sm = "work_states w" and r = RoleBoth
        and a = t, OF d bm0(2)] effective_bounds(1) [where b = b and n = ns and t = t, OF ok]
    by (simp_all add: bm0(1) st_def roles e_def)
  let ?d = "\<lambda>t. mget 0 e t - mget 0 (budget_map st) t"
  have cons: "consumed_of (budget_map st) e t = ?d t" for t
    using bounds [of t] by (auto simp: consumed_of_def mget_def split: option.splits)
  note rec = reconcile_fold [where ns = ns and e = "budget_map st" and b = b, OF effective_wf [OF ok, of ns, folded e_def],
      unfolded cons, folded res(1)]
  have ok': "budgets_ok b'"
    unfolding budgets_ok_def
  proof (intro conjI allI impI)
    show "wf_map (bg_available b')" using ok by (auto simp: res(1) budgets_ok_def intro: spend_available_wf)
    fix t c assume c: "map_of (bg_available b') t = Some c"
    then obtain c0 where "map_of (bg_available b) t = Some c0" by (auto simp: rec spend_value_def split: option.splits)
    then show "0 \<le> c" using c effective_bounds(2) [where b = b and n = ns and t = t and c = c0, OF ok] bounds [of t]
      by (auto simp: rec spend_value_def e_def MaxInt_def split: if_splits)
  next
    fix n inner assume "ns_budget (bg_byNS b') n = Some inner"
    then show "wf_map inner" using ok unfolding res(1) budgets_ok_def by (blast intro: reconcile_inner_wf)
  qed
  show ?thesis
  proof (rule that [of ?d])
    show "work_gpus w' t = work_gpus w t + ?d t" for t
      using gpus [of t] res(2,3) by (simp add: work_gpus_def same_model_def)
  qed (use bounds rec res(3) ok' in \<open>auto simp: e_def ns_def\<close>)
qed

section \<open>Rounds\<close>

lemma filterActive_mem:
  "(i, w) \<in> set (filterActive work) \<longleftrightarrow> i < length work \<and> work ! i = w \<and> mw_remaining w > 0"
  by (auto simp: filterActive_def set_zip intro!: exI [of _ i])

lemma fair_share_round_cases:
  assumes "fair_share_round (work, b) = Some (work', b')"
  obtains i mean ok w1 where "i < length work" and "0 < mw_remaining (work ! i)"
    and "allocateForModel (work ! i) mean b = (ok, w1, b')"
    and "work' = work[i := (if \<not> ok then w1\<lparr>mw_remaining := -1\<rparr> else w1)] \<or> work' = work[i := w1\<lparr>mw_remaining := -1\<rparr>]"
proof -
  define active where "active = filterActive work"
  have ne: "active \<noteq> []" using assms by (auto simp: fair_share_round_def Let_def active_def split: if_splits)
  obtain i w where iw: "hd (sortByRemainingDesc active) = (i, w)" by (metis prod.exhaust)
  have "sortByRemainingDesc active \<noteq> []" using ne by (metis length_0_conv length_go_sort sortByRemainingDesc_def)
  then have "(i, w) \<in> set active" using iw hd_in_set by (metis set_go_sort sortByRemainingDesc_def)
  then have i: "i < length work" "w = work ! i" "0 < mw_remaining (work ! i)" by (auto simp: active_def filterActive_mem)
  define mean where "mean = computeMean active"
  define am where "am = (if length active = 1 then 0
    else if mw_remaining w \<le> mean then mean - mw_remaining w / of_nat (length active) else mean)"
  obtain ok w1 b1 where al: "allocateForModel w am b = (ok, w1, b1)" by (metis prod.exhaust)
  have "total_gpus (bg_available b) \<noteq> 0" using assms ne
    by (auto simp: fair_share_round_def Let_def active_def [symmetric] split: if_splits)
  then have "fair_share_round (work, b) =
      Some (work[i := (if \<not> ok \<or> mw_remaining w1 > mean then w1\<lparr>mw_remaining := -1\<rparr> else w1)], b1)"
    unfolding fair_share_round_def prod.case Let_def active_def [symmetric] mean_def [symmetric] iw am_def [symmetric] al
    using ne by simp
  then have "work' = work[i := (if \<not> ok \<or> mw_remaining w1 > mean then w1\<lparr>mw_remaining := -1\<rparr> else w1)]" "b1 = b'"
    using assms by simp_all
  then show ?thesis using that [OF i(1,3)] al i(2) by (auto split: if_splits)
qed

definition group_gpus :: "(model_work \<Rightarrow> bool) \<Rightarrow> model_work list \<Rightarrow> string \<Rightarrow> int" where
  "group_gpus P work t = (\<Sum>w\<leftarrow>work. if P w then work_gpus w t else 0)"

lemma group_gpus_update:
  assumes "i < length work"
  shows "group_gpus P (work[i := w]) t = group_gpus P work t - (if P (work ! i) then work_gpus (work ! i) t else 0) +
    (if P w then work_gpus w t else 0)"
  unfolding group_gpus_def using sum_list_update_int [OF assms, of "\<lambda>w. if P w then work_gpus w t else 0" w] by simp

text \<open>The effect of a round on the ledger of every type and namespace.\<close>

lemma round_effect:
  assumes "fair_share_round (work, b) = Some (work', b')" and "budgets_ok b" and "list_all single_role work"
  obtains i delta where "i < length work" and "list_all single_role work'" and "budgets_ok b'"
    and "\<And>n. is_closed n (bg_byNS b') = is_closed n (bg_byNS b)"
    and "\<And>t. group_gpus (\<lambda>_. True) work' t = group_gpus (\<lambda>_. True) work t + delta t"
    and "\<And>n t. group_gpus (\<lambda>w. mr_Namespace (mw_req w) = n) work' t = group_gpus (\<lambda>w. mr_Namespace (mw_req w) = n) work t +
      (if mr_Namespace (mw_req (work ! i)) = n then delta t else 0)"
    and "\<And>t. 0 \<le> delta t \<and> delta t \<le>
      mget 0 (effectiveAvailable (bg_available b) (ns_budget (bg_byNS b) (mr_Namespace (mw_req (work ! i))))) t"
    and "\<And>t. map_of (bg_available b') t = spend_value (map_of (bg_available b) t) (delta t)"
    and "\<And>n t. ns_value (bg_byNS b') n t = (if n = mr_Namespace (mw_req (work ! i))
      then spend_ns_value (ns_value (bg_byNS b) n t) (delta t) else ns_value (bg_byNS b) n t)"
proof -
  obtain i mean ok w1 where i: "i < length work" and al: "allocateForModel (work ! i) mean b = (ok, w1, b')"
    and upd: "work' = work[i := (if \<not> ok then w1\<lparr>mw_remaining := -1\<rparr> else w1)] \<or> work' = work[i := w1\<lparr>mw_remaining := -1\<rparr>]"
    by (rule fair_share_round_cases [OF assms(1)])
  have sr: "single_role (work ! i)" using assms(3) i by (simp add: list_all_length)
  obtain delta where d: "\<And>t. work_gpus w1 t = work_gpus (work ! i) t + delta t"
    "\<And>t. 0 \<le> delta t \<and> delta t \<le> mget 0 (effectiveAvailable (bg_available b) (ns_budget (bg_byNS b) (mr_Namespace (mw_req (work ! i))))) t"
    "\<And>t. map_of (bg_available b') t = spend_value (map_of (bg_available b) t) (delta t)"
    "\<And>n t. ns_value (bg_byNS b') n t = (if n = mr_Namespace (mw_req (work ! i))
      then spend_ns_value (ns_value (bg_byNS b) n t) (delta t) else ns_value (bg_byNS b) n t)"
    "\<And>n. is_closed n (bg_byNS b') = is_closed n (bg_byNS b)" "same_model (work ! i) w1" "budgets_ok b'"
    by (rule allocate_effect [OF assms(2) sr al]) blast
  obtain w2 where w2: "work' = work[i := w2]" "\<And>t. work_gpus w2 t = work_gpus w1 t" "mw_req w2 = mw_req w1"
    "same_model (work ! i) w2"
    using upd d(6) by (cases ok) (auto simp: work_gpus_def same_model_def)
  have "single_role w2" using sr w2(4) by (simp add: single_role_def same_model_def)
  then have "list_all single_role work'"
    using assms(3) w2(1) by (auto simp: list_all_iff dest!: set_update_subset_insert [THEN subsetD])
  moreover have "mw_req w2 = mw_req (work ! i)" using w2(4) by (simp add: same_model_def)
  ultimately show ?thesis
    using that [OF i _ d(7,5) _ _ d(2,3,4)] by (simp add: w2 group_gpus_update [OF i] d(1))
qed

definition cluster_ledger :: "model_work list \<times> budgets \<Rightarrow> string \<Rightarrow> model_work list \<times> budgets \<Rightarrow> bool" where
  "cluster_ledger x0 t x \<longleftrightarrow> (\<forall>c. map_of (bg_available (snd x0)) t = Some c \<longrightarrow> c < MaxInt \<longrightarrow>
     (\<exists>c'. map_of (bg_available (snd x)) t = Some c' \<and> c' < MaxInt \<and>
        c' + group_gpus (\<lambda>_. True) (fst x) t = c + group_gpus (\<lambda>_. True) (fst x0) t))"

definition namespace_ledger :: "model_work list \<times> budgets \<Rightarrow> string \<Rightarrow> string \<Rightarrow> model_work list \<times> budgets \<Rightarrow> bool" where
  "namespace_ledger x0 n t x \<longleftrightarrow> (let P = (\<lambda>w. mr_Namespace (mw_req w) = n) in
     is_closed n (bg_byNS (snd x0)) \<longrightarrow> is_closed n (bg_byNS (snd x)) \<and>
     (case ns_value (bg_byNS (snd x0)) n t of
        None \<Rightarrow> ns_value (bg_byNS (snd x)) n t = None \<and> group_gpus P (fst x) t = group_gpus P (fst x0) t
      | Some c \<Rightarrow> 0 \<le> c \<longrightarrow> (\<exists>c'. ns_value (bg_byNS (snd x)) n t = Some c' \<and> 0 \<le> c' \<and>
          c' + group_gpus P (fst x) t = c + group_gpus P (fst x0) t)))"

definition ledger_ok :: "model_work list \<times> budgets \<Rightarrow> model_work list \<times> budgets \<Rightarrow> bool" where
  "ledger_ok x0 x \<longleftrightarrow> budgets_ok (snd x) \<and> list_all single_role (fst x) \<and>
     (\<forall>t. cluster_ledger x0 t x) \<and> (\<forall>n t. namespace_ledger x0 n t x)"

lemma round_keeps_ledger:
  assumes "ledger_ok x0 (work, b)" and "fair_share_round (work, b) = Some (work', b')"
  shows "ledger_ok x0 (work', b')"
proof -
  have ok: "budgets_ok b" "list_all single_role work" using assms(1) by (simp_all add: ledger_ok_def)
  obtain i delta where i: "i < length work" and w': "list_all single_role work'" "budgets_ok b'"
    and closed: "\<And>n. is_closed n (bg_byNS b') = is_closed n (bg_byNS b)"
    and all: "\<And>t. group_gpus (\<lambda>_. True) work' t = group_gpus (\<lambda>_. True) work t + delta t"
    and ns: "\<And>n t. group_gpus (\<lambda>w. mr_Namespace (mw_req w) = n) work' t = group_gpus (\<lambda>w. mr_Namespace (mw_req w) = n) work t +
      (if mr_Namespace (mw_req (work ! i)) = n then delta t else 0)"
    and d: "\<And>t. 0 \<le> delta t \<and> delta t \<le>
      mget 0 (effectiveAvailable (bg_available b) (ns_budget (bg_byNS b) (mr_Namespace (mw_req (work ! i))))) t"
    and av: "\<And>t. map_of (bg_available b') t = spend_value (map_of (bg_available b) t) (delta t)"
    and nv: "\<And>n t. ns_value (bg_byNS b') n t = (if n = mr_Namespace (mw_req (work ! i))
      then spend_ns_value (ns_value (bg_byNS b) n t) (delta t) else ns_value (bg_byNS b) n t)"
    by (rule round_effect [OF assms(2) ok]) blast
  let ?n = "mr_Namespace (mw_req (work ! i))"
  have cl: "cluster_ledger x0 t (work', b')" for t
    using assms(1) d [of t] by (fastforce simp: ledger_ok_def cluster_ledger_def all av spend_value_def)
  have nl: "namespace_ledger x0 n t (work', b')" for n t
  proof (cases "n = ?n")
    case False
    have "namespace_ledger x0 n t (work, b)" using assms(1) by (simp add: ledger_ok_def)
    then show ?thesis using False
      by (auto simp: namespace_ledger_def Let_def closed ns nv split: option.splits)
  next
    case True
    have zero: "delta t = 0" if "is_closed ?n (bg_byNS b)" "ns_value (bg_byNS b) ?n t = None"
      using effective_bounds(4) [where b = b and n = ?n and t = t, OF ok(1)] that d [of t] by simp
    have le: "delta t \<le> c" if "ns_value (bg_byNS b) ?n t = Some c" "0 \<le> c" for c
      using effective_bounds(3) [where b = b and n = ?n and t = t and c = c, OF ok(1)] that d [of t] by simp
    have "namespace_ledger x0 ?n t (work, b)" using assms(1) by (simp add: ledger_ok_def)
    then show ?thesis using zero le
      by (auto simp: True namespace_ledger_def Let_def closed ns nv spend_ns_value_def split: option.splits)
  qed
  show ?thesis using w' cl nl by (simp add: ledger_ok_def)
qed

lemma fair_share_keeps_ledger:
  "ledger_ok x0 x \<Longrightarrow> fairShareScaleUp fuel x = Some y \<Longrightarrow> ledger_ok x0 y"
proof (induction fuel arbitrary: x)
  case (Suc fuel)
  show ?case
  proof (cases "fair_share_round x")
    case None
    then show ?thesis using Suc.prems by simp
  next
    case (Some z)
    then have "ledger_ok x0 z" using round_keeps_ledger [of x0 "fst x" "snd x" "fst z" "snd z"] Suc.prems(1) by simp
    then show ?thesis using Suc.IH [of z] Suc.prems(2) Some by simp
  qed
qed simp

text \<open>C33. Sharing GPUs among models with a single role never overspends: the GPUs added for all models on a
  type fit the finite cluster budget of the type, the GPUs added for the models of a namespace with a
  quota fit its finite cap for the type, and no GPU is added in such a namespace on a type it does not
  list.\<close>

theorem fair_share_within_budget:
  assumes "budgets_ok b" and "list_all single_role work" and "fairShareScaleUp fuel (work, b) = Some (work', b')"
  shows "(map_of (bg_available b) t = Some c \<and> c < MaxInt \<longrightarrow>
      group_gpus (\<lambda>_. True) work' t - group_gpus (\<lambda>_. True) work t \<le> c) \<and>
    (ns_value (bg_byNS b) n t = Some q \<and> 0 \<le> q \<longrightarrow>
      group_gpus (\<lambda>w. mr_Namespace (mw_req w) = n) work' t - group_gpus (\<lambda>w. mr_Namespace (mw_req w) = n) work t \<le> q) \<and>
    (is_closed n (bg_byNS b) \<and> ns_value (bg_byNS b) n t = None \<longrightarrow>
      group_gpus (\<lambda>w. mr_Namespace (mw_req w) = n) work' t = group_gpus (\<lambda>w. mr_Namespace (mw_req w) = n) work t)"
proof -
  have "ledger_ok (work, b) (work, b)"
    using assms(1,2) by (auto simp: ledger_ok_def cluster_ledger_def namespace_ledger_def Let_def split: option.split)
  from fair_share_keeps_ledger [OF this assms(3)]
  have ok: "budgets_ok b'" and cl: "cluster_ledger (work, b) t (work', b')" and nl: "namespace_ledger (work, b) n t (work', b')"
    by (simp_all add: ledger_ok_def)
  have "is_closed n (bg_byNS b)" if "ns_value (bg_byNS b) n t = Some q"
    using that by (auto simp: ns_value_def is_closed_def split: option.splits)
  then show ?thesis using cl nl ok
    by (fastforce simp: cluster_ledger_def namespace_ledger_def Let_def budgets_ok_def)
qed

section \<open>The rounds come to an end\<close>

text \<open>How many of its smallest replicas the demand an analyzer still reports amounts to.\<close>

definition vote_units :: "named_result \<Rightarrow> nat" where
  "vote_units e = (case nr_Result e of None \<Rightarrow> 0
     | Some r \<Rightarrow> nat \<lceil>nr_Remaining e / prc_unit (ar_VariantCapacities r)\<rceil>)"

definition shrinks :: "named_result \<Rightarrow> named_result \<Rightarrow> bool" where
  "shrinks e e' \<longleftrightarrow> nr_Result e' = nr_Result e \<and> nr_Score e' = nr_Score e \<and> 0 \<le> nr_Remaining e' \<and>
     (nr_Remaining e' = nr_Remaining e \<or> vote_units e' < vote_units e)"

lemma shrinks_refl: "0 \<le> nr_Remaining e \<Longrightarrow> shrinks e e"
  by (simp add: shrinks_def)

lemma vote_units_cong: "nr_Result e' = nr_Result e \<Longrightarrow> nr_Remaining e' = nr_Remaining e \<Longrightarrow> vote_units e' = vote_units e"
  unfolding vote_units_def by (cases "nr_Result e") simp_all

lemma shrinks_units: "shrinks e e' \<Longrightarrow> vote_units e' \<le> vote_units e"
  unfolding shrinks_def using vote_units_cong [of e' e] by auto

lemma shrinks_trans: "shrinks a b \<Longrightarrow> shrinks b c \<Longrightarrow> shrinks a c"
  using shrinks_units [of a b] shrinks_units [of b c] by (auto simp: shrinks_def)

lemma prcForVariant_unit:
  "0 < prcForVariant r v \<Longrightarrow> prc_unit (ar_VariantCapacities r) \<le> prcForVariant r v"
  using prc_unit_le [of "ar_VariantCapacities r" v] by (simp add: prcForVariant_def prcFromVCs_def)

lemma applyAllocation_shrinks:
  assumes "0 \<le> n" and "list_all (\<lambda>e. 0 \<le> nr_Remaining e) s"
  shows "list_all2 shrinks s (applyAllocation v n s)"
proof -
  have "shrinks e (case nr_Result e of
     None \<Rightarrow> e
   | Some r \<Rightarrow> (let prc = prcForVariant r v in
       if prc \<le> 0 then e
       else (let left = nr_Remaining e - of_int n * prc in
             e\<lparr>nr_Remaining := (if left < 0 then 0 else left)\<rparr>)))" (is "shrinks e ?e") if pos: "0 \<le> nr_Remaining e" for e
  proof (cases "nr_Result e")
    case None
    then show ?thesis using pos by (simp add: shrinks_refl)
  next
    case (Some r)
    define prc where "prc = prcForVariant r v"
    define R where "R = nr_Remaining e"
    define L where "L = (if R - of_int n * prc < 0 then 0 else R - of_int n * prc)"
    have e: "?e = (if prc \<le> 0 then e else e\<lparr>nr_Remaining := L\<rparr>)"
      unfolding Some option.case Let_def prc_def [symmetric] R_def [symmetric] L_def ..
    show ?thesis
    proof (cases "prc \<le> 0 \<or> n = 0 \<or> R = 0")
      case True
      have "L = R" if np: "\<not> prc \<le> 0"
      proof -
        have "0 \<le> of_int n * prc" using np assms(1) by simp
        moreover have "0 \<le> R" using pos by (simp add: R_def)
        ultimately show ?thesis using True np unfolding L_def by auto
      qed
      then show ?thesis unfolding e using pos by (auto simp: R_def shrinks_def)
    next
      case False
      then have p: "0 < prc" and n: "1 \<le> n" and R: "0 < R" using pos assms(1) by (auto simp: R_def)
      have "1 * prc \<le> of_int n * prc" using n p by (intro mult_right_mono) auto
      moreover have "prc_unit (ar_VariantCapacities r) \<le> prc" using prcForVariant_unit [of r v] p by (simp add: prc_def)
      ultimately have "L \<le> max 0 (R - prc_unit (ar_VariantCapacities r))" by (simp add: L_def)
      then have "nat \<lceil>L / prc_unit (ar_VariantCapacities r)\<rceil> < nat \<lceil>R / prc_unit (ar_VariantCapacities r)\<rceil>"
        by (intro ceil_drop prc_unit_pos R)
      moreover have "0 \<le> L" by (simp add: L_def)
      ultimately show ?thesis unfolding e using p by (simp add: shrinks_def vote_units_def Some R_def)
    qed
  qed
  then show ?thesis using assms(2)
    unfolding applyAllocation_def by (auto simp: list_all2_conv_all_nth list_all_length)
qed

lemma shrinks_nonneg: "list_all2 shrinks s s' \<Longrightarrow> list_all (\<lambda>e. 0 \<le> nr_Remaining e) s'"
  by (induction rule: list_all2_induct) (auto simp: shrinks_def)

lemma find_in_set: "find P xs = Some x \<Longrightarrow> x \<in> set xs"
  by (induction xs) (auto split: if_splits)

lemma anchor_role_mem: "anchor_role cs = Some (v, k) \<Longrightarrow> \<exists>p\<in>set cs. snd p = k"
  unfolding anchor_role_def by (force split: option.splits prod.splits dest: find_in_set)

lemma paired_step_shrinks:
  assumes "paired_step pick vcs sm roles st = Some st'" and "list_all (\<lambda>e. 0 \<le> nr_Remaining e) (as_ballot st)"
  shows "list_all2 shrinks (as_ballot st) (as_ballot st')"
proof -
  from assms(1) obtain ps delta cs where d: "0 < delta" and cs: "cs = map (\<lambda>p. (p, joint_count vcs st delta p)) ps"
    and b: "as_ballot st' = (case anchor_role cs of None \<Rightarrow> as_ballot (fold (commit_role vcs sm) cs st)
      | Some (v, k) \<Rightarrow> applyAllocation v k (as_ballot (fold (commit_role vcs sm) cs st)))"
    by (rule paired_step_parts)
  have k: "0 \<le> k" if "anchor_role cs = Some (v, k)" for v k
    using anchor_role_mem [OF that] joint_count_nonneg [OF d] by (auto simp: cs)
  show ?thesis
  proof (cases "anchor_role cs")
    case None
    then show ?thesis using assms(2) by (simp add: b list_all2_conv_all_nth list_all_length shrinks_refl)
  next
    case (Some p)
    then show ?thesis using k assms(2) by (cases p) (simp add: b applyAllocation_shrinks)
  qed
qed

lemma list_all2_shrinks_trans: "list_all2 shrinks a b \<Longrightarrow> list_all2 shrinks b c \<Longrightarrow> list_all2 shrinks a c"
  by (rule list_all2_trans [of shrinks shrinks shrinks]) (auto intro: shrinks_trans)

lemma loop_shrinks:
  assumes "list_all (\<lambda>e. 0 \<le> nr_Remaining e) (as_ballot st)"
  shows "list_all2 shrinks (as_ballot st) (as_ballot (allocateForModelPaired pick vcs sm roles st))"
proof (rule paired_invariant [where I = "\<lambda>st'. list_all2 shrinks (as_ballot st) (as_ballot st')"])
  show "list_all2 shrinks (as_ballot st) (as_ballot st)"
    using assms by (simp add: list_all2_conv_all_nth list_all_length shrinks_refl)
  fix a b assume "list_all2 shrinks (as_ballot st) (as_ballot a)" "paired_step pick vcs sm roles a = Some b"
  then show "list_all2 shrinks (as_ballot st) (as_ballot b)"
    using paired_step_shrinks shrinks_nonneg list_all2_shrinks_trans by blast
qed

lemma shrinks_role_spare: "shrinks e (role_spare e') = shrinks e e'" "shrinks (role_spare e) e' = shrinks e e'"
  by (auto simp: shrinks_def vote_units_def role_spare_def Let_def split: option.splits)

lemma role_spare_simps [simp]: "nr_Remaining (role_spare e) = nr_Remaining e" "nr_Score (role_spare e) = nr_Score e"
  by (auto simp: role_spare_def Let_def split: option.splits)

definition same_vote :: "named_result \<Rightarrow> named_result \<Rightarrow> bool" where
  "same_vote e e' \<longleftrightarrow> nr_Result e' = nr_Result e \<and> nr_Score e' = nr_Score e \<and> nr_Remaining e' = nr_Remaining e"

abbreviation current_value :: "gofloat \<Rightarrow> named_result list \<Rightarrow> string list \<Rightarrow> gofloat" where
  "current_value priority s roles \<equiv> fairShareValue priority s (map role_demand s) roles"

lemma role_demand_same: "same_vote e e' \<Longrightarrow> role_demand e' = role_demand e"
  by (simp add: same_vote_def role_demand_def split: option.split)

lemma fold_pointwise: "list_all2 (\<lambda>x y. f x = f y) xs ys \<Longrightarrow> fold f xs = fold f ys"
  by (induction rule: list_all2_induct) auto

lemma current_value_same:
  assumes "list_all2 same_vote s s'"
  shows "current_value priority s' roles = current_value priority s roles"
proof -
  have z: "zip s (map role_demand s) = map (\<lambda>e. (e, role_demand e)) s" for s by (simp add: zip_map2 zip_same_conv_map)
  have m: "map f s' = map f s" if "\<And>e e'. same_vote e e' \<Longrightarrow> f e' = f e" for f :: "named_result \<Rightarrow> 'b"
    using assms that by (induction rule: list_all2_induct) auto
  have f: "fold f s' = fold f s" if "\<And>e e'. same_vote e e' \<Longrightarrow> f e' = f e" for f :: "named_result \<Rightarrow> gofloat \<Rightarrow> gofloat"
    by (rule fold_pointwise [symmetric], rule list_all2_mono [OF assms]) (simp add: that)
  define g where "g = (\<lambda>e. if nr_Result e = None then 0 else (\<Sum>role\<leftarrow>roles. mget 0 (role_demand e) role) * nr_Score e)"
  define h where "h = (\<lambda>e mx. if nr_Result e = None then mx
    else fold (\<lambda>role mx. if mget 0 (role_demand e) role > mx then mget 0 (role_demand e) role else mx) roles mx)"
  have eq: "current_value priority s roles = (if priority * (\<Sum>e\<leftarrow>s. g e) > 0 then priority * (\<Sum>e\<leftarrow>s. g e) else fold h s 0)" for s
    unfolding fairShareValue_def z Let_def map_map fold_map comp_def prod.case g_def h_def ..
  have "g e' = g e" "h e' = h e" if v: "same_vote e e'" for e e'
  proof -
    have eqs: "nr_Result e' = nr_Result e" "nr_Score e' = nr_Score e" using v by (simp_all add: same_vote_def)
    show "g e' = g e" "h e' = h e" unfolding g_def h_def eqs role_demand_same [OF v] by (rule refl)+
  qed
  then have "map g s' = map g s" "fold h s' = fold h s" using m [of g] f [of h] by blast+
  then show ?thesis unfolding eq by (simp only:)
qed

definition work_units :: "model_work \<Rightarrow> nat" where
  "work_units w = (\<Sum>e\<leftarrow>mw_s w. vote_units e)"

definition work_ok :: "model_work \<Rightarrow> bool" where
  "work_ok w \<longleftrightarrow> mw_roles w = [RoleBoth] \<and> list_all (\<lambda>e. 0 \<le> nr_Remaining e) (mw_s w) \<and>
     (0 < mw_remaining w \<longrightarrow> mw_remaining w = current_value (mr_Priority (mw_req w)) (mw_s w) (mw_roles w))"

lemma shrinks_sum:
  "list_all2 shrinks s s' \<Longrightarrow> (\<Sum>e\<leftarrow>s'. vote_units e) \<le> (\<Sum>e\<leftarrow>s. vote_units e) \<and>
     (list_all2 same_vote s s' \<or> (\<Sum>e\<leftarrow>s'. vote_units e) < (\<Sum>e\<leftarrow>s. vote_units e))"
proof (induction rule: list_all2_induct)
  case (Cons e s e' s')
  have "same_vote e e' \<or> vote_units e' < vote_units e" using Cons.hyps(1) by (auto simp: shrinks_def same_vote_def)
  then show ?case using Cons shrinks_units [OF Cons.hyps(1)] by auto
qed simp

lemma allocate_progress:
  assumes w: "work_ok w" and act: "0 < mw_remaining w" and al: "allocateForModel w mean b = (ok, w1, b')"
  shows "work_ok w1 \<and> work_units w1 \<le> work_units w \<and> (ok \<longrightarrow> work_units w1 < work_units w)"
proof (cases "mw_remaining w - mean \<le> 0")
  case True
  then show ?thesis using al w by (auto simp: allocateForModel_def Let_def)
next
  case False
  have roles: "mw_roles w = [RoleBoth]" and nn: "list_all (\<lambda>e. 0 \<le> nr_Remaining e) (mw_s w)"
    and val: "mw_remaining w = current_value (mr_Priority (mw_req w)) (mw_s w) (mw_roles w)"
    using w act by (auto simp: work_ok_def)
  define e where "e = effectiveAvailable (bg_available b) (ns_budget (bg_byNS b) (mr_Namespace (mw_req w)))"
  define st where "st = allocateForModelPaired (fairShareRolePick (mw_remaining w - mean)) (work_variants w) (work_states w)
    (mw_roles w) \<lparr>as_ballot = map role_spare (mw_s w), as_available = Some e, as_targets = mw_targets w,
      as_demand = cap_demand (mw_remaining w - mean) (mw_roles w) (map role_demand (mw_s w))\<rparr>"
  have w1: "mw_s w1 = map role_spare (as_ballot st)" "mw_roles w1 = mw_roles w" "mw_req w1 = mw_req w"
    "mw_remaining w1 = fairShareValue (mr_Priority (mw_req w)) (map role_spare (as_ballot st)) (map role_demand (as_ballot st)) (mw_roles w)"
    and ok: "ok \<longleftrightarrow> mw_remaining w1 < mw_remaining w"
    using al False by (auto simp: allocateForModel_def Let_def initRoleState_def roles e_def [symmetric] st_def [unfolded roles, symmetric])
  have "list_all2 shrinks (map role_spare (mw_s w)) (as_ballot st)"
    using loop_shrinks [where st = "\<lparr>as_ballot = map role_spare (mw_s w), as_available = Some e, as_targets = mw_targets w,
      as_demand = cap_demand (mw_remaining w - mean) (mw_roles w) (map role_demand (mw_s w))\<rparr>"] nn
    by (simp add: st_def list_all_length)
  then have sh: "list_all2 shrinks (mw_s w) (mw_s w1)"
    by (simp add: w1(1) list_all2_conv_all_nth shrinks_role_spare)
  have "map role_demand (as_ballot st) = map role_demand (mw_s w1)"
    using role_demand_same [of _ "role_spare _"] by (simp add: w1(1) same_vote_def)
  then have val1: "mw_remaining w1 = current_value (mr_Priority (mw_req w)) (mw_s w1) (mw_roles w)"
    unfolding w1(4) by (simp only: w1(1))
  have "\<not> list_all2 same_vote (mw_s w) (mw_s w1)" if ok
    using that ok val val1 current_value_same [of "mw_s w" "mw_s w1"] by auto
  then show ?thesis
    using shrinks_sum [OF sh] shrinks_nonneg [OF sh] roles val1 by (auto simp: work_units_def work_ok_def w1(2,3))
qed

definition work_measure :: "model_work list \<Rightarrow> nat" where
  "work_measure work = (\<Sum>w\<leftarrow>work. (if 0 < mw_remaining w then 1 else 0) + work_units w)"

lemma sum_list_update_nat:
  "i < length xs \<Longrightarrow> f y < f (xs ! i) \<Longrightarrow> (\<Sum>x\<leftarrow>xs[i := y]. f x) < (\<Sum>x\<leftarrow>xs. f x :: nat)"
proof (induction xs arbitrary: i)
  case (Cons x xs)
  then show ?case by (cases i) auto
qed simp

lemma round_progress:
  assumes "fair_share_round (work, b) = Some (work', b')" and "list_all work_ok work"
  shows "list_all work_ok work' \<and> work_measure work' < work_measure work"
proof -
  obtain i mean ok w1 where i: "i < length work" and act: "0 < mw_remaining (work ! i)"
    and al: "allocateForModel (work ! i) mean b = (ok, w1, b')"
    and upd: "work' = work[i := (if \<not> ok then w1\<lparr>mw_remaining := -1\<rparr> else w1)] \<or> work' = work[i := w1\<lparr>mw_remaining := -1\<rparr>]"
    by (rule fair_share_round_cases [OF assms(1)])
  have "work_ok (work ! i)" using assms(2) i by (simp add: list_all_length)
  note p = allocate_progress [OF this act al]
  let ?f = "\<lambda>w. (if 0 < mw_remaining w then 1 else 0) + work_units w"
  obtain w2 where w2: "work' = work[i := w2]" "work_ok w2" "?f w2 < ?f (work ! i)"
    using upd p act by (cases ok) (auto simp: work_ok_def work_units_def)
  have "list_all work_ok work'"
    using assms(2) w2(1,2) by (auto simp: list_all_iff dest!: set_update_subset_insert [THEN subsetD])
  then show ?thesis using sum_list_update_nat [of i work ?f w2] i w2 by (simp add: work_measure_def)
qed

lemma fair_share_ends:
  "list_all work_ok work \<Longrightarrow> work_measure work < n \<Longrightarrow> \<exists>y. fairShareScaleUp n (work, b) = Some y"
proof (induction n arbitrary: work b)
  case (Suc n)
  show ?case
  proof (cases "fair_share_round (work, b)")
    case (Some z)
    obtain work' b' where z: "z = (work', b')" by (cases z)
    show ?thesis using round_progress [of work b work' b'] Some z Suc.prems Suc.IH [of work' b'] by auto
  qed simp
qed simp


definition example_work :: model_work where
  "example_work = \<lparr>mw_req = example_request 30 0, mw_s = [example_vote 30 0], mw_anchor = example_result 30 0,
     mw_ps = [role_demand (example_vote 30 0)], mw_roles = [RoleBoth], mw_remaining = 30,
     mw_targets = initTargets (mr_VariantStates (example_request 30 0))\<rparr>"

lemma example_work_ok: "work_ok example_work" "single_role example_work"
  by (simp_all add: work_ok_def single_role_def example_work_def fairShareValue_def role_demand_def Let_def
      example_defs zero_capacity_def)


lemma fair_share_within_budget_witness:
  "\<exists>fuel work' b'. fairShareScaleUp fuel ([example_work], \<lparr>bg_available = [(''A100'', 3)], bg_byNS = None\<rparr>) = Some (work', b') \<and>
     group_gpus (\<lambda>_. True) work' ''A100'' \<le> group_gpus (\<lambda>_. True) [example_work] ''A100'' + 3"
proof -
  let ?b = "\<lparr>bg_available = [(''A100'', 3)], bg_byNS = None\<rparr>"
  have ok: "budgets_ok ?b" by (simp add: budgets_ok_def ns_budget_def)
  obtain fuel work' b' where run: "fairShareScaleUp fuel ([example_work], ?b) = Some (work', b')"
    using fair_share_ends [of "[example_work]"] example_work_ok by force
  have "group_gpus (\<lambda>_. True) work' ''A100'' - group_gpus (\<lambda>_. True) [example_work] ''A100'' \<le> 3"
    using fair_share_within_budget [OF ok _ run, where t = "''A100''" and c = 3] example_work_ok by (simp add: MaxInt_def)
  then show ?thesis using run by fastforce
qed

section \<open>Two roles on one accelerator\<close>

text \<open>A prefill and a decode variant on the same accelerator, each wanting four replicas of one GPU.\<close>

definition pd_variants :: "variant_capacity list" where
  "pd_variants = [zero_capacity\<lparr>vc_VariantName := ''p'', vc_Role := RolePrefill, vc_AcceleratorName := ''A100'', vc_PerReplicaCapacity := 1\<rparr>,
     zero_capacity\<lparr>vc_VariantName := ''d'', vc_Role := RoleDecode, vc_AcceleratorName := ''A100'', vc_PerReplicaCapacity := 1\<rparr>]"

definition pd_vote :: named_result where
  "pd_vote = (example_vote 0 0)\<lparr>nr_Result := Some ((example_result 0 0)\<lparr>ar_VariantCapacities := pd_variants\<rparr>)\<rparr>"

definition pd_start :: alloc_state where
  "pd_start = \<lparr>as_ballot = [pd_vote], as_available = Some [(''A100'', 4)], as_targets = [],
     as_demand = [[(RoleDecode, 4), (RolePrefill, 4)]]\<rparr>"

lemma pd_pick:
  "fairShareRolePick 4 RoleDecode s pd_variants [] [(''A100'', 4)] [] = (''d'', 4)"
  "fairShareRolePick 4 RolePrefill s pd_variants [] [(''A100'', 4)] [] = (''p'', 4)"
  by (simp_all add: fairShareRolePick_def pd_variants_def variantsForRole_def canon_role_def sortByCostEfficiencyAsc_def
      go_sort_def zero_capacity_def zero_state_def domain_consts go_div_def Let_def)

lemma pd_step:
  "paired_step (fairShareRolePick 4) pd_variants [] [RoleDecode, RolePrefill] pd_start =
     Some (pd_start\<lparr>as_targets := [(''d'', 4), (''p'', 4)], as_available := Some [(''A100'', -4)],
       as_demand := [[(RoleDecode, 0), (RolePrefill, 0)]]\<rparr>)"
proof -
  have "pick_roles (fairShareRolePick 4) pd_variants [] pd_start [RoleDecode, RolePrefill] =
      Some [(RoleDecode, ''d'', 4), (RolePrefill, ''p'', 4)]"
    by (simp add: pd_pick pd_start_def budget_map_def)
  moreover have "role_count pd_start (RoleDecode, ''d'', 4) = 4" "role_count pd_start (RolePrefill, ''p'', 4) = 4"
    by (simp_all add: role_count_def roleBottleneckReplicas_def pd_start_def pd_vote_def example_vote_def example_result_def
        prcForVariant_def pd_variants_def zero_capacity_def domain_consts Let_def)
  moreover have "roleAggRemaining (as_ballot pd_start) (as_demand pd_start) RoleDecode = 4"
    "roleAggRemaining (as_ballot pd_start) (as_demand pd_start) RolePrefill = 4"
    by (simp_all add: roleAggRemaining_def pd_start_def domain_consts)
  moreover have "prcFromVCs pd_variants ''d'' = 1" "prcFromVCs pd_variants ''p'' = 1"
    by (simp_all add: prcFromVCs_def pd_variants_def zero_capacity_def)
  moreover have "accFromVCs pd_variants ''d'' = ''A100''" "accFromVCs pd_variants ''p'' = ''A100''"
    by (simp_all add: accFromVCs_def pd_variants_def zero_capacity_def)
  ultimately show ?thesis
    by (simp add: paired_step_def delta_util_def role_util_def joint_count_def MaxFloat64_def Let_def)
      (simp add: commit_role_def pd_start_def lower_demand_def madd_def gpusPerReplicaFromState_def anchor_role_def
        domain_consts applyAllocation_def pd_vote_def example_vote_def example_result_def prcForVariant_def pd_variants_def
        zero_capacity_def Let_def)
qed


end
