(* ===== verification/Rescale.thy ===== *)
theory Rescale
  imports Greedy_Score
begin

text \<open>
  The rescale pre-pass of the fair-share optimizer (\<open>rescale.go\<close>): the priority-weighted
  water-filling of a contended GPU budget, its rounding to whole GPUs, the split of a model's share
  over its roles, and the reclaim and fill that drive a model to its share.  The optimizer itself
  (\<open>Optimize\<close> in \<open>greedy_score_optimizer.go\<close>) composes the pre-pass with the
  fair-share loop, whose number of rounds it takes as an argument.
\<close>

section \<open>Water-filling\<close>

definition modelKey :: "model_request \<Rightarrow> string" where
  "modelKey req = mr_Namespace req @ ''/'' @ mr_ModelID req"

record rescale_flags =
  rf_Cluster :: bool
  rf_ByNamespace :: "(string, bool) gomap"

definition any_rescale :: "rescale_flags \<Rightarrow> bool" where
  "any_rescale f \<longleftrightarrow> rf_Cluster f \<or> rf_ByNamespace f \<noteq> []"

definition enabledForScope :: "rescale_flags \<Rightarrow> string \<Rightarrow> bool \<Rightarrow> bool" where
  "enabledForScope f namespace namespaceScoped =
     (if namespaceScoped then mget False (rf_ByNamespace f) namespace else rf_Cluster f)"

record rescale_input =
  ri_ID :: string
  ri_Priority :: gofloat
  ri_Demand :: gofloat
  ri_FloorGPUs :: int
  ri_CapGPUs :: int

text \<open>One whole unit to each key in turn while units are left, skipping keys at their cap.\<close>

fun hand_out :: "(string, int) gomap option \<Rightarrow> string list \<Rightarrow> int \<Rightarrow> (string, int) gomap \<Rightarrow> (string, int) gomap" where
  "hand_out capOf [] leftover out = out"
| "hand_out capOf (k # ks) leftover out =
     (if leftover \<le> 0 then out
      else if (case capOf of None \<Rightarrow> False
               | Some m \<Rightarrow> (case map_of m k of None \<Rightarrow> False | Some c \<Rightarrow> mget 0 out k \<ge> c))
      then hand_out capOf ks leftover out
      else hand_out capOf ks (leftover - 1) (madd k 1 out))"

definition apportionLeftover :: "(string, int) gomap \<Rightarrow> (string, gofloat) gomap \<Rightarrow> int \<Rightarrow>
    (string, int) gomap option \<Rightarrow> (string, int) gomap" where
  "apportionLeftover out remainder leftover capOf =
     (if leftover \<le> 0 then out
      else hand_out capOf (map fst (go_sort (\<lambda>(k, v) (k', v'). v > v' \<or> v = v' \<and> k < k') remainder)) leftover out)"

definition roundExtras :: "rescale_input list \<Rightarrow> (string, gofloat) gomap \<Rightarrow> (string, int) gomap \<Rightarrow> (string, int) gomap" where
  "roundExtras inp extra targets =
     (let capOf = fold (\<lambda>m. mput (ri_ID m) (ri_CapGPUs m)) inp [];
          applied = fold (\<lambda>(k, e). madd k \<lfloor>e\<rfloor>) extra targets;
          sumWhole = (\<Sum>(k, e)\<leftarrow>extra. \<lfloor>e\<rfloor>);
          totalFrac = (\<Sum>(k, e)\<leftarrow>extra. e);
          remainder = fold (\<lambda>(k, e). mput k (e - of_int \<lfloor>e\<rfloor>)) extra []
      in apportionLeftover applied remainder (go_round totalFrac - sumWhole) (Some capOf))"

record hungry =
  h_id :: string
  h_weight :: gofloat
  h_headroom :: int

abbreviation eps :: gofloat where "eps \<equiv> 1 / 10 ^ 9"

definition hungry_models :: "rescale_input list \<Rightarrow> hungry list" where
  "hungry_models inp = concat (map (\<lambda>m.
     let hr = (if ri_CapGPUs m - ri_FloorGPUs m < 0 then 0 else ri_CapGPUs m - ri_FloorGPUs m);
         w = ri_Priority m * ri_Demand m
     in if w > 0 \<and> hr > 0 then [\<lparr>h_id = ri_ID m, h_weight = w, h_headroom = hr\<rparr>] else []) inp)"

definition total_weight :: "hungry list \<Rightarrow> gofloat" where
  "total_weight act = (\<Sum>a\<leftarrow>act. h_weight a)"

definition share_of :: "gofloat \<Rightarrow> gofloat \<Rightarrow> hungry \<Rightarrow> gofloat" where
  "share_of remaining totalW a = remaining * h_weight a / totalW"

definition reaches_cap :: "gofloat \<Rightarrow> gofloat \<Rightarrow> hungry \<Rightarrow> bool" where
  "reaches_cap remaining totalW a \<longleftrightarrow> share_of remaining totalW a \<ge> of_int (h_headroom a) - eps"

function water_fill :: "hungry list \<Rightarrow> gofloat \<Rightarrow> (string, gofloat) gomap \<Rightarrow> (string, gofloat) gomap" where
  "water_fill act remaining extra =
     (if act = [] \<or> remaining \<le> eps then extra
      else let totalW = total_weight act in
        if totalW \<le> 0 then extra
        else let full = filter (reaches_cap remaining totalW) act;
                 next_act = filter (\<lambda>a. \<not> reaches_cap remaining totalW a) act
             in if full \<noteq> [] then
                  water_fill next_act (remaining - (\<Sum>a\<leftarrow>full. of_int (h_headroom a)))
                    (fold (\<lambda>a. mput (h_id a) (of_int (h_headroom a))) full extra)
                else fold (\<lambda>a. mput (h_id a) (share_of remaining totalW a)) act extra)"
  by pat_completeness auto
termination water_fill
proof (relation "measure (\<lambda>(act, _). length act)")
  fix act remaining totalW full next_act and extra :: "(string, gofloat) gomap"
  assume full: "full = filter (reaches_cap remaining totalW) act" "full \<noteq> []"
    and rest: "next_act = filter (\<lambda>a. \<not> reaches_cap remaining totalW a) act"
  have "length full + length next_act = length act" "0 < length full"
    unfolding rest using full sum_length_filter_compl [of "reaches_cap remaining totalW" act] by simp_all
  then show "((next_act, remaining - (\<Sum>a\<leftarrow>full. of_int (h_headroom a)),
      fold (\<lambda>a. mput (h_id a) (of_int (h_headroom a))) full extra), act, remaining, extra) \<in> measure (\<lambda>(act, _). length act)"
    by (simp only: in_measure prod.case)
qed simp

declare water_fill.simps [simp del]

definition computeRescaleTargets :: "rescale_input list \<Rightarrow> int \<Rightarrow> (string, int) gomap \<times> bool" where
  "computeRescaleTargets inp budget =
     (let targets = fold (\<lambda>m. mput (ri_ID m) (ri_FloorGPUs m)) inp [];
          sumFloor = (\<Sum>m\<leftarrow>inp. ri_FloorGPUs m)
      in if sumFloor \<ge> budget then (targets, sumFloor > budget)
         else (roundExtras inp (water_fill (hungry_models inp) (of_int (budget - sumFloor)) []) targets, False))"

section \<open>Splitting a share over roles\<close>

definition distributeGPUsByWeight :: "int \<Rightarrow> string list \<Rightarrow> (string, int) gomap \<Rightarrow> (string, int) gomap \<Rightarrow>
    (string, int) gomap \<Rightarrow> (string, int) gomap" where
  "distributeGPUsByWeight totalGPUs roles weight fallback floors =
     (case roles of
        [] \<Rightarrow> []
      | [r] \<Rightarrow> [(r, totalGPUs)]
      | r0 # _ \<Rightarrow>
          let reserved = fold (\<lambda>r. mput r (mget 0 floors r)) roles [];
              remaining = totalGPUs - (\<Sum>r\<leftarrow>roles. mget 0 floors r)
          in if remaining \<le> 0 then reserved
             else let w = (if (\<Sum>r\<leftarrow>roles. mget 0 weight r) = 0 then fallback else weight);
                      total_w = (\<Sum>r\<leftarrow>roles. mget 0 w r)
                  in if total_w = 0 then madd r0 remaining reserved
                     else let exact = (\<lambda>r. of_int remaining * of_int (mget 0 w r) / of_int total_w :: gofloat);
                              out = fold (\<lambda>r. madd r \<lfloor>exact r\<rfloor>) roles reserved;
                              assigned = (\<Sum>r\<leftarrow>roles. \<lfloor>exact r\<rfloor>);
                              remainder = fold (\<lambda>r. mput r (exact r - of_int \<lfloor>exact r\<rfloor>)) roles []
                          in apportionLeftover out remainder (remaining - assigned) None)"

section \<open>Demand, floors and usage in GPUs\<close>

definition variantsOnType :: "variant_capacity list \<Rightarrow> string \<Rightarrow> variant_capacity list" where
  "variantsOnType vcs accType = filter (\<lambda>vc. vc_AcceleratorName vc = accType) vcs"

definition modelRolesOnType :: "variant_capacity list \<Rightarrow> string \<Rightarrow> string list" where
  "modelRolesOnType vcs accType = rolesOf (variantsOnType vcs accType)"

fun single_acc_from :: "string \<Rightarrow> variant_capacity list \<Rightarrow> string option" where
  "single_acc_from accType [] = (if accType = [] then None else Some accType)"
| "single_acc_from accType (vc # vcs) =
     (if vc_AcceleratorName vc = [] then single_acc_from accType vcs
      else if accType = [] then single_acc_from (vc_AcceleratorName vc) vcs
      else if accType \<noteq> vc_AcceleratorName vc then None
      else single_acc_from accType vcs)"

definition singleAccType :: "variant_capacity list \<Rightarrow> string option" where
  "singleAccType vcs = single_acc_from [] vcs"

definition current_gpus :: "state_map \<Rightarrow> variant_capacity list \<Rightarrow> int" where
  "current_gpus stateMap vcs = (\<Sum>vc\<leftarrow>vcs. st_CurrentReplicas (mget zero_state stateMap (vc_VariantName vc)) *
     gpusPerReplicaFromState stateMap (vc_VariantName vc))"

definition modelCurrentGPUs :: "model_request \<Rightarrow> string \<Rightarrow> int" where
  "modelCurrentGPUs req accType = (case bindingAnchor (mr_AnalyzerResults req) of
     None \<Rightarrow> 0
   | Some anchor \<Rightarrow> current_gpus (buildStateMap (mr_VariantStates req))
       (variantsOnType (ar_VariantCapacities anchor) accType))"

definition roleCurrentGPUs :: "model_request \<Rightarrow> string \<Rightarrow> string \<Rightarrow> int" where
  "roleCurrentGPUs req accType role = (case bindingAnchor (mr_AnalyzerResults req) of
     None \<Rightarrow> 0
   | Some anchor \<Rightarrow> current_gpus (buildStateMap (mr_VariantStates req))
       (variantsForRole (variantsOnType (ar_VariantCapacities anchor) accType) role))"

definition floor_gpus :: "state_map \<Rightarrow> variant_capacity list \<Rightarrow> int" where
  "floor_gpus stateMap vcs = (\<Sum>vc\<leftarrow>vcs. case st_MinReplicas (mget zero_state stateMap (vc_VariantName vc)) of
     Some k \<Rightarrow> if k > 0 then k * gpusPerReplicaFromState stateMap (vc_VariantName vc) else 0 | None \<Rightarrow> 0)"

definition roleFloorGPUs :: "model_request \<Rightarrow> string \<Rightarrow> string \<Rightarrow> int" where
  "roleFloorGPUs req accType role = (case bindingAnchor (mr_AnalyzerResults req) of
     None \<Rightarrow> 0
   | Some anchor \<Rightarrow> floor_gpus (buildStateMap (mr_VariantStates req))
       (variantsForRole (variantsOnType (ar_VariantCapacities anchor) accType) role))"

definition roleDemandGPUs :: "analyzer_result \<Rightarrow> state_map \<Rightarrow> string \<Rightarrow> string \<Rightarrow> int" where
  "roleDemandGPUs anchor stateMap accType role =
     (let demand = (if role \<noteq> RoleBoth then
            (case ar_RoleCapacities anchor of
               Some rcs \<Rightarrow> (case map_of rcs role of Some rc \<Rightarrow> rc_TotalDemand rc | None \<Rightarrow> ar_TotalDemand anchor)
             | None \<Rightarrow> ar_TotalDemand anchor)
          else ar_TotalDemand anchor)
      in case find (\<lambda>vc. vc_PerReplicaCapacity vc > 0)
           (sortByCostEfficiencyAsc (variantsForRole (variantsOnType (ar_VariantCapacities anchor) accType) role)) of
           None \<Rightarrow> 0
         | Some vc \<Rightarrow>
             let replicas = \<lceil>demand / vc_PerReplicaCapacity vc\<rceil> in
             (if replicas < 0 then 0 else replicas) * gpusPerReplicaFromState stateMap (vc_VariantName vc))"

definition modelDemandGPUs :: "analyzer_result \<Rightarrow> state_map \<Rightarrow> string \<Rightarrow> int" where
  "modelDemandGPUs anchor stateMap accType =
     (\<Sum>role\<leftarrow>modelRolesOnType (ar_VariantCapacities anchor) accType. roleDemandGPUs anchor stateMap accType role)"

text \<open>The GPUs all variants may have at most, when each of them has a limit.\<close>

definition max_gpus :: "state_map \<Rightarrow> variant_capacity list \<Rightarrow> int option" where
  "max_gpus stateMap vcs =
     (if list_all (\<lambda>vc. replica_limit stateMap (vc_VariantName vc) \<noteq> None) vcs
      then Some (\<Sum>vc\<leftarrow>vcs. (case replica_limit stateMap (vc_VariantName vc) of Some m \<Rightarrow> m | None \<Rightarrow> 0) *
             gpusPerReplicaFromState stateMap (vc_VariantName vc))
      else None)"

definition rescale_input_for :: "string \<Rightarrow> int \<Rightarrow> model_request \<Rightarrow> analyzer_result \<Rightarrow> rescale_input" where
  "rescale_input_for accType budget req anchor =
     (let stateMap = buildStateMap (mr_VariantStates req);
          vcs = variantsOnType (ar_VariantCapacities anchor) accType;
          floorGPUs = floor_gpus stateMap vcs;
          demandGPUs = modelDemandGPUs anchor stateMap accType;
          capGPUs = (case max_gpus stateMap vcs of Some m \<Rightarrow> min demandGPUs m | None \<Rightarrow> min demandGPUs budget)
      in \<lparr>ri_ID = modelKey req, ri_Priority = mr_Priority req, ri_Demand = ar_TotalDemand anchor,
          ri_FloorGPUs = floorGPUs, ri_CapGPUs = max capGPUs floorGPUs\<rparr>)"

definition rescaleInputsForGroup :: "model_request list \<Rightarrow> string \<Rightarrow> int \<Rightarrow> rescale_input list \<times> int" where
  "rescaleInputsForGroup reqs accType budget =
     (let anchored = concat (map (\<lambda>req. case bindingAnchor (mr_AnalyzerResults req) of
            None \<Rightarrow> [] | Some anchor \<Rightarrow> [(req, anchor)]) reqs)
      in (map (\<lambda>(req, anchor). rescale_input_for accType budget req anchor) anchored,
          \<Sum>(req, anchor)\<leftarrow>anchored. modelDemandGPUs anchor (buildStateMap (mr_VariantStates req)) accType))"

section \<open>Reclaim and fill\<close>

definition reclaimRole :: "named_result list \<Rightarrow> variant_capacity list \<Rightarrow> string \<Rightarrow> state_map \<Rightarrow> (string, int) gomap \<Rightarrow>
    int \<Rightarrow> (string, int) gomap" where
  "reclaimRole s variants role stateMap targets deltaGPUs =
     fst (scaleDownVariantSet (sortVariantsForScaleDown s (variantsForRole variants role)) targets (Some stateMap)
       (\<lambda>remaining vc. let g = gpusPerReplicaFromState stateMap (vc_VariantName vc) in
          if remaining \<le> 0 \<or> g \<le> 0 then 0 else go_div remaining g)
       (\<lambda>vc n remaining. remaining - n * gpusPerReplicaFromState stateMap (vc_VariantName vc)) deltaGPUs)"

text \<open>The inner loop adds one replica at a time while the GPUs left hold another and the limit allows it.\<close>

function fill_variant :: "int option \<Rightarrow> int \<Rightarrow> int \<Rightarrow> int \<times> int \<Rightarrow> int \<times> int" where
  "fill_variant lmt g want (cur, spent) =
     (if g > 0 \<and> want - spent \<ge> g then
        (if (case lmt of Some m \<Rightarrow> cur \<ge> m | None \<Rightarrow> False) then (cur, spent)
         else fill_variant lmt g want (cur + 1, spent + g))
      else (cur, spent))"
  by pat_completeness auto
termination fill_variant
  by (relation "measure (\<lambda>(_, g, want, (_, spent)). nat (want - spent))") auto

declare fill_variant.simps [simp del]

fun fill_from :: "state_map \<Rightarrow> int \<Rightarrow> variant_capacity list \<Rightarrow> (string, int) gomap \<times> int \<Rightarrow> (string, int) gomap \<times> int" where
  "fill_from stateMap wantGPUs [] (targets, spent) = (targets, spent)"
| "fill_from stateMap wantGPUs (vc # vcs) (targets, spent) =
     (if wantGPUs - spent \<le> 0 then (targets, spent)
      else if vc_PerReplicaCapacity vc \<le> 0 then fill_from stateMap wantGPUs vcs (targets, spent)
      else let v = vc_VariantName vc;
               (cur, spent') = fill_variant (replica_limit stateMap v) (gpusPerReplicaFromState stateMap v) wantGPUs
                 (mget 0 targets v, spent)
           in fill_from stateMap wantGPUs vcs
                (if spent' = spent then targets else mput v cur targets, spent'))"

definition fillRole :: "variant_capacity list \<Rightarrow> string \<Rightarrow> state_map \<Rightarrow> (string, int) gomap \<Rightarrow> int \<Rightarrow>
    (string, int) gomap \<times> int" where
  "fillRole variants role stateMap targets wantGPUs =
     fill_from stateMap wantGPUs (sortByCostEfficiencyAsc (variantsForRole variants role)) (targets, 0)"

definition rescale_role :: "model_request \<Rightarrow> analyzer_result \<Rightarrow> state_map \<Rightarrow> string \<Rightarrow> (string, int) gomap \<Rightarrow> string \<Rightarrow>
    (string, int) gomap \<times> int \<Rightarrow> (string, int) gomap \<times> int" where
  "rescale_role req anchor stateMap accType tgtByRole role = (\<lambda>(targets, free).
     let rt = mget 0 tgtByRole role; rc = roleCurrentGPUs req accType role in
     if rt < rc then
       (reclaimRole (votingResults (mr_AnalyzerResults req)) (ar_VariantCapacities anchor) role stateMap targets (rc - rt), free)
     else if rt > rc then
       (let want = (if rt - rc > free then free else rt - rc);
            (targets', spent) = fillRole (ar_VariantCapacities anchor) role stateMap targets want
        in (targets', free - spent))
     else (targets, free))"

definition rescale_reason :: string where
  "rescale_reason = DecisionReasonRescale @ '' (optimizer: rescale, reclaim)''"

definition rescaleModelDecisions :: "model_request \<Rightarrow> string \<Rightarrow> int \<Rightarrow> int \<Rightarrow> variant_decision list \<times> int" where
  "rescaleModelDecisions req accType targetGPUs freeThisCycle =
     (case bindingAnchor (mr_AnalyzerResults req) of
        None \<Rightarrow> ([], freeThisCycle)
      | Some anchor \<Rightarrow>
          let stateMap = buildStateMap (mr_VariantStates req);
              roles = modelRolesOnType (ar_VariantCapacities anchor) accType;
              tgtByRole = distributeGPUsByWeight targetGPUs roles
                (map (\<lambda>r. (r, roleDemandGPUs anchor stateMap accType r)) roles)
                (map (\<lambda>r. (r, roleCurrentGPUs req accType r)) roles)
                (map (\<lambda>r. (r, roleFloorGPUs req accType r)) roles);
              (targets, free) = fold (rescale_role req anchor stateMap accType tgtByRole) roles
                (initTargets (mr_VariantStates req), freeThisCycle)
          in (map (\<lambda>d. if d_Action d = ActionScaleDown
                then SetDecisionReason ActionScaleDown DecisionReasonRescale rescale_reason d else d)
                (buildDecisionsWithOptimizer req stateMap (buildCapacityMap (ar_VariantCapacities anchor)) targets ''rescale''),
              free))"

section \<open>The pre-pass\<close>

type_synonym group_key = "string \<times> string"

definition group_of :: "rescale_flags \<Rightarrow> budgets \<Rightarrow> model_request \<Rightarrow> group_key option" where
  "group_of flags b req = (case bindingAnchor (mr_AnalyzerResults req) of
     None \<Rightarrow> None
   | Some anchor \<Rightarrow> (case singleAccType (ar_VariantCapacities anchor) of
       None \<Rightarrow> None
     | Some accType \<Rightarrow>
         let nsScoped = (ns_budget (bg_byNS b) (mr_Namespace req) \<noteq> None) in
         if enabledForScope flags (mr_Namespace req) nsScoped
         then Some (accType, if nsScoped then mr_Namespace req else []) else None))"

definition rescale_groups :: "rescale_flags \<Rightarrow> budgets \<Rightarrow> model_request list \<Rightarrow> (group_key, model_request list) gomap" where
  "rescale_groups flags b requests = fold (\<lambda>req groups. case group_of flags b req of
     None \<Rightarrow> groups | Some k \<Rightarrow> mput k (mget [] groups k @ [req]) groups) requests []"

definition group_free :: "budgets \<Rightarrow> group_key \<Rightarrow> int" where
  "group_free b = (\<lambda>(accType, scope).
     if scope \<noteq> [] then mget 0 (case ns_budget (bg_byNS b) scope of Some m \<Rightarrow> m | None \<Rightarrow> []) accType
     else mget 0 (bg_available b) accType)"

definition group_fillable :: "budgets \<Rightarrow> group_key \<Rightarrow> int" where
  "group_fillable b = (\<lambda>(accType, scope).
     let free = group_free b (accType, scope) in
     if scope \<noteq> [] then (case map_of (bg_available b) accType of
         Some cur \<Rightarrow> if cur \<noteq> MaxInt then min free cur else free
       | None \<Rightarrow> free)
     else free)"

definition debit_group :: "group_key \<Rightarrow> int \<Rightarrow> budgets \<Rightarrow> budgets" where
  "debit_group = (\<lambda>(accType, scope) consumed b.
     if consumed \<le> 0 then b
     else if scope \<noteq> [] then
       \<lparr>bg_available = spend_cluster accType consumed (bg_available b),
        bg_byNS = (case bg_byNS b of
            None \<Rightarrow> None
          | Some m \<Rightarrow> (case map_of m scope of
              None \<Rightarrow> Some m
            | Some inner \<Rightarrow> Some (mput scope (madd accType (- consumed) inner) m)))\<rparr>
     else b\<lparr>bg_available := madd accType (- consumed) (bg_available b)\<rparr>)"

definition serve_order :: "model_request \<Rightarrow> model_request \<Rightarrow> bool" where
  "serve_order a b \<longleftrightarrow> mr_Priority a > mr_Priority b \<or> mr_Priority a = mr_Priority b \<and> modelKey a < modelKey b"

fun serve_models :: "string \<Rightarrow> (string, int) gomap \<Rightarrow> model_request list \<Rightarrow> int \<Rightarrow> variant_decision list \<times> int" where
  "serve_models accType targets [] free = ([], free)"
| "serve_models accType targets (req # reqs) free =
     (let (ds, free') = rescaleModelDecisions req accType (mget 0 targets (modelKey req)) free;
          (ds', free'') = serve_models accType targets reqs free'
      in (ds @ ds', free''))"

record rescale_state =
  rs_budgets :: budgets
  rs_decisions :: "variant_decision list"
  rs_handled :: "string list"

definition rescale_group :: "group_key \<times> model_request list \<Rightarrow> rescale_state \<Rightarrow> rescale_state" where
  "rescale_group = (\<lambda>((accType, scope), reqs) x.
     let b = rs_budgets x; free = group_free b (accType, scope) in
     if free < 0 \<or> free = MaxInt then x
     else let budget = free + (\<Sum>req\<leftarrow>reqs. modelCurrentGPUs req accType);
              (inputs, sumDemandGPUs) = rescaleInputsForGroup reqs accType budget
          in if sumDemandGPUs \<le> budget then x
             else let targets = fst (computeRescaleTargets inputs budget);
                      sorted_reqs = go_sort serve_order reqs;
                      fillable = group_fillable b (accType, scope);
                      (ds, left) = serve_models accType targets sorted_reqs fillable
                  in \<lparr>rs_budgets = debit_group (accType, scope) (fillable - left) b,
                      rs_decisions = rs_decisions x @ ds,
                      rs_handled = rs_handled x @ map modelKey sorted_reqs\<rparr>)"

definition applyRescale :: "rescale_flags \<Rightarrow> model_request list \<Rightarrow> budgets \<Rightarrow> rescale_state" where
  "applyRescale flags requests b =
     fold rescale_group
       (go_sort (\<lambda>((t, s), _) ((t', s'), _). t < t' \<or> t = t' \<and> s < s') (rescale_groups flags b requests))
       \<lparr>rs_budgets = b, rs_decisions = [], rs_handled = []\<rparr>"

section \<open>The optimizer\<close>

definition scale_up_work :: "model_request \<Rightarrow> analyzer_result \<Rightarrow> model_work option" where
  "scale_up_work req anchor =
     (let (roles, ps, s) = initRoleState (votingResults (mr_AnalyzerResults req));
          fsv = fairShareValue (mr_Priority req) s ps roles
      in if anyRoleNeedsScaleUp ps roles \<or> fsv > 0 then buildScaleUpWork req anchor s ps roles fsv else None)"

definition is_scale_up :: "model_request \<Rightarrow> bool" where
  "is_scale_up req =
     (let (roles, ps, s) = initRoleState (votingResults (mr_AnalyzerResults req))
      in anyRoleNeedsScaleUp ps roles \<or> fairShareValue (mr_Priority req) s ps roles > 0)"

definition work_decisions :: "model_work \<Rightarrow> variant_decision list" where
  "work_decisions w = buildDecisionsWithOptimizer (mw_req w) (work_states w) (buildCapacityMap (work_variants w))
     (mw_targets w) ''greedy-by-score''"

definition Greedy_Optimize :: "nat \<Rightarrow> rescale_flags \<Rightarrow> model_request list \<Rightarrow> resource_constraints option list \<Rightarrow>
    variant_decision list option" where
  "Greedy_Optimize rounds flags requests constraints =
     (let b = \<lparr>bg_available = mergeConstraints constraints, bg_byNS = mergeNamespaceConstraints constraints\<rparr>;
          x = (if any_rescale flags then applyRescale flags requests b
               else \<lparr>rs_budgets = b, rs_decisions = [], rs_handled = []\<rparr>);
          anchored = concat (map (\<lambda>req. if modelKey req \<in> set (rs_handled x) then []
             else case bindingAnchor (mr_AnalyzerResults req) of None \<Rightarrow> [] | Some a \<Rightarrow> [(req, a)]) requests);
          work = List.map_filter (\<lambda>(req, a). scale_up_work req a) anchored;
          others = filter (\<lambda>(req, a). \<not> is_scale_up req) anchored
      in case fairShareScaleUp rounds (work, rs_budgets x) of
           None \<Rightarrow> None
         | Some (work', _) \<Rightarrow> Some (
             concat (map work_decisions work') @
             concat (map (\<lambda>(req, a). buildDecisionsWithOptimizer req (buildStateMap (mr_VariantStates req))
               (buildCapacityMap (ar_VariantCapacities a)) (scale_down_targets req a) ''greedy-by-score'') others) @
             rs_decisions x))"

section \<open>Handing out whole units\<close>

definition at_cap :: "(string, int) gomap option \<Rightarrow> (string, int) gomap \<Rightarrow> string \<Rightarrow> bool" where
  "at_cap capOf out k = (case capOf of None \<Rightarrow> False
     | Some m \<Rightarrow> (case map_of m k of None \<Rightarrow> False | Some c \<Rightarrow> mget 0 out k \<ge> c))"

lemma hand_out_at_cap:
  "hand_out capOf (k # ks) leftover out = (if leftover \<le> 0 then out
     else if at_cap capOf out k then hand_out capOf ks leftover out else hand_out capOf ks (leftover - 1) (madd k 1 out))"
  by (simp add: at_cap_def)

declare hand_out.simps(2) [simp del]

lemma hand_out_sum:
  "wf_map out \<Longrightarrow> distinct ks \<Longrightarrow> 0 \<le> leftover \<Longrightarrow>
     msum (hand_out capOf ks leftover out) =
       msum out + min leftover (int (length (filter (\<lambda>k. \<not> at_cap capOf out k) ks)))"
proof (induction ks arbitrary: leftover out)
  case (Cons k ks)
  have "at_cap capOf (madd k 1 out) j = at_cap capOf out j" if "j \<in> set ks" for j
    using that Cons.prems(2) by (auto simp: at_cap_def split: option.split)
  then have "filter (\<lambda>j. \<not> at_cap capOf (madd k 1 out) j) ks = filter (\<lambda>j. \<not> at_cap capOf out j) ks"
    by (intro filter_cong) auto
  then show ?case using Cons by (auto simp: hand_out_at_cap msum_madd)
qed simp

lemma hand_out_ge: "mget 0 out k \<le> mget 0 (hand_out capOf ks leftover out) k"
proof (induction ks arbitrary: leftover out)
  case (Cons j ks)
  have "mget 0 out k \<le> mget 0 (madd j 1 out) k" by simp
  then show ?case using Cons.IH [of "madd j 1 out" "leftover - 1"] Cons.IH [of out leftover]
    unfolding hand_out_at_cap by (auto simp del: mget_madd intro: order_trans)
qed simp

lemma hand_out_cap:
  "map_of m k = Some c \<Longrightarrow> mget 0 out k \<le> c \<Longrightarrow> mget 0 (hand_out (Some m) ks leftover out) k \<le> c"
proof (induction ks arbitrary: leftover out)
  case (Cons j ks)
  have "mget 0 (madd j 1 out) k \<le> c" if "\<not> at_cap (Some m) out j"
    using that Cons.prems by (auto simp: at_cap_def)
  then show ?case using Cons unfolding hand_out_at_cap by auto
qed simp

lemma hand_out_keys: "wf_map out \<Longrightarrow> wf_map (hand_out capOf ks leftover out)"
proof (induction ks arbitrary: leftover out)
  case (Cons j ks)
  then show ?case unfolding hand_out_at_cap by auto
qed simp

lemma distinct_keys_go_sort: "distinct (map f (go_sort lt xs)) = distinct (map f xs)"
  by (rule mset_eq_imp_distinct_iff) simp

lemma apportion_sum_le:
  assumes "wf_map out" and "distinct (map fst remainder)"
  shows "msum (apportionLeftover out remainder leftover capOf) \<le> msum out + max 0 leftover"
proof (cases "leftover \<le> 0")
  case False
  then show ?thesis using hand_out_sum [OF assms(1)] assms(2) by (simp add: apportionLeftover_def distinct_keys_go_sort)
qed (simp add: apportionLeftover_def)

lemma apportion_ge: "mget 0 out k \<le> mget 0 (apportionLeftover out remainder leftover capOf) k"
  by (simp add: apportionLeftover_def hand_out_ge)

lemma apportion_cap:
  "map_of m k = Some c \<Longrightarrow> mget 0 out k \<le> c \<Longrightarrow> mget 0 (apportionLeftover out remainder leftover (Some m)) k \<le> c"
  by (simp add: apportionLeftover_def hand_out_cap)

text \<open>All units go out when no more are left than there are keys with room.\<close>

lemma apportion_sum_eq:
  assumes "wf_map out" and "distinct (map fst remainder)" and "0 \<le> leftover"
    and "leftover \<le> int (length (filter (\<lambda>p. \<not> at_cap capOf out (fst p)) remainder))"
  shows "msum (apportionLeftover out remainder leftover capOf) = msum out + leftover"
proof (cases "leftover = 0")
  case False
  let ?s = "go_sort (\<lambda>(k, v) (k', v'). v > v' \<or> v = v' \<and> k < k') remainder"
  have d: "distinct (map fst ?s)" using assms(2) by (simp add: distinct_keys_go_sort)
  have "length (filter (\<lambda>k. \<not> at_cap capOf out k) (map fst ?s)) = length (filter (\<lambda>p. \<not> at_cap capOf out (fst p)) remainder)"
    unfolding filter_map length_map comp_def by (rule mset_eq_length) simp
  then show ?thesis using False assms hand_out_sum [OF assms(1) d assms(3), of capOf] by (simp add: apportionLeftover_def)
qed (simp add: apportionLeftover_def)

section \<open>What the water-filling gives out\<close>

definition wf_hungry :: "hungry list \<Rightarrow> bool" where
  "wf_hungry act \<longleftrightarrow> distinct (map h_id act) \<and> (\<forall>a\<in>set act. 0 < h_weight a \<and> 0 < h_headroom a)"

abbreviation fsum :: "('k \<times> gofloat) list \<Rightarrow> gofloat" where
  "fsum m \<equiv> sum_list (map snd m)"

abbreviation room :: "hungry list \<Rightarrow> gofloat" where
  "room act \<equiv> (\<Sum>a\<leftarrow>act. of_int (h_headroom a))"

lemma wf_hungry_filter: "wf_hungry act \<Longrightarrow> wf_hungry (filter P act)"
  by (auto simp: wf_hungry_def distinct_map_filter)

lemma total_weight_pos:
  assumes "wf_hungry act" and "act \<noteq> []"
  shows "0 < total_weight act"
proof -
  obtain a xs where act: "act = a # xs" using assms(2) by (cases act) auto
  have "0 \<le> (\<Sum>a\<leftarrow>xs. h_weight a)" using assms(1) act by (intro sum_list_nonneg) (auto simp: wf_hungry_def less_imp_le)
  moreover have "0 < h_weight a" using assms(1) act by (simp add: wf_hungry_def)
  ultimately show ?thesis by (simp add: act total_weight_def)
qed

lemma sum_list_le_slack:
  fixes f g :: "'a \<Rightarrow> gofloat"
  shows "(\<And>x. x \<in> set xs \<Longrightarrow> f x \<le> g x + e) \<Longrightarrow> (\<Sum>x\<leftarrow>xs. f x) \<le> (\<Sum>x\<leftarrow>xs. g x) + e * of_nat (length xs)"
proof (induction xs)
  case (Cons x xs)
  have "(\<Sum>x\<leftarrow>xs. f x) \<le> (\<Sum>x\<leftarrow>xs. g x) + e * of_nat (length xs)" using Cons by simp
  moreover have "f x \<le> g x + e" using Cons.prems by simp
  ultimately show ?case by (simp add: distrib_left)
qed simp

lemma sum_filter_split: "(\<Sum>x\<leftarrow>xs. f x) = (\<Sum>x\<leftarrow>filter P xs. f x) + (\<Sum>x\<leftarrow>filter (\<lambda>x. \<not> P x) xs. (f x :: gofloat))"
  by (induction xs) auto

lemma shares_sum: "total_weight act \<noteq> 0 \<Longrightarrow> (\<Sum>a\<leftarrow>act. share_of remaining (total_weight act) a) = remaining"
proof -
  assume "total_weight act \<noteq> 0"
  moreover have "(\<Sum>a\<leftarrow>xs. share_of remaining W a) = remaining * (\<Sum>a\<leftarrow>xs. h_weight a) / W" for xs W
    by (induction xs) (auto simp: share_of_def algebra_simps add_divide_distrib)
  ultimately show ?thesis by (simp add: total_weight_def)
qed

lemma share_pos: "0 < remaining \<Longrightarrow> 0 < totalW \<Longrightarrow> 0 < h_weight a \<Longrightarrow> 0 < share_of remaining totalW a"
  by (simp add: share_of_def)

text \<open>The models that reach their cap take at most what is there, up to the tolerance per model.\<close>

lemma capped_room:
  assumes "wf_hungry act" and "act \<noteq> []" and "0 < remaining"
  shows "room (filter (reaches_cap remaining (total_weight act)) act) \<le>
    remaining + eps * of_nat (length (filter (reaches_cap remaining (total_weight act)) act))"
proof -
  let ?W = "total_weight act" and ?s = "share_of remaining (total_weight act)"
  have W: "0 < ?W" by (rule total_weight_pos [OF assms(1,2)])
  have "room (filter (reaches_cap remaining ?W) act) \<le> (\<Sum>a\<leftarrow>filter (reaches_cap remaining ?W) act. ?s a) +
      eps * of_nat (length (filter (reaches_cap remaining ?W) act))"
    by (rule sum_list_le_slack) (auto simp: reaches_cap_def)
  also have "(\<Sum>a\<leftarrow>filter (reaches_cap remaining ?W) act. ?s a) \<le> remaining"
  proof -
    have "0 \<le> (\<Sum>a\<leftarrow>filter (\<lambda>a. \<not> reaches_cap remaining ?W a) act. ?s a)"
      using assms(1) share_pos [OF assms(3) W] by (intro sum_list_nonneg) (auto simp: wf_hungry_def less_imp_le)
    then show ?thesis
      using sum_filter_split [of ?s act "reaches_cap remaining ?W"] shares_sum [of act remaining] W by simp
  qed
  finally show ?thesis by simp
qed

lemma water_fill_step:
  assumes "wf_hungry act" and "h_id ` set act \<inter> fst ` set extra = {}" and "act \<noteq> []" and "eps < remaining"
  defines "full \<equiv> filter (reaches_cap remaining (total_weight act)) act"
    and "others \<equiv> filter (\<lambda>a. \<not> reaches_cap remaining (total_weight act) a) act"
  shows "water_fill act remaining extra = (if full \<noteq> [] then
      water_fill others (remaining - room full) (extra @ map (\<lambda>a. (h_id a, of_int (h_headroom a))) full)
    else extra @ map (\<lambda>a. (h_id a, share_of remaining (total_weight act) a)) act)"
proof -
  have d: "distinct (map h_id act)" "distinct (map h_id full)"
    using assms(1) by (auto simp: full_def wf_hungry_def distinct_map_filter)
  have "fold (\<lambda>a. mput (h_id a) (of_int (h_headroom a))) full extra = extra @ map (\<lambda>a. (h_id a, of_int (h_headroom a))) full"
    by (rule fold_mput_fresh [OF d(2)]) (use assms(2) full_def in auto)
  moreover have "fold (\<lambda>a. mput (h_id a) (share_of remaining (total_weight act) a)) act extra =
      extra @ map (\<lambda>a. (h_id a, share_of remaining (total_weight act) a)) act"
    by (rule fold_mput_fresh [OF d(1) assms(2)])
  ultimately show ?thesis
    using assms(3,4) total_weight_pos [OF assms(1,3)]
    by (simp add: water_fill.simps [of act] Let_def full_def [symmetric] others_def [symmetric] not_le)
qed

lemma room_split:
  "room act = room (filter P act) + room (filter (\<lambda>a. \<not> P a) act)"
  by (rule sum_filter_split)

definition fill_ok :: "hungry list \<Rightarrow> gofloat \<Rightarrow> (string, gofloat) gomap \<Rightarrow> (string, gofloat) gomap \<Rightarrow> bool" where
  "fill_ok act remaining extra out \<longleftrightarrow> (\<exists>new. out = extra @ new \<and> distinct (map fst new) \<and>
     (\<forall>p\<in>set new. \<exists>a\<in>set act. h_id a = fst p \<and> 0 \<le> snd p \<and> (snd p = of_int (h_headroom a) \<or> snd p < of_int (h_headroom a))) \<and>
     (eps < remaining \<longrightarrow> fsum new \<le> remaining + eps * of_nat (length act)) \<and>
     (remaining \<le> room act \<longrightarrow> remaining - eps \<le> fsum new))"

lemma water_fill_ok:
  "wf_hungry act \<Longrightarrow> h_id ` set act \<inter> fst ` set extra = {} \<Longrightarrow> fill_ok act remaining extra (water_fill act remaining extra)"
proof (induction act remaining extra rule: water_fill.induct)
  case (1 act remaining extra)
  show ?case
  proof (cases "act = [] \<or> remaining \<le> eps")
    case True
    then have "water_fill act remaining extra = extra" by (simp add: water_fill.simps [of act])
    then show ?thesis using True by (auto simp: fill_ok_def)
  next
    case False
    then have ne: "act \<noteq> []" and rem: "eps < remaining" by auto
    let ?W = "total_weight act"
    define full where "full = filter (reaches_cap remaining ?W) act"
    define others where "others = filter (\<lambda>a. \<not> reaches_cap remaining ?W a) act"
    have W: "0 < ?W" by (rule total_weight_pos [OF 1(2) ne])
    have pos: "0 < remaining" using rem by (rule less_trans [rotated]) simp
    note step = water_fill_step [OF 1(2,3) ne rem, folded full_def others_def]
    have len: "length full + length others = length act"
      unfolding full_def others_def by (rule sum_length_filter_compl)
    show ?thesis
    proof (cases "full = []")
      case True
      have "\<not> reaches_cap remaining ?W a" if "a \<in> set act" for a
        using True that by (auto simp: full_def filter_empty_conv)
      then have "share_of remaining ?W a < of_int (h_headroom a)" if "a \<in> set act" for a
        using that by (fastforce simp: reaches_cap_def not_le)
      moreover have "0 \<le> share_of remaining ?W a" if "a \<in> set act" for a
        using share_pos [OF pos W] 1(2) that by (simp add: wf_hungry_def less_imp_le)
      moreover have "fsum (map (\<lambda>a. (h_id a, share_of remaining ?W a)) act) = remaining"
        using shares_sum [of act remaining] W by (simp add: comp_def)
      ultimately show ?thesis
        unfolding step fill_ok_def using True 1(2)
        by (auto intro!: exI [of _ "map (\<lambda>a. (h_id a, share_of remaining ?W a)) act"] simp: wf_hungry_def comp_def)
    next
      case full: False
      let ?caps = "map (\<lambda>a. (h_id a, of_int (h_headroom a) :: gofloat)) full"
      have d: "distinct (map h_id full)" "set full \<subseteq> set act" "set others \<subseteq> set act" "h_id ` set others \<inter> h_id ` set full = {}"
        using wf_hungry_filter [OF 1(2)] 1(2) unfolding full_def others_def
        by (auto simp: wf_hungry_def) (auto simp: distinct_map dest: inj_onD)
      have "fill_ok others (remaining - room full) (extra @ ?caps) (water_fill others (remaining - room full) (extra @ ?caps))"
      proof -
        have eq: "fold (\<lambda>a. mput (h_id a) (of_int (h_headroom a) :: gofloat)) full extra = extra @ ?caps"
          by (rule fold_mput_fresh [OF d(1)]) (use 1(3) d(2) in auto)
        have fresh: "h_id ` set others \<inter> fst ` set (extra @ ?caps) = {}"
        proof -
          have "fst ` set (extra @ ?caps) = fst ` set extra \<union> h_id ` set full" by (simp add: image_Un image_image)
          then show ?thesis using 1(3) d(3,4) by blast
        qed
        have "wf_hungry others" unfolding others_def by (rule wf_hungry_filter [OF 1(2)])
        then show ?thesis
          using 1(1) [OF False refl _ full_def others_def full, unfolded eq, OF _ _ fresh] W by simp
      qed
      then obtain new where new: "water_fill others (remaining - room full) (extra @ ?caps) = (extra @ ?caps) @ new"
        "distinct (map fst new)"
        "\<forall>p\<in>set new. \<exists>a\<in>set others. h_id a = fst p \<and> 0 \<le> snd p \<and> (snd p = of_int (h_headroom a) \<or> snd p < of_int (h_headroom a))"
        "eps < remaining - room full \<longrightarrow> fsum new \<le> remaining - room full + eps * of_nat (length others)"
        "remaining - room full \<le> room others \<longrightarrow> remaining - room full - eps \<le> fsum new"
        unfolding fill_ok_def by blast
      have stop: "fsum new = 0" if "remaining - room full \<le> eps"
        using new(1) that by (simp add: water_fill.simps [of others])
      have caps: "fsum ?caps = room full" by (simp add: comp_def)
      have le: "room full \<le> remaining + eps * of_nat (length full)"
        unfolding full_def by (rule capped_room [OF 1(2) ne pos])
      have up: "fsum (?caps @ new) \<le> remaining + eps * of_nat (length act)"
      proof (cases "eps < remaining - room full")
        case True
        then have "fsum (?caps @ new) \<le> remaining + eps * of_nat (length others)" using new(4) caps by simp
        also have "\<dots> \<le> remaining + eps * of_nat (length act)" using len by simp
        finally show ?thesis .
      next
        case False
        then have "fsum (?caps @ new) = room full" using stop caps by simp
        also have "\<dots> \<le> remaining + eps * of_nat (length act)" using le len
          by (smt (verit) divide_pos_pos mult_left_mono of_nat_le_iff le_add1 zero_less_power zero_less_one zero_less_numeral)
        finally show ?thesis .
      qed
      have down: "remaining - eps \<le> fsum (?caps @ new)" if "remaining \<le> room act"
        using new(5) that room_split [of act "reaches_cap remaining ?W"] caps by (simp add: full_def [symmetric] others_def [symmetric])
      have "distinct (map fst (?caps @ new))"
        using d new(2,3) by (fastforce simp: comp_def)
      moreover have "\<forall>p\<in>set (?caps @ new). \<exists>a\<in>set act. h_id a = fst p \<and> 0 \<le> snd p \<and>
          (snd p = of_int (h_headroom a) \<or> snd p < of_int (h_headroom a))"
        using new(3) d(2,3) 1(2) by (fastforce simp: wf_hungry_def)
      ultimately show ?thesis
        unfolding step fill_ok_def using full new(1) up down
        by (auto intro!: exI [of _ "?caps @ new"])
    qed
  qed
qed

section \<open>Rounding\<close>

lemma fold_madd_lookup:
  fixes f :: "'v \<Rightarrow> int"
  shows "distinct (map fst xs) \<Longrightarrow>
     mget 0 (fold (\<lambda>(k, e). madd k (f e)) xs m) j = mget 0 m j + (case map_of xs j of None \<Rightarrow> 0 | Some e \<Rightarrow> f e)"
proof (induction xs arbitrary: m)
  case (Cons x xs)
  obtain k e where x: "x = (k, e)" by (cases x)
  then have "map_of xs k = None" using Cons.prems by (auto simp: map_of_eq_None_iff)
  then show ?case using Cons by (auto simp: x)
qed simp

lemma fold_madd_sum:
  fixes f :: "'v \<Rightarrow> int"
  shows "wf_map m \<Longrightarrow> wf_map (fold (\<lambda>(k, e). madd k (f e)) xs m) \<and>
     msum (fold (\<lambda>(k, e). madd k (f e)) xs m) = msum m + (\<Sum>(k, e)\<leftarrow>xs. f e)"
proof (induction xs arbitrary: m)
  case (Cons x xs)
  obtain k e where x: "x = (k, e)" by (cases x)
  show ?case using Cons.IH [of "madd k (f e) m"] Cons.prems by (simp add: x msum_madd)
qed simp

definition wf_inputs :: "rescale_input list \<Rightarrow> bool" where
  "wf_inputs inp \<longleftrightarrow> distinct (map ri_ID inp) \<and> (\<forall>m\<in>set inp. ri_FloorGPUs m \<le> ri_CapGPUs m)"

lemma hungry_models_mem:
  "a \<in> set (hungry_models inp) \<Longrightarrow> \<exists>m\<in>set inp. h_id a = ri_ID m \<and> 0 < h_weight a \<and> 0 < h_headroom a \<and>
     h_headroom a = ri_CapGPUs m - ri_FloorGPUs m"
  by (auto simp: hungry_models_def Let_def split: if_splits)

lemma hungry_models_wf: "wf_inputs inp \<Longrightarrow> wf_hungry (hungry_models inp)"
proof -
  assume wf: "wf_inputs inp"
  have sub: "h_id ` set (hungry_models xs) \<subseteq> ri_ID ` set xs" for xs
    by (auto simp: hungry_models_def Let_def split: if_splits)
  have "distinct (map ri_ID xs) \<Longrightarrow> distinct (map h_id (hungry_models xs))" for xs
  proof (induction xs)
    case (Cons m xs)
    have "hungry_models (m # xs) = hungry_models [m] @ hungry_models xs" by (simp add: hungry_models_def)
    moreover have "map h_id (hungry_models [m]) = [] \<or> map h_id (hungry_models [m]) = [ri_ID m]"
      by (simp add: hungry_models_def Let_def)
    moreover have "ri_ID m \<notin> h_id ` set (hungry_models xs)" using sub [of xs] Cons.prems by auto
    moreover have "distinct (map h_id (hungry_models xs))" using Cons by simp
    ultimately show ?case by (metis append_Nil append_Cons distinct.simps(2) image_set map_append)
  qed (simp add: hungry_models_def)
  then have "distinct (map h_id (hungry_models inp))" using wf by (simp add: wf_inputs_def)
  moreover have "0 < h_weight a \<and> 0 < h_headroom a" if "a \<in> set (hungry_models inp)" for a
    using hungry_models_mem [OF that] by blast
  ultimately show ?thesis by (simp add: wf_hungry_def)
qed

text \<open>
  The pieces of a computation: floors, what the water-filling adds, its whole part applied, and the
  fractions left over.
\<close>

definition extras :: "rescale_input list \<Rightarrow> int \<Rightarrow> (string, gofloat) gomap" where
  "extras inp budget = water_fill (hungry_models inp) (of_int (budget - (\<Sum>m\<leftarrow>inp. ri_FloorGPUs m))) []"

definition applied :: "rescale_input list \<Rightarrow> int \<Rightarrow> (string, int) gomap" where
  "applied inp budget = fold (\<lambda>(k, e). madd k \<lfloor>e\<rfloor>) (extras inp budget) (map (\<lambda>m. (ri_ID m, ri_FloorGPUs m)) inp)"

definition wholes :: "rescale_input list \<Rightarrow> int \<Rightarrow> int" where
  "wholes inp budget = (\<Sum>(k, e)\<leftarrow>extras inp budget. \<lfloor>e\<rfloor>)"

definition fractions :: "rescale_input list \<Rightarrow> int \<Rightarrow> (string, gofloat) gomap" where
  "fractions inp budget = map (\<lambda>(k, e). (k, e - of_int \<lfloor>e\<rfloor>)) (extras inp budget)"

abbreviation caps :: "rescale_input list \<Rightarrow> (string, int) gomap" where
  "caps inp \<equiv> map (\<lambda>m. (ri_ID m, ri_CapGPUs m)) inp"

lemma extras_ok:
  assumes "wf_inputs inp"
  shows "fill_ok (hungry_models inp) (of_int (budget - (\<Sum>m\<leftarrow>inp. ri_FloorGPUs m))) [] (extras inp budget)"
  unfolding extras_def by (rule water_fill_ok [OF hungry_models_wf [OF assms]]) simp

lemma extras_distinct: "wf_inputs inp \<Longrightarrow> distinct (map fst (extras inp budget))"
  using extras_ok by (auto simp: fill_ok_def)

lemma extras_mem:
  assumes "wf_inputs inp" and "(k, e) \<in> set (extras inp budget)"
  obtains m where "m \<in> set inp" and "ri_ID m = k" and "0 \<le> e"
    and "e = of_int (ri_CapGPUs m - ri_FloorGPUs m) \<or> e < of_int (ri_CapGPUs m - ri_FloorGPUs m)"
proof -
  obtain a where a: "a \<in> set (hungry_models inp)" "h_id a = k" "0 \<le> e"
    "e = of_int (h_headroom a) \<or> e < of_int (h_headroom a)"
    using extras_ok [OF assms(1), of budget] assms(2) by (fastforce simp: fill_ok_def)
  obtain m where "m \<in> set inp" "h_id a = ri_ID m" "h_headroom a = ri_CapGPUs m - ri_FloorGPUs m"
    using hungry_models_mem [OF a(1)] by blast
  then show ?thesis using that [of m] a by simp
qed

lemma computeRescaleTargets_unfold:
  assumes "wf_inputs inp"
  shows "computeRescaleTargets inp budget = (let sumFloor = (\<Sum>m\<leftarrow>inp. ri_FloorGPUs m) in
    if sumFloor \<ge> budget then (map (\<lambda>m. (ri_ID m, ri_FloorGPUs m)) inp, sumFloor > budget)
    else (apportionLeftover (applied inp budget) (fractions inp budget)
      (go_round (fsum (extras inp budget)) - wholes inp budget) (Some (caps inp)), False))"
proof -
  have d: "distinct (map ri_ID inp)" using assms by (simp add: wf_inputs_def)
  have "fold (\<lambda>m. mput (ri_ID m) (ri_FloorGPUs m)) inp [] = map (\<lambda>m. (ri_ID m, ri_FloorGPUs m)) inp"
    "fold (\<lambda>m. mput (ri_ID m) (ri_CapGPUs m)) inp [] = caps inp"
    using fold_mput_fresh [OF d, of "[]"] by simp_all
  moreover have "fold (\<lambda>(k, e). mput k (e - of_int \<lfloor>e\<rfloor>)) (extras inp budget) [] = fractions inp budget"
    using fold_mput_fresh [of fst "extras inp budget" "[]" "\<lambda>p. snd p - of_int \<lfloor>snd p\<rfloor>"] extras_distinct [OF assms]
    by (simp add: fractions_def case_prod_unfold)
  ultimately show ?thesis
    by (simp add: computeRescaleTargets_def roundExtras_def Let_def extras_def [symmetric] applied_def wholes_def case_prod_unfold
        del: of_int_diff)
qed

lemma applied_value:
  assumes "wf_inputs inp" and "m \<in> set inp"
  shows "ri_FloorGPUs m \<le> mget 0 (applied inp budget) (ri_ID m)" and "mget 0 (applied inp budget) (ri_ID m) \<le> ri_CapGPUs m"
    and "(ri_ID m, e) \<in> set (extras inp budget) \<Longrightarrow> of_int \<lfloor>e\<rfloor> \<noteq> e \<Longrightarrow> mget 0 (applied inp budget) (ri_ID m) < ri_CapGPUs m"
proof -
  have d: "distinct (map ri_ID inp)" using assms(1) by (simp add: wf_inputs_def)
  have fl: "mget 0 (map (\<lambda>m. (ri_ID m, ri_FloorGPUs m)) inp) (ri_ID m) = ri_FloorGPUs m"
    using assms(2) d by (intro mget_in) (auto simp: comp_def)
  note val = fold_madd_lookup [OF extras_distinct [OF assms(1)], where f = floor and m = "map (\<lambda>m. (ri_ID m, ri_FloorGPUs m)) inp"
      and j = "ri_ID m", of budget, folded applied_def, unfolded fl]
  have ex: "0 \<le> e \<and> (e = of_int (ri_CapGPUs m - ri_FloorGPUs m) \<or> e < of_int (ri_CapGPUs m - ri_FloorGPUs m))"
    if mem: "(ri_ID m, e) \<in> set (extras inp budget)" for e
  proof -
    obtain m' where "m' \<in> set inp" "ri_ID m' = ri_ID m" "0 \<le> e"
      "e = of_int (ri_CapGPUs m' - ri_FloorGPUs m') \<or> e < of_int (ri_CapGPUs m' - ri_FloorGPUs m')"
      by (rule extras_mem [OF assms(1) mem])
    moreover have "m' = m" using calculation(1,2) assms(2) d by (auto simp: distinct_map dest: inj_onD)
    ultimately show ?thesis by simp
  qed
  have cap: "ri_FloorGPUs m \<le> ri_CapGPUs m" using assms by (simp add: wf_inputs_def)
  show "ri_FloorGPUs m \<le> mget 0 (applied inp budget) (ri_ID m)"
    using val ex by (auto split: option.splits dest!: map_of_SomeD)
  show "mget 0 (applied inp budget) (ri_ID m) \<le> ri_CapGPUs m"
  proof (cases "map_of (extras inp budget) (ri_ID m)")
    case (Some e)
    have "e \<le> of_int (ri_CapGPUs m - ri_FloorGPUs m)" using ex [OF map_of_SomeD [OF Some]] by auto
    then have "\<lfloor>e\<rfloor> \<le> ri_CapGPUs m - ri_FloorGPUs m" by (simp add: floor_le_iff)
    then show ?thesis using val Some by simp
  qed (use val cap in simp)
  show "mget 0 (applied inp budget) (ri_ID m) < ri_CapGPUs m"
    if e: "(ri_ID m, e) \<in> set (extras inp budget)" "of_int \<lfloor>e\<rfloor> \<noteq> e"
  proof -
    have "e < of_int (ri_CapGPUs m - ri_FloorGPUs m)" using ex [OF e(1)] e(2) by (metis floor_of_int)
    then have "\<lfloor>e\<rfloor> < ri_CapGPUs m - ri_FloorGPUs m" by (simp add: floor_less_iff)
    moreover have "map_of (extras inp budget) (ri_ID m) = Some e" using e(1) extras_distinct [OF assms(1)] by simp
    ultimately show ?thesis using val by simp
  qed
qed

section \<open>Targets of a contended group\<close>

lemma applied_sum:
  assumes "wf_inputs inp"
  shows "wf_map (applied inp budget) \<and> msum (applied inp budget) = (\<Sum>m\<leftarrow>inp. ri_FloorGPUs m) + wholes inp budget"
proof -
  have "wf_map (map (\<lambda>m. (ri_ID m, ri_FloorGPUs m)) inp)" using assms by (simp add: wf_inputs_def comp_def)
  from fold_madd_sum [OF this, where f = floor and xs = "extras inp budget"] show ?thesis
    by (simp add: applied_def wholes_def comp_def)
qed

lemma wholes_le: "of_int (wholes inp budget) \<le> fsum (extras inp budget)"
proof -
  have "of_int (\<Sum>(k, e)\<leftarrow>xs. \<lfloor>e\<rfloor>) \<le> fsum xs" for xs :: "(string, gofloat) gomap"
  proof (induction xs)
    case (Cons x xs)
    have "of_int \<lfloor>snd x\<rfloor> \<le> snd x" by simp
    from add_mono [OF this Cons] show ?case by (simp add: case_prod_unfold)
  qed simp
  then show ?thesis by (simp add: wholes_def)
qed

lemma fractions_sum: "fsum (fractions inp budget) = fsum (extras inp budget) - of_int (wholes inp budget)"
proof -
  have "fsum (map (\<lambda>(k, e). (k, e - of_int \<lfloor>e\<rfloor>)) xs) = fsum xs - of_int (\<Sum>(k, e)\<leftarrow>xs. \<lfloor>e\<rfloor>)" for xs :: "(string, gofloat) gomap"
    by (induction xs) auto
  then show ?thesis by (simp add: wholes_def fractions_def)
qed

lemma hungry_length: "length (hungry_models inp) \<le> length inp"
  by (induction inp) (auto simp: hungry_models_def Let_def)

lemma extras_le:
  assumes "wf_inputs inp" and "(\<Sum>m\<leftarrow>inp. ri_FloorGPUs m) < budget"
  shows "fsum (extras inp budget) \<le> of_int (budget - (\<Sum>m\<leftarrow>inp. ri_FloorGPUs m)) + eps * of_nat (length inp)"
proof -
  let ?pool = "of_int (budget - (\<Sum>m\<leftarrow>inp. ri_FloorGPUs m)) :: gofloat"
  have "1 \<le> ?pool" using assms(2) by linarith
  then have "eps < ?pool" by (rule less_le_trans [rotated]) simp
  then have "fsum (extras inp budget) \<le> ?pool + eps * of_nat (length (hungry_models inp))"
    using extras_ok [OF assms(1), of budget] by (auto simp: fill_ok_def)
  also have "\<dots> \<le> ?pool + eps * of_nat (length inp)" using hungry_length [of inp] by simp
  finally show ?thesis .
qed

lemma go_round_near:
  assumes "of_int n - 1 / 2 \<le> x" and "x < of_int n + 1 / 2" and "0 \<le> x"
  shows "go_round x = n"
  using assms by (simp add: go_round_def floor_eq_iff)

lemma go_round_less: "x < of_int n + 1 / 2 \<Longrightarrow> 0 \<le> x \<Longrightarrow> go_round x \<le> n"
  by (simp add: go_round_def floor_le_iff)

lemma extras_nonneg: "wf_inputs inp \<Longrightarrow> 0 \<le> fsum (extras inp budget)"
  by (rule sum_list_nonneg) (auto elim: extras_mem)


text \<open>The fractions that are left over, in whole units, are fewer than the models with a fraction.\<close>

lemma fractions_below_one:
  fixes xs :: "('k \<times> gofloat) list"
  assumes "\<forall>p\<in>set xs. 0 \<le> snd p \<and> snd p < 1"
  shows "fsum xs \<le> of_nat (length (filter (\<lambda>p. 0 < snd p) xs)) \<and>
    (filter (\<lambda>p. 0 < snd p) xs \<noteq> [] \<longrightarrow> fsum xs < of_nat (length (filter (\<lambda>p. 0 < snd p) xs)))"
  using assms
proof (induction xs)
  case (Cons p xs)
  then show ?case by (cases "0 < snd p") auto
qed simp

lemma leftover_bound:
  fixes xs :: "('k \<times> gofloat) list"
  assumes "\<forall>p\<in>set xs. 0 \<le> snd p \<and> snd p < 1" and "of_int n \<le> fsum xs + e" and "0 \<le> e" and "e < 1"
  shows "n \<le> int (length (filter (\<lambda>p. 0 < snd p) xs))"
proof -
  let ?p = "length (filter (\<lambda>p. 0 < snd p) xs)"
  have b: "fsum xs \<le> of_nat ?p" "?p \<noteq> 0 \<longrightarrow> fsum xs < of_nat ?p" using fractions_below_one [OF assms(1)] by auto
  show ?thesis
  proof (cases "?p = 0")
    case True
    then have "of_int n < (1 :: gofloat)" using b(1) assms(2,4) by simp
    then show ?thesis by simp
  next
    case False
    then have "of_int n < (of_int (int ?p + 1) :: gofloat)" using b(2) assms(2,4) by simp
    then show ?thesis by linarith
  qed
qed

lemma fractions_bounds: "\<forall>p\<in>set (fractions inp budget). 0 \<le> snd p \<and> snd p < 1"
  by (auto simp: fractions_def) linarith

lemma fraction_has_room:
  assumes "wf_inputs inp" and "p \<in> set (fractions inp budget)" and "0 < snd p"
  shows "\<not> at_cap (Some (caps inp)) (applied inp budget) (fst p)"
proof -
  obtain e where e: "(fst p, e) \<in> set (extras inp budget)" "snd p = e - of_int \<lfloor>e\<rfloor>"
    using assms(2) by (auto simp: fractions_def)
  obtain m where m: "m \<in> set inp" "ri_ID m = fst p" by (rule extras_mem [OF assms(1) e(1)])
  have "of_int \<lfloor>e\<rfloor> \<noteq> e" using e(2) assms(3) by linarith
  then have "mget 0 (applied inp budget) (ri_ID m) < ri_CapGPUs m"
    using applied_value(3) [OF assms(1) m(1)] e(1) m(2) by metis
  moreover have "map_of (caps inp) (ri_ID m) = Some (ri_CapGPUs m)"
    using m(1) assms(1) by (auto simp: wf_inputs_def comp_def)
  ultimately show ?thesis using m(2) by (simp add: at_cap_def)
qed


definition example_inputs :: "rescale_input list" where
  "example_inputs = [\<lparr>ri_ID = ''hi'', ri_Priority = 3, ri_Demand = 10, ri_FloorGPUs = 1, ri_CapGPUs = 8\<rparr>,
     \<lparr>ri_ID = ''lo'', ri_Priority = 1, ri_Demand = 10, ri_FloorGPUs = 1, ri_CapGPUs = 8\<rparr>]"

lemma example_inputs_ok: "wf_inputs example_inputs" "length example_inputs < 5 * 10 ^ 8"
  by (simp_all add: example_inputs_def wf_inputs_def)



section \<open>Splitting over roles loses nothing\<close>

lemma weight_shares_sum:
  fixes w :: "string \<Rightarrow> int"
  assumes "(\<Sum>r\<leftarrow>roles. w r) \<noteq> 0"
  shows "(\<Sum>r\<leftarrow>roles. of_int remaining * of_int (w r) / of_int (\<Sum>r\<leftarrow>roles. w r) :: gofloat) = of_int remaining"
proof -
  have "(\<Sum>r\<leftarrow>xs. of_int remaining * of_int (w r) / W :: gofloat) = of_int remaining * of_int (\<Sum>r\<leftarrow>xs. w r) / W" for xs W
    by (induction xs) (auto simp: algebra_simps add_divide_distrib)
  then show ?thesis using assms by simp
qed

lemma apportion_roles:
  fixes exact :: "string \<Rightarrow> gofloat"
  assumes "distinct roles" and "wf_map reserved" and "(\<Sum>r\<leftarrow>roles. exact r) = of_int remaining"
  shows "msum (apportionLeftover (fold (\<lambda>r. madd r \<lfloor>exact r\<rfloor>) roles reserved)
      (fold (\<lambda>r. mput r (exact r - of_int \<lfloor>exact r\<rfloor>)) roles []) (remaining - (\<Sum>r\<leftarrow>roles. \<lfloor>exact r\<rfloor>)) None) =
    msum reserved + remaining"
proof -
  let ?rem = "map (\<lambda>r. (r, exact r - of_int \<lfloor>exact r\<rfloor>)) roles"
  have rem: "fold (\<lambda>r. mput r (exact r - of_int \<lfloor>exact r\<rfloor>)) roles [] = ?rem"
    using fold_mput_fresh [of "\<lambda>r. r" roles "[]" "\<lambda>r. exact r - of_int \<lfloor>exact r\<rfloor>"] assms(1) by simp
  have out: "wf_map (fold (\<lambda>r. madd r \<lfloor>exact r\<rfloor>) xs m) \<and>
      msum (fold (\<lambda>r. madd r \<lfloor>exact r\<rfloor>) xs m) = msum m + (\<Sum>r\<leftarrow>xs. \<lfloor>exact r\<rfloor>)" if "wf_map m" for xs m
    using that by (induction xs arbitrary: m) (auto simp: msum_madd)
  have frac: "fsum (map (\<lambda>r. (r, exact r - of_int \<lfloor>exact r\<rfloor>)) xs) = (\<Sum>r\<leftarrow>xs. exact r) - of_int (\<Sum>r\<leftarrow>xs. \<lfloor>exact r\<rfloor>)" for xs
    by (induction xs) auto
  have b: "\<forall>p\<in>set ?rem. 0 \<le> snd p \<and> snd p < 1" by auto linarith
  have "remaining - (\<Sum>r\<leftarrow>roles. \<lfloor>exact r\<rfloor>) \<le> int (length (filter (\<lambda>p. 0 < snd p) ?rem))"
  proof (rule leftover_bound [OF b])
    show "of_int (remaining - (\<Sum>r\<leftarrow>roles. \<lfloor>exact r\<rfloor>)) \<le> fsum ?rem + 0" unfolding frac assms(3) by simp
  qed simp_all
  also have "\<dots> \<le> int (length ?rem)" by (simp only: of_nat_le_iff length_filter_le)
  finally have few: "remaining - (\<Sum>r\<leftarrow>roles. \<lfloor>exact r\<rfloor>) \<le> int (length ?rem)" .
  have "of_int (\<Sum>r\<leftarrow>xs. \<lfloor>exact r\<rfloor>) \<le> (\<Sum>r\<leftarrow>xs. exact r)" for xs
  proof (induction xs)
    case (Cons x xs)
    have "of_int \<lfloor>exact x\<rfloor> \<le> exact x" by simp
    from add_mono [OF this Cons] show ?case by simp
  qed simp
  from this [of roles] have nn: "0 \<le> remaining - (\<Sum>r\<leftarrow>roles. \<lfloor>exact r\<rfloor>)" unfolding assms(3) of_int_le_iff by simp
  show ?thesis unfolding rem
    using apportion_sum_eq [OF conjunct1 [OF out [OF assms(2), of roles]] _ nn, where remainder = ?rem and capOf = None] few assms(1) out [OF assms(2), of roles]
    by (simp add: at_cap_def comp_def)
qed

text \<open>Splitting a model's GPUs over its roles loses and invents none: with non-negative weights the
  roles together get exactly the model's GPUs, or their floors when these are more, and every role of
  a model with several roles keeps its floor.\<close>

theorem role_split_conserves:
  assumes "distinct roles" and "2 \<le> length roles" and "\<forall>r\<in>set roles. 0 \<le> mget 0 weight r \<and> 0 \<le> mget 0 fallback r"
  shows "msum (distributeGPUsByWeight gpus roles weight fallback floors) = max gpus (\<Sum>r\<leftarrow>roles. mget 0 floors r) \<and>
    (\<forall>r\<in>set roles. mget 0 floors r \<le> mget 0 (distributeGPUsByWeight gpus roles weight fallback floors) r)"
proof -
  obtain r0 r1 rs where roles: "roles = r0 # r1 # rs" using assms(2) by (cases roles; cases "tl roles") auto
  let ?reserved = "map (\<lambda>r. (r, mget 0 floors r)) roles"
  define remaining where "remaining = gpus - (\<Sum>r\<leftarrow>roles. mget 0 floors r)"
  define w where "w = (if (\<Sum>r\<leftarrow>roles. mget 0 weight r) = 0 then fallback else weight)"
  define exact where "exact = (\<lambda>r. of_int remaining * of_int (mget 0 w r) / of_int (\<Sum>r\<leftarrow>roles. mget 0 w r) :: gofloat)"
  have res: "fold (\<lambda>r. mput r (mget 0 floors r)) roles [] = ?reserved"
    using fold_mput_fresh [of "\<lambda>r. r" roles "[]" "mget 0 floors"] assms(1) by simp
  have wfr: "wf_map ?reserved" "msum ?reserved = (\<Sum>r\<leftarrow>roles. mget 0 floors r)" using assms(1) by (simp_all add: comp_def)
  have floors: "mget 0 ?reserved r = mget 0 floors r" if "r \<in> set roles" for r
    using that wfr(1) by (intro mget_in) auto
  have dist: "distributeGPUsByWeight gpus roles weight fallback floors =
      (if remaining \<le> 0 then ?reserved
       else if (\<Sum>r\<leftarrow>roles. mget 0 w r) = 0 then madd r0 remaining ?reserved
       else apportionLeftover (fold (\<lambda>r. madd r \<lfloor>exact r\<rfloor>) roles ?reserved)
         (fold (\<lambda>r. mput r (exact r - of_int \<lfloor>exact r\<rfloor>)) roles []) (remaining - (\<Sum>r\<leftarrow>roles. \<lfloor>exact r\<rfloor>)) None)"
    unfolding distributeGPUsByWeight_def Let_def remaining_def w_def exact_def res [symmetric] by (simp only: roles list.case)
  show ?thesis
  proof (cases "remaining \<le> 0 \<or> (\<Sum>r\<leftarrow>roles. mget 0 w r) = 0")
    case True
    then show ?thesis using wfr floors by (auto simp: dist msum_madd) (simp_all add: remaining_def)
  next
    case False
    let ?out = "fold (\<lambda>r. madd r \<lfloor>exact r\<rfloor>) roles ?reserved"
    have "0 \<le> mget 0 w r" if "r \<in> set roles" for r using assms(3) that by (simp add: w_def)
    then have ex: "0 \<le> exact r" if "r \<in> set roles" for r
      using that False unfolding exact_def by (intro divide_nonneg_nonneg mult_nonneg_nonneg) (auto intro!: sum_list_nonneg)
    have mono: "\<forall>r\<in>set xs. 0 \<le> exact r \<Longrightarrow> mget 0 m j \<le> mget 0 (fold (\<lambda>r. madd r \<lfloor>exact r\<rfloor>) xs m) j" for xs m j
    proof (induction xs arbitrary: m)
      case (Cons x xs)
      have "mget 0 m j \<le> mget 0 (madd x \<lfloor>exact x\<rfloor> m) j" using Cons.prems by simp
      then show ?case using Cons.IH [of "madd x \<lfloor>exact x\<rfloor> m"] Cons.prems by (simp del: mget_madd)
    qed simp
    have "(\<Sum>r\<leftarrow>roles. exact r) = of_int remaining"
      unfolding exact_def by (rule weight_shares_sum) (use False in simp)
    from apportion_roles [OF assms(1) wfr(1) this] have "msum (distributeGPUsByWeight gpus roles weight fallback floors) = gpus"
      using False wfr(2) by (simp add: dist remaining_def)
    moreover have "mget 0 floors r \<le> mget 0 (distributeGPUsByWeight gpus roles weight fallback floors) r" if "r \<in> set roles" for r
      using False mono [of roles ?reserved r] ex floors [OF that] apportion_ge [of ?out r] unfolding dist
      by (fastforce intro: order_trans)
    ultimately show ?thesis using False by (simp add: remaining_def)
  qed
qed

lemma role_split_conserves_witness:
  "msum (distributeGPUsByWeight 7 [RoleDecode, RolePrefill] [(RoleDecode, 2), (RolePrefill, 1)] [] [(RolePrefill, 1)]) = 7"
  using role_split_conserves [of "[RoleDecode, RolePrefill]" "[(RoleDecode, 2), (RolePrefill, 1)]" "[]" 7 "[(RolePrefill, 1)]"]
  by (simp add: RoleDecode_def RolePrefill_def)

end
