(* ===== verification/Saturation_Config.thy ===== *)
theory Saturation_Config
  imports Quota_Config
begin

text \<open>
  The scaling thresholds of a model (\<open>internal/config/saturation_scaling.go\<close>): folding of
  plugin parameters, defaults, the overlay of an override on the default entry, validation; the
  parsing of a ConfigMap (\<open>controller/configmap_helpers.go\<close>), the resolution of a model's
  configuration (\<open>engines/saturation/engine.go\<close>) and the choice of the limiter
  (\<open>config/config.go\<close>).  The YAML decoder is a parameter.  Error texts are constructors.
\<close>

section \<open>Entries\<close>

text \<open>A decoded plugin parameter; the last constructor stands for any other dynamic type.\<close>

datatype param_value = PFloat gofloat | PInt int | PBool bool | POther string

record analyzer_score_config =
  an_Type :: string
  an_Name :: string
  an_Enabled :: "bool option"
  an_Score :: gofloat
  an_ScaleUpThreshold :: "gofloat option"
  an_ScaleDownBoundary :: "gofloat option"
  an_Parameters :: "(string, param_value) gomap option"

record saturation_scaling_config =
  sc_ModelID :: string
  sc_Namespace :: string
  sc_KvCacheThreshold :: gofloat
  sc_QueueLengthThreshold :: gofloat
  sc_KvSpareTrigger :: gofloat
  sc_QueueSpareTrigger :: gofloat
  sc_EnableLimiter :: bool
  sc_EnableRescale :: bool
  sc_AnalyzerName :: string
  sc_ScaleUpThreshold :: gofloat
  sc_ScaleDownBoundary :: gofloat
  sc_Priority :: gofloat
  sc_Analyzers :: "analyzer_score_config list"
  sc_ScaleToZero :: "bool option option"
  sc_Limiters :: "quota_limiter_config list"

text \<open>\<open>ScaleToZero\<close> is a pointer to an envelope whose only field is itself an optional flag.\<close>

definition zero_config :: saturation_scaling_config where
  "zero_config = \<lparr>sc_ModelID = [], sc_Namespace = [], sc_KvCacheThreshold = 0,
     sc_QueueLengthThreshold = 0, sc_KvSpareTrigger = 0, sc_QueueSpareTrigger = 0,
     sc_EnableLimiter = False, sc_EnableRescale = False, sc_AnalyzerName = [],
     sc_ScaleUpThreshold = 0, sc_ScaleDownBoundary = 0, sc_Priority = 0, sc_Analyzers = [],
     sc_ScaleToZero = None, sc_Limiters = []\<rparr>"

definition zero_analyzer :: analyzer_score_config where
  "zero_analyzer = \<lparr>an_Type = [], an_Name = [], an_Enabled = None, an_Score = 0,
     an_ScaleUpThreshold = None, an_ScaleDownBoundary = None, an_Parameters = None\<rparr>"

datatype config_error =
    ParamNotNumber string param_value
  | ParamNotBool string param_value
  | BadKvCacheThreshold gofloat
  | BadQueueLengthThreshold gofloat
  | BadKvSpareTrigger gofloat
  | BadQueueSpareTrigger gofloat
  | BadPriority gofloat
  | KvCacheBelowSpare gofloat gofloat
  | BadScaleUpThreshold gofloat
  | BadScaleDownBoundary gofloat
  | ThresholdsInverted gofloat gofloat
  | AnalyzerScaleUp string gofloat
  | AnalyzerScaleDown string gofloat
  | AnalyzerInverted string gofloat gofloat
  | InventoryWithQuotaFields nat string
  | UnknownLimiter nat string
  | BadQuotas "quota_error list"

section \<open>Analyzer entries\<close>

definition EffectiveType :: "analyzer_score_config \<Rightarrow> string" where
  "EffectiveType a = (if an_Type a \<noteq> [] then an_Type a else an_Name a)"

definition paramFloat :: "string \<Rightarrow> param_value \<Rightarrow> config_error + gofloat" where
  "paramFloat key v = (case v of
     PFloat n \<Rightarrow> Inr n | PInt n \<Rightarrow> Inr (of_int n) | _ \<Rightarrow> Inl (ParamNotNumber key v))"

text \<open>A typed field that is set wins over the parameter of the same name.\<close>

definition fold_param :: "string \<Rightarrow> (string, param_value) gomap \<Rightarrow> gofloat option \<Rightarrow>
    config_error + gofloat option" where
  "fold_param key ps field = (case map_of ps key of
     Some v \<Rightarrow> (if field = None then (case paramFloat key v of Inl e \<Rightarrow> Inl e | Inr f \<Rightarrow> Inr (Some f))
               else Inr field)
   | None \<Rightarrow> Inr field)"

definition Normalize_analyzer :: "analyzer_score_config \<Rightarrow> config_error + analyzer_score_config" where
  "Normalize_analyzer a = (case an_Parameters a of
     None \<Rightarrow> Inr a
   | Some ps \<Rightarrow>
      (case fold_param ''scaleUpThreshold'' ps (an_ScaleUpThreshold a) of
         Inl e \<Rightarrow> Inl e
       | Inr up \<Rightarrow>
      (case fold_param ''scaleDownBoundary'' ps (an_ScaleDownBoundary a) of
         Inl e \<Rightarrow> Inl e
       | Inr down \<Rightarrow>
      (case (if an_Score a = 0 \<and> mhas ps ''score'' then paramFloat ''score'' (the (map_of ps ''score''))
             else Inr (an_Score a)) of
         Inl e \<Rightarrow> Inl e
       | Inr score \<Rightarrow>
      (case (if an_Enabled a = None then map_of ps ''enabled'' else None) of
         None \<Rightarrow> Inr (a\<lparr>an_ScaleUpThreshold := up, an_ScaleDownBoundary := down, an_Score := score\<rparr>)
       | Some (PBool b) \<Rightarrow> Inr (a\<lparr>an_ScaleUpThreshold := up, an_ScaleDownBoundary := down,
                                  an_Score := score, an_Enabled := Some b\<rparr>)
       | Some v \<Rightarrow> Inl (ParamNotBool (EffectiveType a) v))))))"

definition EffectiveScaleUpThreshold :: "analyzer_score_config \<Rightarrow> gofloat \<Rightarrow> gofloat" where
  "EffectiveScaleUpThreshold a global =
     (case an_ScaleUpThreshold a of Some t \<Rightarrow> t | None \<Rightarrow> global)"

definition EffectiveScaleDownBoundary :: "analyzer_score_config \<Rightarrow> gofloat \<Rightarrow> gofloat" where
  "EffectiveScaleDownBoundary a global =
     (case an_ScaleDownBoundary a of Some t \<Rightarrow> t | None \<Rightarrow> global)"

section \<open>Defaults and merging\<close>

definition GetAnalyzerName :: "saturation_scaling_config \<Rightarrow> string" where
  "GetAnalyzerName c = (if sc_Analyzers c \<noteq> [] then ''saturation'' else sc_AnalyzerName c)"

definition IsV2 :: "saturation_scaling_config \<Rightarrow> bool" where
  "IsV2 c \<longleftrightarrow> sc_Analyzers c \<noteq> [] \<or> sc_AnalyzerName c = ''saturation''"

definition DefaultScaleUpThreshold :: gofloat where "DefaultScaleUpThreshold = 85 / 100"
definition DefaultScaleDownBoundary :: gofloat where "DefaultScaleDownBoundary = 70 / 100"
definition DefaultKvCacheThreshold :: gofloat where "DefaultKvCacheThreshold = 80 / 100"
definition DefaultQueueLengthThreshold :: gofloat where "DefaultQueueLengthThreshold = 5"
definition DefaultKvSpareTrigger :: gofloat where "DefaultKvSpareTrigger = 10 / 100"
definition DefaultQueueSpareTrigger :: gofloat where "DefaultQueueSpareTrigger = 3"
definition DefaultPriority :: gofloat where "DefaultPriority = 1"

lemmas default_thresholds = DefaultScaleUpThreshold_def DefaultScaleDownBoundary_def
  DefaultKvCacheThreshold_def DefaultQueueLengthThreshold_def DefaultKvSpareTrigger_def
  DefaultQueueSpareTrigger_def DefaultPriority_def

fun Normalize_list :: "analyzer_score_config list \<Rightarrow> config_error + analyzer_score_config list" where
  "Normalize_list [] = Inr []"
| "Normalize_list (a # as) = (case Normalize_analyzer a of
     Inl e \<Rightarrow> Inl e
   | Inr a' \<Rightarrow> (case Normalize_list as of Inl e \<Rightarrow> Inl e | Inr as' \<Rightarrow> Inr (a' # as')))"

definition Normalize :: "saturation_scaling_config \<Rightarrow> config_error + saturation_scaling_config" where
  "Normalize c = (case Normalize_list (sc_Analyzers c) of
     Inl e \<Rightarrow> Inl e | Inr as \<Rightarrow> Inr (c\<lparr>sc_Analyzers := as\<rparr>))"

text \<open>\<open>if x == 0 { x = d }\<close>.\<close>

definition default_to :: "gofloat \<Rightarrow> gofloat \<Rightarrow> gofloat" where
  "default_to d x = (if x = 0 then d else x)"

definition default_analyzer :: "analyzer_score_config \<Rightarrow> analyzer_score_config" where
  "default_analyzer a = a\<lparr>an_Score := default_to 1 (an_Score a),
     an_Enabled := (if an_Enabled a = None then Some True else an_Enabled a)\<rparr>"

definition ApplyV2ThresholdDefaults :: "saturation_scaling_config \<Rightarrow> saturation_scaling_config" where
  "ApplyV2ThresholdDefaults c =
     c\<lparr>sc_ScaleUpThreshold := default_to DefaultScaleUpThreshold (sc_ScaleUpThreshold c),
       sc_ScaleDownBoundary := default_to DefaultScaleDownBoundary (sc_ScaleDownBoundary c)\<rparr>"

definition ApplyDefaults :: "saturation_scaling_config \<Rightarrow> saturation_scaling_config" where
  "ApplyDefaults c =
     (let c1 = c\<lparr>sc_Priority := default_to DefaultPriority (sc_Priority c),
                 sc_KvCacheThreshold := default_to DefaultKvCacheThreshold (sc_KvCacheThreshold c),
                 sc_QueueLengthThreshold := default_to DefaultQueueLengthThreshold (sc_QueueLengthThreshold c),
                 sc_KvSpareTrigger := default_to DefaultKvSpareTrigger (sc_KvSpareTrigger c),
                 sc_QueueSpareTrigger := default_to DefaultQueueSpareTrigger (sc_QueueSpareTrigger c)\<rparr>
      in if IsV2 c1 then
           let c2 = ApplyV2ThresholdDefaults c1;
               as = (if sc_Analyzers c2 = [] then
                       [zero_analyzer\<lparr>an_Name := ''saturation'', an_Score := 1, an_Enabled := Some True\<rparr>]
                     else sc_Analyzers c2)
           in c2\<lparr>sc_Analyzers := map default_analyzer as\<rparr>
         else c1)"

definition overlay :: "gofloat \<Rightarrow> gofloat \<Rightarrow> gofloat" where
  "overlay b ov = (if ov \<noteq> 0 then ov else b)"

definition Merge :: "saturation_scaling_config \<Rightarrow> saturation_scaling_config \<Rightarrow> saturation_scaling_config" where
  "Merge c ov =
     c\<lparr>sc_KvCacheThreshold := overlay (sc_KvCacheThreshold c) (sc_KvCacheThreshold ov),
       sc_QueueLengthThreshold := overlay (sc_QueueLengthThreshold c) (sc_QueueLengthThreshold ov),
       sc_KvSpareTrigger := overlay (sc_KvSpareTrigger c) (sc_KvSpareTrigger ov),
       sc_QueueSpareTrigger := overlay (sc_QueueSpareTrigger c) (sc_QueueSpareTrigger ov),
       sc_AnalyzerName := (if sc_AnalyzerName ov \<noteq> [] then sc_AnalyzerName ov else sc_AnalyzerName c),
       sc_ScaleUpThreshold := overlay (sc_ScaleUpThreshold c) (sc_ScaleUpThreshold ov),
       sc_ScaleDownBoundary := overlay (sc_ScaleDownBoundary c) (sc_ScaleDownBoundary ov),
       sc_EnableLimiter := (if sc_EnableLimiter ov then sc_EnableLimiter ov else sc_EnableLimiter c),
       sc_Priority := overlay (sc_Priority c) (sc_Priority ov),
       sc_Analyzers := (if sc_Analyzers ov \<noteq> [] then sc_Analyzers ov else sc_Analyzers c),
       sc_ScaleToZero := (if sc_ScaleToZero ov \<noteq> None then sc_ScaleToZero ov else sc_ScaleToZero c),
       sc_ModelID := (if sc_ModelID ov \<noteq> [] then sc_ModelID ov else sc_ModelID c),
       sc_Namespace := (if sc_Namespace ov \<noteq> [] then sc_Namespace ov else sc_Namespace c)\<rparr>"

section \<open>Validation\<close>

definition limiterTypeGPUInventory :: string where "limiterTypeGPUInventory = ''gpu-inventory''"

fun limiters_shape :: "nat \<Rightarrow> quota_limiter_config list \<Rightarrow> config_error + quota_limiter_config list" where
  "limiters_shape i [] = Inr []"
| "limiters_shape i (l # ls) =
     (if q_Type l = limiterTypeGPUInventory \<or> q_Type l = ''inventory'' then
        (if q_Scope l \<noteq> [] \<or> q_ClusterQuotas l \<noteq> [] \<or> q_NamespaceQuotas l \<noteq> [] \<or> q_Exclude l \<noteq> []
         then Inl (InventoryWithQuotaFields i (q_Type l))
         else limiters_shape (Suc i) ls)
      else if q_Type l = ''quota'' then
        (case limiters_shape (Suc i) ls of Inl e \<Rightarrow> Inl e | Inr qs \<Rightarrow> Inr (l # qs))
      else Inl (UnknownLimiter i (q_Type l)))"

definition validateLimiters :: "saturation_scaling_config \<Rightarrow> config_error option" where
  "validateLimiters c =
     (if sc_Limiters c = [] then None
      else case limiters_shape 0 (sc_Limiters c) of
        Inl e \<Rightarrow> Some e
      | Inr quotaOnes \<Rightarrow>
          (if quotaOnes \<noteq> [] \<and> snd (Validate_entries quotaOnes) \<noteq> []
           then Some (BadQuotas (snd (Validate_entries quotaOnes))) else None))"

fun validate_analyzers :: "gofloat \<Rightarrow> gofloat \<Rightarrow> analyzer_score_config list \<Rightarrow> config_error option" where
  "validate_analyzers u d [] = None"
| "validate_analyzers u d (a # as) =
     (let bad = (\<lambda>t. case t of None \<Rightarrow> False | Some x \<Rightarrow> x \<le> 0 \<or> 1 < x);
          up = EffectiveScaleUpThreshold a u; down = EffectiveScaleDownBoundary a d in
      if bad (an_ScaleUpThreshold a) then
        Some (AnalyzerScaleUp (EffectiveType a) (the (an_ScaleUpThreshold a)))
      else if bad (an_ScaleDownBoundary a) then
        Some (AnalyzerScaleDown (EffectiveType a) (the (an_ScaleDownBoundary a)))
      else if up \<le> down then Some (AnalyzerInverted (EffectiveType a) up down)
      else validate_analyzers u d as)"

definition Validate_config :: "saturation_scaling_config \<Rightarrow> config_error option" where
  "Validate_config c =
     (let up = sc_ScaleUpThreshold c; down = sc_ScaleDownBoundary c in
      if sc_KvCacheThreshold c < 0 \<or> sc_KvCacheThreshold c > 1 then
        Some (BadKvCacheThreshold (sc_KvCacheThreshold c))
      else if sc_QueueLengthThreshold c < 0 then Some (BadQueueLengthThreshold (sc_QueueLengthThreshold c))
      else if sc_KvSpareTrigger c < 0 \<or> sc_KvSpareTrigger c > 1 then
        Some (BadKvSpareTrigger (sc_KvSpareTrigger c))
      else if sc_QueueSpareTrigger c < 0 then Some (BadQueueSpareTrigger (sc_QueueSpareTrigger c))
      else if sc_Priority c < 0 then Some (BadPriority (sc_Priority c))
      else if sc_KvCacheThreshold c < sc_KvSpareTrigger c then
        Some (KvCacheBelowSpare (sc_KvCacheThreshold c) (sc_KvSpareTrigger c))
      else if up \<noteq> 0 \<and> (up < 0 \<or> up > 1) then Some (BadScaleUpThreshold up)
      else if down \<noteq> 0 \<and> (down < 0 \<or> down > 1) then Some (BadScaleDownBoundary down)
      else if up \<noteq> 0 \<and> down \<noteq> 0 \<and> up \<le> down then Some (ThresholdsInverted up down)
      else if IsV2 c \<and> up \<le> 0 then Some (BadScaleUpThreshold up)
      else if IsV2 c \<and> down \<le> 0 then Some (BadScaleDownBoundary down)
      else case (if IsV2 c then validate_analyzers up down (sc_Analyzers c) else None) of
             Some e \<Rightarrow> Some e
           | None \<Rightarrow> validateLimiters c)"

section \<open>Parsing a ConfigMap and resolving a model\<close>

type_synonym config_map = "(string, saturation_scaling_config) gomap"

text \<open>One entry: decoded, folded, defaulted, validated; a failing entry is skipped.\<close>

definition parse_entry ::
  "(string \<Rightarrow> saturation_scaling_config option) \<Rightarrow> string \<Rightarrow> saturation_scaling_config option" where
  "parse_entry yaml_decode text = (case yaml_decode text of
     None \<Rightarrow> None
   | Some c \<Rightarrow> (case Normalize c of
       Inl _ \<Rightarrow> None
     | Inr c1 \<Rightarrow> (let c2 = ApplyDefaults c1 in if Validate_config c2 = None then Some c2 else None)))"

definition parseSaturationConfig ::
  "(string \<Rightarrow> saturation_scaling_config option) \<Rightarrow> (string, string) gomap \<Rightarrow> config_map \<times> int" where
  "parseSaturationConfig yaml_decode cmData =
     fold (\<lambda>(key, text) (configs, count). case parse_entry yaml_decode text of
        None \<Rightarrow> (configs, count)
      | Some c \<Rightarrow> (mput key c configs, count + 1)) cmData ([], 0)"

definition resolveSaturationConfig :: "config_map \<Rightarrow> string \<Rightarrow> string \<Rightarrow> saturation_scaling_config" where
  "resolveSaturationConfig configMap modelID namespace =
     (let base = (case map_of configMap ''default'' of Some c \<Rightarrow> c | None \<Rightarrow> zero_config);
          merged = (case map_of configMap (modelID @ ''#'' @ namespace) of
                      Some ov \<Rightarrow> Merge base ov | None \<Rightarrow> base);
          c = ApplyV2ThresholdDefaults (ApplyDefaults merged)
      in if sc_ScaleUpThreshold c \<le> sc_ScaleDownBoundary c
         then c\<lparr>sc_ScaleUpThreshold := DefaultScaleUpThreshold,
                sc_ScaleDownBoundary := DefaultScaleDownBoundary\<rparr>
         else c)"

section \<open>The live configuration\<close>

record live_config =
  lc_global :: config_map
  lc_namespaceConfigs :: "(string, config_map) gomap"

definition live_resolve :: "live_config \<Rightarrow> string \<Rightarrow> config_map" where
  "live_resolve c namespace =
     (let nsConfig = mget [] (lc_namespaceConfigs c) namespace in
      if namespace \<noteq> [] \<and> mhas (lc_namespaceConfigs c) namespace \<and> nsConfig \<noteq> [] then nsConfig
      else lc_global c)"

definition UpdateSaturationConfigForNamespace :: "string \<Rightarrow> config_map \<Rightarrow> live_config \<Rightarrow> live_config" where
  "UpdateSaturationConfigForNamespace namespace m c =
     (if namespace = [] then c\<lparr>lc_global := m\<rparr>
      else c\<lparr>lc_namespaceConfigs := mput namespace m (lc_namespaceConfigs c)\<rparr>)"

definition RemoveNamespaceConfig :: "string \<Rightarrow> live_config \<Rightarrow> live_config" where
  "RemoveNamespaceConfig namespace c =
     (if namespace = [] then c
      else c\<lparr>lc_namespaceConfigs := filter (\<lambda>(ns, _). ns \<noteq> namespace) (lc_namespaceConfigs c)\<rparr>)"

definition RescaleEnabledForNamespaceLocal :: "live_config \<Rightarrow> string \<Rightarrow> bool \<times> bool" where
  "RescaleEnabledForNamespaceLocal c namespace =
     (if namespace = [] then (False, False)
      else case map_of (lc_namespaceConfigs c) namespace of
        None \<Rightarrow> (False, False)
      | Some [] \<Rightarrow> (False, False)
      | Some nsCfg \<Rightarrow> (sc_EnableRescale (mget zero_config nsCfg ''default''), True))"

definition RescaleEnabledCluster :: "live_config \<Rightarrow> bool" where
  "RescaleEnabledCluster c = sc_EnableRescale (mget zero_config (lc_global c) ''default'')"

definition EffectiveLimiterMode :: "live_config \<Rightarrow> string" where
  "EffectiveLimiterMode c =
     (if \<exists>l\<in>set (sc_Limiters (mget zero_config (lc_global c) ''default'')). q_Type l = ''quota''
      then ''quota'' else ''inventory'')"

definition EffectiveQuotaEntries :: "live_config \<Rightarrow> quota_limiter_config list" where
  "EffectiveQuotaEntries c =
     filter (\<lambda>l. q_Type l = ''quota'') (sc_Limiters (mget zero_config (lc_global c) ''default''))"

section \<open>What validation accepts\<close>

definition wf_threshold :: "gofloat \<Rightarrow> bool" where
  "wf_threshold x \<longleftrightarrow> 0 < x \<and> x \<le> 1"

definition wf_analyzer :: "gofloat \<Rightarrow> gofloat \<Rightarrow> analyzer_score_config \<Rightarrow> bool" where
  "wf_analyzer u d a \<longleftrightarrow> pred_option wf_threshold (an_ScaleUpThreshold a) \<and>
     pred_option wf_threshold (an_ScaleDownBoundary a) \<and>
     EffectiveScaleDownBoundary a d < EffectiveScaleUpThreshold a u"

definition inventory_entry :: "quota_limiter_config \<Rightarrow> bool" where
  "inventory_entry l \<longleftrightarrow> q_Type l = ''gpu-inventory'' \<or> q_Type l = ''inventory''"

definition wf_limiters :: "quota_limiter_config list \<Rightarrow> bool" where
  "wf_limiters ls \<longleftrightarrow>
     (\<forall>l\<in>set ls. inventory_entry l \<and> q_Scope l = [] \<and> q_ClusterQuotas l = [] \<and>
        q_NamespaceQuotas l = [] \<and> q_Exclude l = [] \<or> wf_entry l) \<and>
     distinct (map q_Name (filter (\<lambda>l. q_Type l = ''quota'') ls))"

definition wf_config :: "saturation_scaling_config \<Rightarrow> bool" where
  "wf_config c \<longleftrightarrow>
     0 \<le> sc_KvSpareTrigger c \<and> sc_KvSpareTrigger c \<le> sc_KvCacheThreshold c \<and> sc_KvCacheThreshold c \<le> 1 \<and>
     0 \<le> sc_QueueLengthThreshold c \<and> 0 \<le> sc_QueueSpareTrigger c \<and> 0 \<le> sc_Priority c \<and>
     (sc_ScaleUpThreshold c \<noteq> 0 \<longrightarrow> wf_threshold (sc_ScaleUpThreshold c)) \<and>
     (sc_ScaleDownBoundary c \<noteq> 0 \<longrightarrow> wf_threshold (sc_ScaleDownBoundary c)) \<and>
     (sc_ScaleUpThreshold c \<noteq> 0 \<and> sc_ScaleDownBoundary c \<noteq> 0 \<longrightarrow>
        sc_ScaleDownBoundary c < sc_ScaleUpThreshold c) \<and>
     (IsV2 c \<longrightarrow> sc_ScaleUpThreshold c \<noteq> 0 \<and> sc_ScaleDownBoundary c \<noteq> 0 \<and>
        (\<forall>a\<in>set (sc_Analyzers c). wf_analyzer (sc_ScaleUpThreshold c) (sc_ScaleDownBoundary c) a)) \<and>
     wf_limiters (sc_Limiters c)"

lemma validate_analyzers_ok: "validate_analyzers u d as = None \<longleftrightarrow> (\<forall>a\<in>set as. wf_analyzer u d a)"
  by (induction u d as rule: validate_analyzers.induct)
    (auto simp: wf_analyzer_def wf_threshold_def Let_def split: option.splits)

lemma limiters_shape_Inr:
  "limiters_shape i ls = Inr qs \<longleftrightarrow> qs = filter (\<lambda>l. q_Type l = ''quota'') ls \<and>
     (\<forall>l\<in>set ls. inventory_entry l \<and> q_Scope l = [] \<and> q_ClusterQuotas l = [] \<and>
        q_NamespaceQuotas l = [] \<and> q_Exclude l = [] \<or> q_Type l = ''quota'')"
  by (induction i ls arbitrary: qs rule: limiters_shape.induct)
    (auto simp: inventory_entry_def limiterTypeGPUInventory_def split: sum.splits)

lemma wf_entry_type: "wf_entry l \<Longrightarrow> q_Type l = ''quota''"
  by (simp add: wf_entry_def)

lemma validateLimiters_ok: "validateLimiters c = None \<longleftrightarrow> wf_limiters (sc_Limiters c)"
proof (cases "limiters_shape 0 (sc_Limiters c)")
  case (Inl e)
  then have "\<not> (\<forall>l\<in>set (sc_Limiters c). inventory_entry l \<and> q_Scope l = [] \<and> q_ClusterQuotas l = [] \<and>
        q_NamespaceQuotas l = [] \<and> q_Exclude l = [] \<or> q_Type l = ''quota'')"
    using limiters_shape_Inr [of 0 "sc_Limiters c"] by fastforce
  with Inl show ?thesis using wf_entry_type by (auto simp: validateLimiters_def wf_limiters_def)
next
  case (Inr qs)
  then have qs: "qs = filter (\<lambda>l. q_Type l = ''quota'') (sc_Limiters c)"
    and shape: "\<forall>l\<in>set (sc_Limiters c). inventory_entry l \<and> q_Scope l = [] \<and> q_ClusterQuotas l = [] \<and>
        q_NamespaceQuotas l = [] \<and> q_Exclude l = [] \<or> q_Type l = ''quota''"
    by (simp_all add: limiters_shape_Inr)
  have none: "validateLimiters c = None \<longleftrightarrow> snd (Validate_entries qs) = []"
    using Inr by (auto simp: validateLimiters_def Validate_entries_def)
  have "(\<forall>l\<in>set (sc_Limiters c). inventory_entry l \<and> q_Scope l = [] \<and> q_ClusterQuotas l = [] \<and>
        q_NamespaceQuotas l = [] \<and> q_Exclude l = [] \<or> wf_entry l) \<longleftrightarrow> list_all wf_entry qs"
    using shape wf_entry_type by (auto simp: qs list_all_iff inventory_entry_def)
  then show ?thesis
    by (simp add: none wf_limiters_def Validate_entries_def validate_loop_ok qs)
qed

lemma Validate_config_ok: "Validate_config c = None \<longleftrightarrow> wf_config c"
proof -
  have "Validate_config c = None \<longleftrightarrow>
     0 \<le> sc_KvSpareTrigger c \<and> sc_KvSpareTrigger c \<le> sc_KvCacheThreshold c \<and> sc_KvCacheThreshold c \<le> 1 \<and>
     0 \<le> sc_QueueLengthThreshold c \<and> 0 \<le> sc_QueueSpareTrigger c \<and> 0 \<le> sc_Priority c \<and>
     (sc_ScaleUpThreshold c \<noteq> 0 \<longrightarrow> wf_threshold (sc_ScaleUpThreshold c)) \<and>
     (sc_ScaleDownBoundary c \<noteq> 0 \<longrightarrow> wf_threshold (sc_ScaleDownBoundary c)) \<and>
     (sc_ScaleUpThreshold c \<noteq> 0 \<and> sc_ScaleDownBoundary c \<noteq> 0 \<longrightarrow>
        sc_ScaleDownBoundary c < sc_ScaleUpThreshold c) \<and>
     (IsV2 c \<longrightarrow> sc_ScaleUpThreshold c \<noteq> 0 \<and> sc_ScaleDownBoundary c \<noteq> 0 \<and>
        validate_analyzers (sc_ScaleUpThreshold c) (sc_ScaleDownBoundary c) (sc_Analyzers c) = None) \<and>
     validateLimiters c = None"
    unfolding Validate_config_def Let_def wf_threshold_def
    by (auto split: option.splits if_splits)
  then show ?thesis
    by (simp add: wf_config_def validate_analyzers_ok validateLimiters_ok)
qed

section \<open>Parsed and resolved configurations\<close>

definition parsed :: "saturation_scaling_config \<Rightarrow> bool" where
  "parsed c \<longleftrightarrow> wf_config c \<and> (\<exists>c'. c = ApplyDefaults c')"

lemma parse_entry_parsed: "parse_entry y t = Some c \<Longrightarrow> parsed c"
  by (auto simp: parse_entry_def parsed_def Validate_config_ok Let_def
      split: option.splits sum.splits if_splits)

lemma parseSaturationConfig_parsed:
  assumes "map_of (fst (parseSaturationConfig y data)) k = Some c"
  shows "parsed c"
proof -
  have "map_of (fst (fold (\<lambda>(key, text) (configs, count). case parse_entry y text of
        None \<Rightarrow> (configs, count) | Some c \<Rightarrow> (mput key c configs, count + 1)) xs (m, n :: int))) k = Some c
      \<Longrightarrow> \<forall>k c. map_of m k = Some c \<longrightarrow> parsed c \<Longrightarrow> parsed c" for xs m n
  proof (induction xs arbitrary: m n)
    case (Cons x xs)
    obtain key tx where x: "x = (key, tx)" by fastforce
    show ?case
    proof (cases "parse_entry y tx")
      case None
      then show ?thesis using Cons x by simp
    next
      case (Some c1)
      then show ?thesis
        using Cons.IH [of "mput key c1 m" "n + 1"] Cons.prems x parse_entry_parsed [OF Some]
        by (simp add: update_conv split: if_splits)
    qed
  qed simp
  from this [of data "[]" 0] assms show ?thesis by (simp add: parseSaturationConfig_def)
qed

lemma default_to_pos: "0 \<le> x \<Longrightarrow> 0 < d \<Longrightarrow> 0 < default_to d x"
  by (simp add: default_to_def)

lemma default_to_range: "0 \<le> x \<Longrightarrow> x \<le> 1 \<Longrightarrow> 0 < d \<Longrightarrow> d \<le> 1 \<Longrightarrow>
    0 < default_to d x \<and> default_to d x \<le> 1"
  by (simp add: default_to_def)

lemma ApplyDefaults_fields:
  "sc_Priority (ApplyDefaults c) = default_to DefaultPriority (sc_Priority c)"
  "sc_KvCacheThreshold (ApplyDefaults c) = default_to DefaultKvCacheThreshold (sc_KvCacheThreshold c)"
  "sc_QueueLengthThreshold (ApplyDefaults c) = default_to DefaultQueueLengthThreshold (sc_QueueLengthThreshold c)"
  "sc_KvSpareTrigger (ApplyDefaults c) = default_to DefaultKvSpareTrigger (sc_KvSpareTrigger c)"
  "sc_QueueSpareTrigger (ApplyDefaults c) = default_to DefaultQueueSpareTrigger (sc_QueueSpareTrigger c)"
  "sc_ScaleUpThreshold (ApplyDefaults c) =
     (if IsV2 c then default_to DefaultScaleUpThreshold (sc_ScaleUpThreshold c) else sc_ScaleUpThreshold c)"
  "sc_ScaleDownBoundary (ApplyDefaults c) =
     (if IsV2 c then default_to DefaultScaleDownBoundary (sc_ScaleDownBoundary c) else sc_ScaleDownBoundary c)"
  by (simp_all add: ApplyDefaults_def ApplyV2ThresholdDefaults_def IsV2_def Let_def)

lemma resolved_fields:
  fixes m modelID namespace
  defines "r \<equiv> resolveSaturationConfig m modelID namespace"
  defines "base \<equiv> (case map_of m ''default'' of Some c \<Rightarrow> c | None \<Rightarrow> zero_config)"
  defines "merged \<equiv> (case map_of m (modelID @ ''#'' @ namespace) of Some ov \<Rightarrow> Merge base ov | None \<Rightarrow> base)"
  shows "sc_Priority r = default_to DefaultPriority (sc_Priority merged)"
    and "sc_KvCacheThreshold r = default_to DefaultKvCacheThreshold (sc_KvCacheThreshold merged)"
    and "sc_QueueLengthThreshold r = default_to DefaultQueueLengthThreshold (sc_QueueLengthThreshold merged)"
    and "sc_KvSpareTrigger r = default_to DefaultKvSpareTrigger (sc_KvSpareTrigger merged)"
    and "sc_QueueSpareTrigger r = default_to DefaultQueueSpareTrigger (sc_QueueSpareTrigger merged)"
    and "sc_ScaleUpThreshold r = default_to DefaultScaleUpThreshold (sc_ScaleUpThreshold merged) \<and>
         sc_ScaleDownBoundary r = default_to DefaultScaleDownBoundary (sc_ScaleDownBoundary merged) \<and>
         sc_ScaleDownBoundary r < sc_ScaleUpThreshold r \<or>
       sc_ScaleUpThreshold r = DefaultScaleUpThreshold \<and> sc_ScaleDownBoundary r = DefaultScaleDownBoundary"
  unfolding r_def resolveSaturationConfig_def Let_def base_def [symmetric] merged_def [symmetric]
  by (simp_all add: ApplyDefaults_fields ApplyV2ThresholdDefaults_def default_to_def)

section \<open>Properties\<close>

text \<open>The merged entry of two parsed entries keeps the ranges; only the order of the pair can break.\<close>

definition in_range :: "saturation_scaling_config \<Rightarrow> bool" where
  "in_range c \<longleftrightarrow> 0 \<le> sc_KvCacheThreshold c \<and> sc_KvCacheThreshold c \<le> 1 \<and> 0 \<le> sc_KvSpareTrigger c \<and>
     sc_KvSpareTrigger c \<le> 1 \<and> 0 \<le> sc_QueueLengthThreshold c \<and> 0 \<le> sc_QueueSpareTrigger c \<and>
     0 \<le> sc_Priority c \<and> 0 \<le> sc_ScaleUpThreshold c \<and> sc_ScaleUpThreshold c \<le> 1 \<and>
     0 \<le> sc_ScaleDownBoundary c \<and> sc_ScaleDownBoundary c \<le> 1"

lemma wf_config_in_range: "wf_config c \<Longrightarrow> in_range c"
  by (auto simp: wf_config_def in_range_def wf_threshold_def)

lemma in_range_Merge: "in_range c \<Longrightarrow> in_range ov \<Longrightarrow> in_range (Merge c ov)"
  by (simp add: in_range_def Merge_def overlay_def)

lemma in_range_zero: "in_range zero_config"
  by (simp add: in_range_def zero_config_def)

definition ex_default :: saturation_scaling_config where
  "ex_default = zero_config\<lparr>sc_KvCacheThreshold := 9 / 10, sc_Priority := 5, sc_AnalyzerName := ''saturation''\<rparr>"

definition ex_override :: saturation_scaling_config where
  "ex_override = zero_config\<lparr>sc_ModelID := ''m'', sc_Namespace := ''ns'', sc_QueueLengthThreshold := 2\<rparr>"

text \<open>A decoder of two documents and the ConfigMap that holds them.\<close>

definition ex_yaml :: "string \<Rightarrow> saturation_scaling_config option" where
  "ex_yaml t = (if t = ''base'' then Some ex_default else if t = ''override'' then Some ex_override else None)"

definition ex_cm :: "(string, string) gomap" where
  "ex_cm = [(''default'', ''base''), (''m#ns'', ''override''), (''broken'', ''?'')]"

lemmas ex_config_defs = ex_default_def ex_override_def ex_yaml_def ex_cm_def zero_config_def zero_analyzer_def



text \<open>C24. An override never inherits a basic threshold or the priority: defaults are filled into every
  entry when it is parsed, so what the override leaves out is already the built-in default when it
  is laid over the base, and the base's value is lost.\<close>

theorem override_hides_base:
  assumes "map_of (fst (parseSaturationConfig y data)) (modelID @ ''#'' @ namespace) = Some ov"
  defines "r \<equiv> resolveSaturationConfig (fst (parseSaturationConfig y data)) modelID namespace"
  shows "sc_KvCacheThreshold r = sc_KvCacheThreshold ov \<and> sc_KvSpareTrigger r = sc_KvSpareTrigger ov \<and>
    sc_QueueLengthThreshold r = sc_QueueLengthThreshold ov \<and>
    sc_QueueSpareTrigger r = sc_QueueSpareTrigger ov \<and> sc_Priority r = sc_Priority ov"
proof -
  obtain c' where "ov = ApplyDefaults c'"
    using parseSaturationConfig_parsed [OF assms(1)] by (auto simp: parsed_def)
  then have nz: "sc_KvCacheThreshold ov \<noteq> 0" "sc_KvSpareTrigger ov \<noteq> 0" "sc_QueueLengthThreshold ov \<noteq> 0"
    "sc_QueueSpareTrigger ov \<noteq> 0" "sc_Priority ov \<noteq> 0"
    by (simp_all add: ApplyDefaults_fields default_to_def default_thresholds)
  show ?thesis
    using resolved_fields [of "fst (parseSaturationConfig y data)" modelID namespace] assms(1) nz
    by (simp add: r_def Merge_def overlay_def default_to_def)
qed

theorem override_hides_base_witness:
  "sc_KvCacheThreshold (resolveSaturationConfig (fst (parseSaturationConfig ex_yaml ex_cm)) ''m'' ''ns'') = 8 / 10
   \<and> sc_KvCacheThreshold (mget zero_config (fst (parseSaturationConfig ex_yaml ex_cm)) ''default'') = 9 / 10"
proof -
  have V: "Validate_config (ApplyDefaults ex_default) = None" "Validate_config (ApplyDefaults ex_override) = None"
    by (simp_all add: Validate_config_def ApplyDefaults_def ApplyV2ThresholdDefaults_def ex_config_defs
        IsV2_def Let_def default_to_def default_thresholds default_analyzer_def validateLimiters_def
        EffectiveScaleUpThreshold_def EffectiveScaleDownBoundary_def)
  have N: "Normalize ex_default = Inr ex_default" "Normalize ex_override = Inr ex_override"
    by (simp_all add: Normalize_def ex_config_defs)
  have P: "fst (parseSaturationConfig ex_yaml ex_cm) =
      [(''default'', ApplyDefaults ex_default), (''m#ns'', ApplyDefaults ex_override)]"
    by (simp add: parseSaturationConfig_def parse_entry_def ex_cm_def ex_yaml_def V N)
  have "map_of (fst (parseSaturationConfig ex_yaml ex_cm)) (''m'' @ ''#'' @ ''ns'') = Some (ApplyDefaults ex_override)"
    by (simp add: P)
  from override_hides_base [OF this] show ?thesis
    by (simp add: P ApplyDefaults_fields ex_default_def ex_override_def zero_config_def default_to_def
        default_thresholds)
qed

text \<open>The thresholds of a namespace are its own: writing or removing the configuration of one
  namespace leaves what every other namespace resolves to unchanged, and a namespace whose
  configuration is removed falls back to the global one.\<close>

theorem namespace_config_isolated:
  "(ns \<noteq> [] \<and> ns' \<noteq> ns \<longrightarrow> live_resolve (UpdateSaturationConfigForNamespace ns m c) ns' = live_resolve c ns' \<and>
      live_resolve (RemoveNamespaceConfig ns c) ns' = live_resolve c ns') \<and>
   (ns \<noteq> [] \<longrightarrow> live_resolve (RemoveNamespaceConfig ns c) ns = lc_global c)"
proof -
  have other: "map_of (filter (\<lambda>(k, _). k \<noteq> ns) xs) ns' = map_of xs ns'"
    if "ns' \<noteq> ns" for xs :: "(string, config_map) gomap"
    using that by (induction xs) auto
  have gone: "map_of (filter (\<lambda>(k, _). k \<noteq> ns) xs) ns = None" for xs :: "(string, config_map) gomap"
    by (induction xs) auto
  show ?thesis
    by (auto simp: live_resolve_def UpdateSaturationConfigForNamespace_def RemoveNamespaceConfig_def
        mget_def mhas_def update_conv other gone Let_def)
qed

theorem namespace_config_isolated_witness:
  "live_resolve (RemoveNamespaceConfig ''a'' \<lparr>lc_global = [(''default'', ex_default)],
     lc_namespaceConfigs = [(''a'', [(''default'', ex_override)]), (''b'', [(''default'', ex_override)])]\<rparr>) ''b''
   = [(''default'', ex_override)]"
  using namespace_config_isolated [of "''a''" "''b''" "[]" "\<lparr>lc_global = [(''default'', ex_default)],
     lc_namespaceConfigs = [(''a'', [(''default'', ex_override)]), (''b'', [(''default'', ex_override)])]\<rparr>"]
  by (simp add: live_resolve_def mhas_def)

definition ex_tuned :: saturation_scaling_config where
  "ex_tuned = zero_config\<lparr>sc_Analyzers :=
     [zero_analyzer\<lparr>an_Name := ''saturation'', an_ScaleUpThreshold := Some (75 / 100)\<rparr>]\<rparr>"

definition ex_raise_down :: saturation_scaling_config where
  "ex_raise_down = zero_config\<lparr>sc_ModelID := ''m'', sc_Namespace := ''ns'', sc_ScaleDownBoundary := 80 / 100\<rparr>"


end
