(* ===== verification/Scale_To_Zero.thy ===== *)
theory Scale_To_Zero
  imports Saturation_Config
begin

text \<open>
  The scale-to-zero configuration (\<open>internal/config/scale_to_zero.go\<close>): who may scale to
  zero, after which retention period, and the parsing of the ConfigMap.  The YAML decoder and the
  environment variable are parameters; durations are nanoseconds, read as Go's
  \<open>time.ParseDuration\<close> does (fractions are cut to whole nanoseconds).
\<close>

section \<open>Durations\<close>

definition is_digit :: "char \<Rightarrow> bool" where
  "is_digit c \<longleftrightarrow> 48 \<le> (of_char c :: nat) \<and> (of_char c :: nat) \<le> 57"

definition digits_val :: "string \<Rightarrow> int" where
  "digits_val s = fold (\<lambda>c v. 10 * v + (of_char c - 48)) s 0"

definition time_Second :: int where "time_Second = 1000000000"
definition time_Minute :: int where "time_Minute = 60 * time_Second"
definition time_Hour :: int where "time_Hour = 60 * time_Minute"

definition unit_of :: "string \<Rightarrow> int option" where
  "unit_of u = map_of [(''ns'', 1), (''us'', 1000), ([CHR 0xC2, CHR 0xB5, CHR ''s''], 1000),
     ([CHR 0xCE, CHR 0xBC, CHR ''s''], 1000), (''ms'', 1000000), (''s'', time_Second),
     (''m'', time_Minute), (''h'', time_Hour)] u"

text \<open>One or more numbers with units; \<^const>\<open>None\<close> is any of the errors.\<close>

function parse_units :: "string \<Rightarrow> int option" where
  "parse_units s =
     (if s = [] then Some 0
      else
        let r1 = dropWhile is_digit s;
            frac = (case r1 of c # r \<Rightarrow> if c = CHR ''.'' then Some r else None | [] \<Rightarrow> None);
            ip = takeWhile is_digit s;
            fp = (case frac of Some r \<Rightarrow> takeWhile is_digit r | None \<Rightarrow> []);
            r2 = (case frac of Some r \<Rightarrow> dropWhile is_digit r | None \<Rightarrow> r1);
            u = takeWhile (\<lambda>c. \<not> (c = CHR ''.'' \<or> is_digit c)) r2;
            rest = drop (length u) r2
        in if ip = [] \<and> fp = [] \<or> u = [] then None
        else case unit_of u of
          None \<Rightarrow> None
        | Some unit \<Rightarrow>
            (if digits_val ip > 2 ^ 63 div unit then None
             else
               let v = digits_val ip * unit + (digits_val fp * unit) div 10 ^ length fp in
               if v > 2 ^ 63 then None
               else case parse_units rest of
                 None \<Rightarrow> None
               | Some d \<Rightarrow> if v + d > 2 ^ 63 then None else Some (v + d)))"
  by pat_completeness auto

lemma length_dropWhile_bound: "length (dropWhile P s) \<le> length s"
  by (rule length_dropWhile_le)

termination parse_units
proof (relation "measure length", goal_cases)
  case (2 s r1 frac ip fp r2 u rest unit v)
  have "length r1 \<le> length s" using 2(2) length_dropWhile_bound by simp
  moreover have "length r2 \<le> length r1"
  proof (cases frac)
    case (Some r)
    then have "r1 = CHR ''.'' # r" using 2(3) by (simp split: list.splits if_splits)
    then show ?thesis using 2(6) Some length_dropWhile_bound [of is_digit r] by simp
  qed (use 2(6) in simp)
  moreover have "0 < length u" "length u \<le> length r2"
    using 2(9) 2(7) by (simp_all add: length_takeWhile_le)
  ultimately have "length r2 - length u < length s" by linarith
  then show ?case using 2(8) by simp
qed simp

declare parse_units.simps [simp del]

definition ParseDuration :: "string \<Rightarrow> int option" where
  "ParseDuration s =
     (let neg = (s \<noteq> [] \<and> hd s = CHR ''-'');
          t = (if s \<noteq> [] \<and> (hd s = CHR ''-'' \<or> hd s = CHR ''+'') then tl s else s)
      in if t = ''0'' then Some 0
      else if t = [] then None
      else case parse_units t of
        None \<Rightarrow> None
      | Some d \<Rightarrow> if neg then Some (- d) else if d > 2 ^ 63 - 1 then None else Some d)"

section \<open>Entries\<close>

record scale_to_zero_entry =
  sz_ModelID :: string
  sz_Namespace :: string
  sz_EnableScaleToZero :: "bool option"
  sz_RetentionPeriod :: string

type_synonym scale_to_zero_data = "(string, scale_to_zero_entry) gomap"

definition GlobalDefaultsKey :: string where "GlobalDefaultsKey = ''default''"
definition DefaultScaleToZeroRetentionPeriod :: int where
  "DefaultScaleToZeroRetentionPeriod = 10 * time_Minute"

definition to_lower :: "char \<Rightarrow> char" where
  "to_lower c = (let n = (of_char c :: nat) in if 65 \<le> n \<and> n \<le> 90 then char_of (n + 32) else c)"

text \<open>The flag an entry sets, if there is an entry and it sets one.\<close>

definition entry_flag :: "scale_to_zero_data \<Rightarrow> string \<Rightarrow> bool option" where
  "entry_flag d k = (case map_of d k of Some e \<Rightarrow> sz_EnableScaleToZero e | None \<Rightarrow> None)"

definition IsScaleToZeroEnabled :: "string \<Rightarrow> scale_to_zero_data \<Rightarrow> string \<Rightarrow> bool" where
  "IsScaleToZeroEnabled env configData modelID =
     (case entry_flag configData modelID of
        Some b \<Rightarrow> b
      | None \<Rightarrow> (case entry_flag configData GlobalDefaultsKey of
          Some b \<Rightarrow> b
        | None \<Rightarrow> map to_lower env = ''true''))"

definition ResolveScaleToZeroEnabled ::
  "string \<Rightarrow> saturation_scaling_config option \<Rightarrow> scale_to_zero_data \<Rightarrow> string \<Rightarrow> bool" where
  "ResolveScaleToZeroEnabled env sat configData modelID =
     (case sat of
        Some c \<Rightarrow> (case sc_ScaleToZero c of
          Some (Some b) \<Rightarrow> b | _ \<Rightarrow> IsScaleToZeroEnabled env configData modelID)
      | None \<Rightarrow> IsScaleToZeroEnabled env configData modelID)"

datatype retention_error = EmptyRetention | BadFormat string | NotPositive int

definition ValidateRetentionPeriod :: "string \<Rightarrow> retention_error + int" where
  "ValidateRetentionPeriod s =
     (if s = [] then Inl EmptyRetention
      else case ParseDuration s of
        None \<Rightarrow> Inl (BadFormat s)
      | Some d \<Rightarrow> if d \<le> 0 then Inl (NotPositive d) else Inr d)"

definition ScaleToZeroRetentionPeriod :: "scale_to_zero_data \<Rightarrow> string \<Rightarrow> int" where
  "ScaleToZeroRetentionPeriod configData modelID =
     (let global =
        (case map_of configData GlobalDefaultsKey of
           Some e \<Rightarrow> (if sz_RetentionPeriod e \<noteq> [] then
               (case ValidateRetentionPeriod (sz_RetentionPeriod e) of
                  Inl _ \<Rightarrow> DefaultScaleToZeroRetentionPeriod | Inr d \<Rightarrow> d)
             else DefaultScaleToZeroRetentionPeriod)
         | None \<Rightarrow> DefaultScaleToZeroRetentionPeriod)
      in case map_of configData modelID of
           Some e \<Rightarrow> (if sz_RetentionPeriod e \<noteq> [] then
               (case ValidateRetentionPeriod (sz_RetentionPeriod e) of Inl _ \<Rightarrow> global | Inr d \<Rightarrow> d)
             else global)
         | None \<Rightarrow> global)"

definition MinNumReplicas :: "string \<Rightarrow> scale_to_zero_data \<Rightarrow> string \<Rightarrow> int" where
  "MinNumReplicas env configData modelID = (if IsScaleToZeroEnabled env configData modelID then 0 else 1)"

section \<open>Parsing the ConfigMap\<close>

text \<open>The loop over the sorted keys; \<open>seen\<close> holds the models already defined.\<close>

fun parse_stz ::
  "(string \<Rightarrow> scale_to_zero_entry option) \<Rightarrow> (string, string) gomap \<Rightarrow> string list \<Rightarrow> string list \<Rightarrow>
   scale_to_zero_data \<Rightarrow> scale_to_zero_data" where
  "parse_stz yaml_decode data [] seen out = out"
| "parse_stz yaml_decode data (key # keys) seen out =
     (case yaml_decode (mget [] data key) of
        None \<Rightarrow> parse_stz yaml_decode data keys seen out
      | Some c \<Rightarrow>
          if key = GlobalDefaultsKey then parse_stz yaml_decode data keys seen (mput GlobalDefaultsKey c out)
          else if sz_ModelID c = [] then parse_stz yaml_decode data keys seen out
          else if sz_ModelID c \<in> set seen then parse_stz yaml_decode data keys seen out
          else parse_stz yaml_decode data keys (sz_ModelID c # seen) (mput (sz_ModelID c) c out))"

definition ParseScaleToZeroConfigMap ::
  "(string \<Rightarrow> scale_to_zero_entry option) \<Rightarrow> (string, string) gomap \<Rightarrow> scale_to_zero_data" where
  "ParseScaleToZeroConfigMap yaml_decode data =
     parse_stz yaml_decode data (go_sort (<) (mkeys data)) [] []"

section \<open>Which entry a model gets\<close>

definition defines_model ::
  "(string \<Rightarrow> scale_to_zero_entry option) \<Rightarrow> (string, string) gomap \<Rightarrow> string \<Rightarrow> string \<Rightarrow> bool" where
  "defines_model y data m k \<longleftrightarrow> k \<noteq> GlobalDefaultsKey \<and>
     (case y (mget [] data k) of Some c \<Rightarrow> sz_ModelID c = m | None \<Rightarrow> False)"

lemma parse_stz_lookup:
  assumes "m \<noteq> []" and "m \<noteq> GlobalDefaultsKey"
  shows "map_of (parse_stz y data keys seen out) m =
    (if m \<in> set seen then map_of out m
     else case find (defines_model y data m) keys of
       None \<Rightarrow> map_of out m | Some k \<Rightarrow> y (mget [] data k))"
proof (induction keys arbitrary: seen out)
  case (Cons k keys)
  have D: "defines_model y data m k \<longleftrightarrow> k \<noteq> GlobalDefaultsKey \<and>
      (case y (mget [] data k) of Some c \<Rightarrow> sz_ModelID c = m | None \<Rightarrow> False)"
    by (rule defines_model_def)
  show ?case
  proof (cases "y (mget [] data k)")
    case None
    then show ?thesis using Cons.IH [of seen out] D by simp
  next
    case (Some c)
    consider "k = GlobalDefaultsKey" | "k \<noteq> GlobalDefaultsKey" "sz_ModelID c = []"
      | "k \<noteq> GlobalDefaultsKey" "sz_ModelID c \<noteq> []" "sz_ModelID c \<in> set seen"
      | "k \<noteq> GlobalDefaultsKey" "sz_ModelID c \<noteq> []" "sz_ModelID c \<notin> set seen"
      by blast
    then show ?thesis
      by cases (use Cons.IH Some assms D in \<open>auto simp: update_conv split: option.split\<close>)
  qed
qed simp

lemma find_sorted_least:
  "sorted xs \<Longrightarrow> find P xs = Some x \<Longrightarrow> P x \<and> x \<in> set xs \<and> (\<forall>y\<in>set xs. P y \<longrightarrow> x \<le> y)"
  for x :: "'a :: linorder"
  by (induction xs) (auto split: if_splits)

lemma string_less_strict_weak: "strict_weak ((<) :: string \<Rightarrow> string \<Rightarrow> bool)"
  unfolding strict_weak_def by auto

lemma sorted_go_sort_strings: "sorted (go_sort (<) (xs :: string list))"
  using sorted_go_sort [OF string_less_strict_weak, of xs] by (simp add: not_less)

section \<open>Properties\<close>

definition ex_stz :: "string \<Rightarrow> scale_to_zero_entry option" where
  "ex_stz t = map_of [(''on'', \<lparr>sz_ModelID = ''m'', sz_Namespace = [], sz_EnableScaleToZero = Some True,
       sz_RetentionPeriod = ''1h30m''\<rparr>),
     (''off'', \<lparr>sz_ModelID = ''m'', sz_Namespace = [], sz_EnableScaleToZero = Some False,
       sz_RetentionPeriod = ''-5m''\<rparr>)] t"

definition ex_stz_map :: "(string, string) gomap" where
  "ex_stz_map = [(''zz'', ''off''), (''default'', ''off''), (''aa'', ''on''), (''bad'', ''?'')]"

text \<open>The retention period is positive for every model and every configuration: an empty,
  malformed, zero or negative period is never used.\<close>

theorem retention_period_positive: "0 < ScaleToZeroRetentionPeriod configData modelID"
proof -
  have "ValidateRetentionPeriod s = Inr d \<Longrightarrow> 0 < d" for s d
    by (auto simp: ValidateRetentionPeriod_def split: if_splits option.splits)
  then show ?thesis
    by (simp add: ScaleToZeroRetentionPeriod_def DefaultScaleToZeroRetentionPeriod_def time_Minute_def
        time_Second_def Let_def split: option.split sum.split)
qed

text \<open>Parsing is deterministic although the map is not ordered: the entry a model gets is that of
  the least of the keys that define it, whatever the order in which the map lists them, and a model
  no key defines gets none.\<close>

theorem first_key_wins:
  assumes "m \<noteq> []" and "m \<noteq> GlobalDefaultsKey"
  shows "map_of (ParseScaleToZeroConfigMap y data) m = Some c \<longleftrightarrow>
    (\<exists>k\<in>set (mkeys data). defines_model y data m k \<and> y (mget [] data k) = Some c \<and>
       (\<forall>k'\<in>set (mkeys data). defines_model y data m k' \<longrightarrow> k \<le> k'))"
proof -
  let ?ks = "go_sort (<) (mkeys data)" and ?P = "defines_model y data m"
  have look: "map_of (ParseScaleToZeroConfigMap y data) m =
      (case find ?P ?ks of None \<Rightarrow> None | Some k \<Rightarrow> y (mget [] data k))"
    unfolding ParseScaleToZeroConfigMap_def using parse_stz_lookup [OF assms] by (simp split: option.split)
  show ?thesis
  proof (cases "find ?P ?ks")
    case None
    then have "\<not> (\<exists>k\<in>set (mkeys data). ?P k)" by (simp add: find_None_iff)
    then show ?thesis unfolding look None by auto
  next
    case (Some k)
    note least = find_sorted_least [OF sorted_go_sort_strings Some]
    then have "k' = k" if "k' \<in> set (mkeys data)" "?P k'" "\<forall>j\<in>set (mkeys data). ?P j \<longrightarrow> k' \<le> j" for k'
      using least that by (intro antisym) auto
    moreover have "map_of (ParseScaleToZeroConfigMap y data) m = y (mget [] data k)" using look Some by simp
    moreover have "k \<in> set (mkeys data)" using least by simp
    ultimately show ?thesis using least by (metis set_go_sort)
  qed
qed

theorem first_key_wins_witness:
  "map_of (ParseScaleToZeroConfigMap ex_stz ex_stz_map) ''m'' =
     Some \<lparr>sz_ModelID = ''m'', sz_Namespace = [], sz_EnableScaleToZero = Some True,
       sz_RetentionPeriod = ''1h30m''\<rparr>"
proof -
  have "''aa'' \<le> ''zz''" by code_simp
  then show ?thesis
    using first_key_wins [of "''m''" ex_stz ex_stz_map]
    by (simp add: GlobalDefaultsKey_def ex_stz_map_def defines_model_def ex_stz_def)
qed

end
