(* ===== verification/Itl_Model.thy ===== *)
theory Itl_Model
  imports Scale_To_Zero
begin

text \<open>
  The calibration layer of the throughput analyzer (\<open>throughput/itl_model.go\<close>,
  \<open>observation_window.go\<close>, \<open>shape_tracker.go\<close> and the shape part of \<open>types.go\<close>): the
  workload shape of a variant, the rolling window of observations, and the line fitted to it.  Times
  are nanoseconds.  Over the reals there is no NaN, so the guards against it are vacuous.
\<close>

section \<open>Constants\<close>

definition DefaultShapeChangeTolerance :: gofloat where "DefaultShapeChangeTolerance = 2 / 10"
definition DefaultWindowMaxSize :: nat where "DefaultWindowMaxSize = 20"
definition DefaultObservationMaxAge :: int where "DefaultObservationMaxAge = 30 * time_Minute"
definition DefaultMinSamples :: nat where "DefaultMinSamples = 10"
definition DefaultMinKSpread :: gofloat where "DefaultMinKSpread = 3 / 10"
definition DefaultMinObservableK :: gofloat where "DefaultMinObservableK = 15 / 100"
definition DefaultMaxObservableK :: gofloat where "DefaultMaxObservableK = 85 / 100"
definition DefaultKSat :: gofloat where "DefaultKSat = 85 / 100"
definition itlSlopeEpsilon :: gofloat where "itlSlopeEpsilon = 1 / 10 ^ 12"

section \<open>The shape of the workload\<close>

record workload_shape =
  ws_AvgInputTokens :: gofloat
  ws_AvgOutputTokens :: gofloat
  ws_PrefixHitRate :: gofloat
  ws_ILeff :: gofloat
  ws_KVreq :: gofloat

definition zero_shape :: workload_shape where
  "zero_shape = \<lparr>ws_AvgInputTokens = 0, ws_AvgOutputTokens = 0, ws_PrefixHitRate = 0, ws_ILeff = 0, ws_KVreq = 0\<rparr>"

definition newWorkloadShape :: "gofloat \<Rightarrow> gofloat \<Rightarrow> gofloat \<Rightarrow> workload_shape" where
  "newWorkloadShape il ol hitRate0 =
     (let hitRate1 = (if hitRate0 < 0 then 0 else hitRate0);
          hitRate = (if hitRate1 > 1 then 1 else hitRate1);
          ileff = il * (1 - hitRate)
      in \<lparr>ws_AvgInputTokens = il, ws_AvgOutputTokens = ol, ws_PrefixHitRate = hitRate, ws_ILeff = ileff,
          ws_KVreq = ileff + ol / 2\<rparr>)"

definition shape_IsZero :: "workload_shape \<Rightarrow> bool" where
  "shape_IsZero s \<longleftrightarrow> ws_AvgInputTokens s = 0 \<and> ws_AvgOutputTokens s = 0"

definition withinTolerance :: "gofloat \<Rightarrow> gofloat \<Rightarrow> gofloat \<Rightarrow> bool" where
  "withinTolerance a b tolerance \<longleftrightarrow> (if b = 0 then a = 0 else \<bar>a - b\<bar> / b \<le> tolerance)"

definition Within :: "workload_shape \<Rightarrow> workload_shape \<Rightarrow> gofloat \<Rightarrow> bool" where
  "Within s other tolerance \<longleftrightarrow>
     withinTolerance (ws_AvgInputTokens s) (ws_AvgInputTokens other) tolerance \<and>
     withinTolerance (ws_AvgOutputTokens s) (ws_AvgOutputTokens other) tolerance"

record shape_tracker =
  sh_current :: workload_shape
  sh_hasShape :: bool
  sh_tolerance :: gofloat

definition newShapeTracker :: "gofloat \<Rightarrow> shape_tracker" where
  "newShapeTracker tolerance = \<lparr>sh_current = zero_shape, sh_hasShape = False, sh_tolerance = tolerance\<rparr>"

definition sh_Observe :: "gofloat \<Rightarrow> gofloat \<Rightarrow> gofloat \<Rightarrow> shape_tracker \<Rightarrow> (workload_shape \<times> bool) \<times> shape_tracker" where
  "sh_Observe il ol hitRate t =
     (let next = newWorkloadShape il ol hitRate in
      if \<not> sh_hasShape t then ((next, False), t\<lparr>sh_current := next, sh_hasShape := True\<rparr>)
      else ((next, \<not> Within next (sh_current t) (sh_tolerance t)), t\<lparr>sh_current := next\<rparr>))"

definition sh_Current :: "shape_tracker \<Rightarrow> workload_shape \<times> bool" where
  "sh_Current t = (sh_current t, sh_hasShape t)"

definition sh_Reset :: "shape_tracker \<Rightarrow> shape_tracker" where
  "sh_Reset t = t\<lparr>sh_current := zero_shape, sh_hasShape := False\<rparr>"

section \<open>The observation window\<close>

record itl_observation =
  io_K :: gofloat
  io_ITLSec :: gofloat
  io_Timestamp :: int

record observation_window =
  ow_observations :: "itl_observation list"
  ow_maxSize :: nat
  ow_maxAge :: int
  ow_minSamples :: nat
  ow_minKSpread :: gofloat
  ow_minK :: gofloat
  ow_maxK :: gofloat

definition newObservationWindow :: "nat \<Rightarrow> int \<Rightarrow> nat \<Rightarrow> gofloat \<Rightarrow> gofloat \<Rightarrow> gofloat \<Rightarrow> observation_window" where
  "newObservationWindow maxSize maxAge minSamples minKSpread minK maxK =
     \<lparr>ow_observations = [], ow_maxSize = maxSize, ow_maxAge = maxAge, ow_minSamples = minSamples,
      ow_minKSpread = minKSpread, ow_minK = minK, ow_maxK = maxK\<rparr>"

text \<open>The flag tells that the observation was dropped.\<close>

definition ow_Add :: "gofloat \<Rightarrow> gofloat \<Rightarrow> int \<Rightarrow> observation_window \<Rightarrow> bool \<times> observation_window" where
  "ow_Add k itl ts w =
     (if k < ow_minK w \<or> k > ow_maxK w then (True, w)
      else if itl \<le> 0 then (True, w)
      else let obs = (if ow_maxSize w \<le> length (ow_observations w) then tl (ow_observations w) else ow_observations w)
           in (False, w\<lparr>ow_observations := obs @ [\<lparr>io_K = k, io_ITLSec = itl, io_Timestamp = ts\<rparr>]\<rparr>))"

definition ow_Prune :: "int \<Rightarrow> observation_window \<Rightarrow> observation_window" where
  "ow_Prune now w = w\<lparr>ow_observations := dropWhile (\<lambda>x. io_Timestamp x < now - ow_maxAge w) (ow_observations w)\<rparr>"

fun k_range :: "gofloat \<Rightarrow> gofloat \<Rightarrow> itl_observation list \<Rightarrow> gofloat \<times> gofloat" where
  "k_range lo hi [] = (lo, hi)"
| "k_range lo hi (x # xs) =
     k_range (if io_K x < lo then io_K x else lo) (if io_K x > hi then io_K x else hi) xs"

definition ow_KSpread :: "observation_window \<Rightarrow> gofloat" where
  "ow_KSpread w = (case ow_observations w of
     [] \<Rightarrow> 0
   | x # xs \<Rightarrow> (let (minK, maxK) = k_range (io_K x) (io_K x) xs in maxK - minK))"

definition ow_Ready :: "observation_window \<Rightarrow> bool" where
  "ow_Ready w \<longleftrightarrow> ow_minSamples w \<le> length (ow_observations w) \<and> ow_minKSpread w \<le> ow_KSpread w"

definition ow_Clear :: "observation_window \<Rightarrow> observation_window" where
  "ow_Clear w = w\<lparr>ow_observations := []\<rparr>"

section \<open>The latency line\<close>

record itl_model =
  im_A :: gofloat
  im_B :: gofloat

definition zero_model :: itl_model where "zero_model = \<lparr>im_A = 0, im_B = 0\<rparr>"

definition model_IsZero :: "itl_model \<Rightarrow> bool" where
  "model_IsZero m \<longleftrightarrow> im_A m = 0 \<and> im_B m = 0"

definition ITLAt :: "itl_model \<Rightarrow> gofloat \<Rightarrow> gofloat" where
  "ITLAt m k = im_A m * k + im_B m"

definition validITLModel :: "gofloat \<Rightarrow> gofloat \<Rightarrow> bool" where
  "validITLModel a b \<longleftrightarrow> \<not> a \<le> itlSlopeEpsilon \<and> \<not> a * DefaultKSat + b \<le> 0"

definition ols_denom :: "itl_observation list \<Rightarrow> gofloat" where
  "ols_denom obs = real (length obs) * (\<Sum>x\<leftarrow>obs. io_K x * io_K x) - (\<Sum>x\<leftarrow>obs. io_K x) * (\<Sum>x\<leftarrow>obs. io_K x)"

definition FitITLModel :: "itl_observation list \<Rightarrow> itl_model option" where
  "FitITLModel obs =
     (let n = real (length obs) in
      if n < 2 then None
      else let sumK = (\<Sum>x\<leftarrow>obs. io_K x); sumITL = (\<Sum>x\<leftarrow>obs. io_ITLSec x);
               sumKITL = (\<Sum>x\<leftarrow>obs. io_K x * io_ITLSec x); denom = ols_denom obs
           in if \<bar>denom\<bar> < 1 / 10 ^ 12 then None
              else let A = (n * sumKITL - sumK * sumITL) / denom; B = (sumITL - A * sumK) / n
                   in if \<not> validITLModel A B then None else Some \<lparr>im_A = A, im_B = B\<rparr>)"

section \<open>The fit is the best line\<close>

text \<open>The squared error of a line over the observations.\<close>

definition squared_error :: "itl_observation list \<Rightarrow> itl_model \<Rightarrow> gofloat" where
  "squared_error obs m = (\<Sum>x\<leftarrow>obs. (io_ITLSec x - ITLAt m (io_K x)) ^ 2)"

lemma sum_list_residual:
  fixes r :: "'a \<Rightarrow> real"
  shows "(\<Sum>x\<leftarrow>xs. (r x + (d * k x + e)) ^ 2) =
    (\<Sum>x\<leftarrow>xs. (r x) ^ 2) + 2 * d * (\<Sum>x\<leftarrow>xs. r x * k x) + 2 * e * (\<Sum>x\<leftarrow>xs. r x) + (\<Sum>x\<leftarrow>xs. (d * k x + e) ^ 2)"
  by (induction xs) (simp_all add: power2_eq_square algebra_simps)

text \<open>A line whose residuals cancel, also weighted by the abscissa, has the least squared error; the
  first condition is only needed where the intercept is free.\<close>

lemma normal_equations_minimal:
  assumes "(\<Sum>x\<leftarrow>obs. (io_ITLSec x - ITLAt m (io_K x)) * io_K x) = 0"
    and "(\<Sum>x\<leftarrow>obs. io_ITLSec x - ITLAt m (io_K x)) = 0 \<or> im_B m' = im_B m"
  shows "squared_error obs m \<le> squared_error obs m'"
proof -
  let ?d = "im_A m - im_A m'" and ?e = "im_B m - im_B m'"
  have "squared_error obs m' = (\<Sum>x\<leftarrow>obs. ((io_ITLSec x - ITLAt m (io_K x)) + (?d * io_K x + ?e)) ^ 2)"
    by (simp add: squared_error_def ITLAt_def algebra_simps)
  also have "\<dots> = squared_error obs m + 2 * ?e * (\<Sum>x\<leftarrow>obs. io_ITLSec x - ITLAt m (io_K x)) + (\<Sum>x\<leftarrow>obs. (?d * io_K x + ?e) ^ 2)"
    unfolding sum_list_residual assms(1) by (simp add: squared_error_def)
  finally have "squared_error obs m' = squared_error obs m + (\<Sum>x\<leftarrow>obs. (?d * io_K x + ?e) ^ 2)" using assms(2) by auto
  moreover have "0 \<le> (\<Sum>x\<leftarrow>obs. (?d * io_K x + ?e) ^ 2)" by (rule sum_list_nonneg) auto
  ultimately show ?thesis by linarith
qed

lemma residual_sums:
  "(\<Sum>x\<leftarrow>obs. io_ITLSec x - ITLAt m (io_K x)) =
     (\<Sum>x\<leftarrow>obs. io_ITLSec x) - im_A m * (\<Sum>x\<leftarrow>obs. io_K x) - im_B m * real (length obs)"
  "(\<Sum>x\<leftarrow>obs. (io_ITLSec x - ITLAt m (io_K x)) * io_K x) =
     (\<Sum>x\<leftarrow>obs. io_K x * io_ITLSec x) - im_A m * (\<Sum>x\<leftarrow>obs. io_K x * io_K x) - im_B m * (\<Sum>x\<leftarrow>obs. io_K x)"
  by (induction obs) (simp_all add: ITLAt_def algebra_simps)

lemma FitITLModel_Some:
  assumes "FitITLModel obs = Some m"
  shows "2 \<le> length obs" and "1 / 10 ^ 12 \<le> \<bar>ols_denom obs\<bar>" and "validITLModel (im_A m) (im_B m)"
    and "im_A m = (real (length obs) * (\<Sum>x\<leftarrow>obs. io_K x * io_ITLSec x) - (\<Sum>x\<leftarrow>obs. io_K x) * (\<Sum>x\<leftarrow>obs. io_ITLSec x)) / ols_denom obs"
    and "im_B m = ((\<Sum>x\<leftarrow>obs. io_ITLSec x) - im_A m * (\<Sum>x\<leftarrow>obs. io_K x)) / real (length obs)"
  using assms by (auto simp: FitITLModel_def Let_def split: if_splits)

lemma slope_equation:
  fixes n s t q p D a :: real
  assumes "n \<noteq> 0" and "D \<noteq> 0" and "D = n * q - s * s" and "a = (n * p - s * t) / D"
  shows "p - a * q - ((t - a * s) / n) * s = 0"
proof -
  have "n * (p - a * q - ((t - a * s) / n) * s) = (n * p - s * t) - a * D"
    unfolding assms(3) using assms(1) by (simp add: field_simps)
  also have "\<dots> = 0" using assms(2,4) by simp
  finally show ?thesis using assms(1) by simp
qed

lemma fit_normal_equations:
  assumes "FitITLModel obs = Some m"
  shows "(\<Sum>x\<leftarrow>obs. io_ITLSec x - ITLAt m (io_K x)) = 0" and "(\<Sum>x\<leftarrow>obs. (io_ITLSec x - ITLAt m (io_K x)) * io_K x) = 0"
proof -
  note f = FitITLModel_Some [OF assms]
  have n: "real (length obs) \<noteq> 0" and d: "ols_denom obs \<noteq> 0" using f(1,2) by auto
  show "(\<Sum>x\<leftarrow>obs. io_ITLSec x - ITLAt m (io_K x)) = 0" using n by (simp add: residual_sums f(5))
  show "(\<Sum>x\<leftarrow>obs. (io_ITLSec x - ITLAt m (io_K x)) * io_K x) = 0"
    unfolding residual_sums(2) f(5) by (rule slope_equation [OF n d ols_denom_def f(4)])
qed

lemma valid_model_positive:
  assumes "validITLModel (im_A m) (im_B m)"
  shows "0 < im_A m \<and> (\<forall>k\<ge>DefaultKSat. 0 < ITLAt m k)"
proof -
  have valid: "itlSlopeEpsilon < im_A m" "0 < im_A m * DefaultKSat + im_B m" using assms by (auto simp: validITLModel_def)
  have "0 < itlSlopeEpsilon" by (simp add: itlSlopeEpsilon_def)
  with valid(1) have pos: "0 < im_A m" by (rule less_trans [rotated])
  have "0 < ITLAt m k" if "DefaultKSat \<le> k" for k
  proof -
    have "im_A m * DefaultKSat \<le> im_A m * k" using pos that by simp
    then show ?thesis using valid(2) by (simp add: ITLAt_def)
  qed
  then show ?thesis using pos by blast
qed

section \<open>A window that is ready determines the line\<close>

lemma k_range_spread: "k_range lo hi xs = (a, b) \<Longrightarrow>
    a \<in> insert lo (io_K ` set xs) \<and> b \<in> insert hi (io_K ` set xs) \<and> a \<le> lo \<and> hi \<le> b"
  by (induction xs arbitrary: lo hi) (fastforce split: if_splits)+

lemma spread_attained:
  assumes "ow_observations w \<noteq> []"
  obtains x y where "x \<in> set (ow_observations w)" "y \<in> set (ow_observations w)" "ow_KSpread w = io_K y - io_K x" "io_K x \<le> io_K y"
proof -
  obtain z zs where z: "ow_observations w = z # zs" using assms by (cases "ow_observations w") auto
  obtain a b where r: "k_range (io_K z) (io_K z) zs = (a, b)" by (cases "k_range (io_K z) (io_K z) zs")
  from k_range_spread [OF r] obtain x y where "x \<in> set (z # zs)" "y \<in> set (z # zs)" "io_K x = a" "io_K y = b" "a \<le> b" by auto
  then show thesis using that [of x y] z r by (simp add: ow_KSpread_def)
qed

lemma two_terms_le:
  fixes f :: "'a \<Rightarrow> real"
  assumes "x \<in> set xs" and "y \<in> set xs" and "x \<noteq> y" and "\<And>z. 0 \<le> f z"
  shows "f x + f y \<le> (\<Sum>z\<leftarrow>xs. f z)"
proof -
  have one: "f z \<le> (\<Sum>z\<leftarrow>zs. f z)" if "z \<in> set zs" for z zs
    using that assms(4) member_le_sum_list [of "f z" "map f zs"] by (auto simp: member_le_sum_list)
  show ?thesis using assms(1-3)
  proof (induction xs)
    case (Cons z zs)
    have "0 \<le> f z" by (rule assms(4))
    then show ?case using Cons one [of x zs] one [of y zs] by auto
  qed simp
qed

lemma ols_denom_variance:
  assumes "obs \<noteq> []"
  defines "c \<equiv> (\<Sum>x\<leftarrow>obs. io_K x) / real (length obs)"
  shows "ols_denom obs = real (length obs) * (\<Sum>x\<leftarrow>obs. (io_K x - c) ^ 2)"
proof -
  have "(\<Sum>x\<leftarrow>xs. (io_K x - d) ^ 2) = (\<Sum>x\<leftarrow>xs. io_K x * io_K x) - 2 * d * (\<Sum>x\<leftarrow>xs. io_K x) + real (length xs) * (d * d)" for xs d
    by (induction xs) (simp_all add: power2_eq_square algebra_simps)
  from this [of c obs] show ?thesis using assms(1)
    by (simp add: ols_denom_def right_diff_distrib distrib_left) (simp add: c_def field_simps)
qed

text \<open>The spread asked of a window keeps the fit far from its degenerate case.\<close>

lemma ready_denom:
  assumes "ow_Ready w" and "2 \<le> ow_minSamples w" and "3 / 10 \<le> ow_minKSpread w"
  shows "2 \<le> length (ow_observations w)" and "9 / 100 \<le> ols_denom (ow_observations w)"
proof -
  let ?obs = "ow_observations w"
  define c where "c = (\<Sum>x\<leftarrow>?obs. io_K x) / real (length ?obs)"
  show n: "2 \<le> length ?obs" using assms by (simp add: ow_Ready_def)
  then have ne: "?obs \<noteq> []" by auto
  then obtain x y where xy: "x \<in> set ?obs" "y \<in> set ?obs" "ow_KSpread w = io_K y - io_K x" by (rule spread_attained)
  have s: "3 / 10 \<le> io_K y - io_K x" using assms xy(3) by (simp add: ow_Ready_def)
  have "(3 / 10) ^ 2 \<le> (io_K y - io_K x) ^ 2" using s by (intro power_mono) auto
  also have "\<dots> \<le> 2 * ((io_K x - c) ^ 2 + (io_K y - c) ^ 2)"
    using zero_le_power2 [of "io_K x - c + (io_K y - c)"] by (simp add: power2_eq_square algebra_simps)
  also have "(io_K x - c) ^ 2 + (io_K y - c) ^ 2 \<le> (\<Sum>z\<leftarrow>?obs. (io_K z - c) ^ 2)"
    using s xy by (intro two_terms_le) auto
  finally have v: "9 / 100 \<le> 2 * (\<Sum>z\<leftarrow>?obs. (io_K z - c) ^ 2)" by (simp add: power2_eq_square)
  also have "\<dots> \<le> real (length ?obs) * (\<Sum>z\<leftarrow>?obs. (io_K z - c) ^ 2)"
    using n by (intro mult_right_mono sum_list_nonneg) auto
  finally show "9 / 100 \<le> ols_denom ?obs" unfolding c_def ols_denom_variance [OF ne, symmetric] .
qed

lemma line_sums:
  "(\<Sum>x\<leftarrow>obs. ITLAt m (io_K x)) = im_A m * (\<Sum>x\<leftarrow>obs. io_K x) + im_B m * real (length obs)"
  "(\<Sum>x\<leftarrow>obs. io_K x * ITLAt m (io_K x)) = im_A m * (\<Sum>x\<leftarrow>obs. io_K x * io_K x) + im_B m * (\<Sum>x\<leftarrow>obs. io_K x)"
  by (induction obs) (simp_all add: ITLAt_def algebra_simps)

text \<open>C20. Calibration recovers the hardware: a window that is ready and whose observations lie on a usable
  latency line yields exactly the coefficients of that line.\<close>

theorem ready_window_recovers_line:
  assumes "ow_Ready w" and "2 \<le> ow_minSamples w" and "3 / 10 \<le> ow_minKSpread w"
    and "\<forall>x\<in>set (ow_observations w). io_ITLSec x = ITLAt m (io_K x)" and "validITLModel (im_A m) (im_B m)"
  shows "FitITLModel (ow_observations w) = Some m"
proof -
  let ?obs = "ow_observations w" and ?s = "\<Sum>x\<leftarrow>ow_observations w. io_K x" and ?q = "\<Sum>x\<leftarrow>ow_observations w. io_K x * io_K x"
  have n: "2 \<le> length ?obs" and d: "9 / 100 \<le> ols_denom ?obs" using ready_denom [OF assms(1-3)] by auto
  have itl: "map io_ITLSec ?obs = map (\<lambda>x. ITLAt m (io_K x)) ?obs"
    and kitl: "map (\<lambda>x. io_K x * io_ITLSec x) ?obs = map (\<lambda>x. io_K x * ITLAt m (io_K x)) ?obs"
    using assms(4) by (auto intro: map_cong)
  have t: "(\<Sum>x\<leftarrow>?obs. io_ITLSec x) = im_A m * ?s + im_B m * real (length ?obs)"
    and p: "(\<Sum>x\<leftarrow>?obs. io_K x * io_ITLSec x) = im_A m * ?q + im_B m * ?s"
    unfolding itl kitl by (rule line_sums)+
  have "real (length ?obs) * (im_A m * ?q + im_B m * ?s) - ?s * (im_A m * ?s + im_B m * real (length ?obs)) = im_A m * ols_denom ?obs"
    by (simp add: ols_denom_def algebra_simps)
  then have A: "(real (length ?obs) * (\<Sum>x\<leftarrow>?obs. io_K x * io_ITLSec x) - ?s * (\<Sum>x\<leftarrow>?obs. io_ITLSec x)) / ols_denom ?obs = im_A m"
    unfolding t p using d by simp
  have B: "((\<Sum>x\<leftarrow>?obs. io_ITLSec x) - im_A m * ?s) / real (length ?obs) = im_B m" unfolding t using n by auto
  have "\<not> real (length ?obs) < 2" "\<not> \<bar>ols_denom ?obs\<bar> < 1 / 10 ^ 12" using n d by simp_all
  then show ?thesis unfolding FitITLModel_def Let_def A B using assms(5) by simp
qed

text \<open>Ten replicas of the load 0.2 and ten of the load 0.6 on the line with slope 0.02 and baseline 0.006.\<close>

definition example_model :: itl_model where "example_model = \<lparr>im_A = 2 / 100, im_B = 6 / 1000\<rparr>"

definition example_point :: "gofloat \<Rightarrow> itl_observation" where
  "example_point k = \<lparr>io_K = k, io_ITLSec = ITLAt example_model k, io_Timestamp = 0\<rparr>"

definition example_window :: observation_window where
  "example_window = (newObservationWindow 20 (30 * time_Minute) 10 (3/10) (15/100) (85/100))
     \<lparr>ow_observations := replicate 5 (example_point (2/10)) @ replicate 5 (example_point (6/10))\<rparr>"

lemma example_ready: "ow_Ready example_window"
  by (simp add: ow_Ready_def ow_KSpread_def example_window_def newObservationWindow_def numeral_eq_Suc example_point_def)

lemma example_valid: "validITLModel (im_A example_model) (im_B example_model)"
  by (simp add: validITLModel_def example_model_def itlSlopeEpsilon_def DefaultKSat_def)

lemma ready_window_recovers_line_witness: "FitITLModel (ow_observations example_window) = Some example_model"
  by (rule ready_window_recovers_line [OF example_ready _ _ _ example_valid])
    (auto simp: example_window_def newObservationWindow_def example_point_def)

section \<open>Every run of a window keeps its contract\<close>

text \<open>The runs of a window: it is created empty, and at non-decreasing times observations are added, old ones
  are pruned, or the window is cleared.\<close>

inductive window_run :: "observation_window \<Rightarrow> int \<Rightarrow> observation_window \<Rightarrow> bool" for w0 where
  start: "ow_observations w0 = [] \<Longrightarrow> window_run w0 t w0"
| add: "window_run w0 t w \<Longrightarrow> t \<le> now \<Longrightarrow> window_run w0 now (snd (ow_Add k itl now w))"
| prune: "window_run w0 t w \<Longrightarrow> t \<le> now \<Longrightarrow> window_run w0 now (ow_Prune now w)"
| clear: "window_run w0 t w \<Longrightarrow> window_run w0 t (ow_Clear w)"

definition observation_ok :: "observation_window \<Rightarrow> int \<Rightarrow> itl_observation \<Rightarrow> bool" where
  "observation_ok w0 now x \<longleftrightarrow> ow_minK w0 \<le> io_K x \<and> io_K x \<le> ow_maxK w0 \<and> 0 < io_ITLSec x \<and> io_Timestamp x \<le> now"

definition obs_window_ok :: "observation_window \<Rightarrow> int \<Rightarrow> observation_window \<Rightarrow> bool" where
  "obs_window_ok w0 now w \<longleftrightarrow> w\<lparr>ow_observations := []\<rparr> = w0\<lparr>ow_observations := []\<rparr> \<and>
     length (ow_observations w) \<le> max 1 (ow_maxSize w0) \<and>
     (\<forall>x\<in>set (ow_observations w). observation_ok w0 now x) \<and> sorted (map io_Timestamp (ow_observations w))"

lemma obs_window_ok_settings:
  assumes "obs_window_ok w0 now w"
  shows "ow_maxSize w = ow_maxSize w0" "ow_maxAge w = ow_maxAge w0" "ow_minK w = ow_minK w0" "ow_maxK w = ow_maxK w0"
    "ow_minSamples w = ow_minSamples w0" "ow_minKSpread w = ow_minKSpread w0"
proof -
  have "w\<lparr>ow_observations := []\<rparr> = w0\<lparr>ow_observations := []\<rparr>" using assms by (simp add: obs_window_ok_def)
  then show "ow_maxSize w = ow_maxSize w0" "ow_maxAge w = ow_maxAge w0" "ow_minK w = ow_minK w0" "ow_maxK w = ow_maxK w0"
    "ow_minSamples w = ow_minSamples w0" "ow_minKSpread w = ow_minKSpread w0"
    by (cases w; cases w0; simp)+
qed

lemma sorted_map_tl: "sorted (map f xs) \<Longrightarrow> sorted (map f (tl xs))"
  by (cases xs) simp_all

lemma obs_window_ok_add:
  assumes "obs_window_ok w0 t w" and "t \<le> now"
  shows "obs_window_ok w0 now (snd (ow_Add k itl now w))"
proof -
  note s = obs_window_ok_settings [OF assms(1)]
  have old: "\<forall>x\<in>set (ow_observations w). observation_ok w0 now x" "\<forall>x\<in>set (tl (ow_observations w)). observation_ok w0 now x"
    using assms by (auto simp: obs_window_ok_def observation_ok_def dest: list.set_sel(2) [rotated])
      (metis list.sel(2) list.set_sel(2) order_trans)+
  then show ?thesis
    using assms by (auto simp: ow_Add_def Let_def obs_window_ok_def s sorted_append observation_ok_def sorted_map_tl)
qed

lemma obs_window_ok_prune:
  assumes "obs_window_ok w0 t w" and "t \<le> now"
  shows "obs_window_ok w0 now (ow_Prune now w)"
proof -
  have "sorted (map io_Timestamp (dropWhile P (ow_observations w)))" for P
    using assms(1) sorted_wrt_dropWhile [of "(\<lambda>x y. io_Timestamp x \<le> io_Timestamp y)" "ow_observations w" P]
    by (simp add: obs_window_ok_def sorted_wrt_map)
  moreover have "length (dropWhile P (ow_observations w)) \<le> max 1 (ow_maxSize w0)" for P
    using assms(1) length_dropWhile_le [of P "ow_observations w"] by (auto simp: obs_window_ok_def)
  ultimately show ?thesis using assms
    by (fastforce simp: ow_Prune_def obs_window_ok_def observation_ok_def dest: set_dropWhileD)
qed

lemma obs_window_ok_clear: "obs_window_ok w0 t w \<Longrightarrow> obs_window_ok w0 t (ow_Clear w)"
  by (simp add: ow_Clear_def obs_window_ok_def)

lemma obs_window_ok_start: "ow_observations w0 = [] \<Longrightarrow> obs_window_ok w0 t w0"
  by (simp add: obs_window_ok_def)

lemma window_run_ok: "window_run w0 now w \<Longrightarrow> obs_window_ok w0 now w"
  by (induction rule: window_run.induct)
    (simp_all add: obs_window_ok_start obs_window_ok_add obs_window_ok_prune obs_window_ok_clear)

lemma pruned_is_recent:
  assumes "sorted (map io_Timestamp xs)" and "x \<in> set (dropWhile (\<lambda>x. io_Timestamp x < c) xs)"
  shows "c \<le> io_Timestamp x"
  using assms by (induction xs) (auto split: if_splits)

text \<open>However a window is used, it holds at most its maximal number of observations, each with a load in
  the observable range, a positive latency and in the order they were made; and pruning leaves none
  older than the maximal age, although it only looks at the front.\<close>

theorem window_keeps_contract:
  assumes "window_run w0 t w" and "0 < ow_maxSize w0" and "t \<le> now"
  shows "length (ow_observations w) \<le> ow_maxSize w0 \<and>
    (\<forall>x\<in>set (ow_observations w). ow_minK w0 \<le> io_K x \<and> io_K x \<le> ow_maxK w0 \<and> 0 < io_ITLSec x \<and> io_Timestamp x \<le> t) \<and>
    sorted (map io_Timestamp (ow_observations w)) \<and>
    (\<forall>x\<in>set (ow_observations (ow_Prune now w)). now - io_Timestamp x \<le> ow_maxAge w0)"
proof -
  have ok: "obs_window_ok w0 t w" by (rule window_run_ok [OF assms(1)])
  have "now - ow_maxAge w \<le> io_Timestamp x" if "x \<in> set (ow_observations (ow_Prune now w))" for x
    by (rule pruned_is_recent [of "ow_observations w"]) (use ok that in \<open>auto simp: obs_window_ok_def ow_Prune_def\<close>)
  then show ?thesis using ok assms(2) obs_window_ok_settings [OF ok] by (fastforce simp: obs_window_ok_def observation_ok_def)
qed

lemma window_keeps_contract_witness:
  "length (ow_observations (snd (ow_Add (1/2) (1/100) 5 (newObservationWindow 20 9 10 (3/10) (15/100) (85/100))))) \<le> 20"
proof -
  let ?w = "newObservationWindow 20 9 10 (3/10) (15/100) (85/100)"
  have "window_run ?w 0 ?w" by (rule window_run.start) (simp add: newObservationWindow_def)
  then have "window_run ?w 5 (snd (ow_Add (1/2) (1/100) 5 ?w))" by (rule window_run.add) simp
  from window_keeps_contract [OF this, of 5] show ?thesis by (simp add: newObservationWindow_def)
qed

end
