(* ===== verification/Engine_Args.thy ===== *)
theory Engine_Args
  imports Scale_To_Zero
begin

text \<open>
  Reading the configuration of an inference engine off its pod template
  (\<open>deployment_parser.go\<close> and \<open>sglang_parser.go\<close> of the token-based analyzer,
  \<open>internal/inferenceengine/engine.go\<close>): which engine runs, and the parameters its
  command line gives it.  Integers are read as \<open>strconv\<close> reads them, with its syntax and
  its 64-bit range.  The one float flag is read by an argument, \<open>pf\<close>, that stands for
  \<open>strconv.ParseFloat\<close>; the value is only ever compared for equality.
\<close>

section \<open>Pod templates and engine parameters\<close>

record container =
  ct_Image :: string
  ct_Command :: "string list"
  ct_Args :: "string list"
  ct_Env :: "(string \<times> string) list"

text \<open>A scale target as its leader pod template, which may be absent.\<close>

type_synonym pod_template = "container list option"

definition EngineVLLM :: string where "EngineVLLM = ''vllm''"
definition EngineSGLang :: string where "EngineSGLang = ''sglang''"

record engine_params =
  ep_Engine :: string
  ep_GpuMemoryUtilization :: gofloat
  ep_BlockSize :: int
  ep_KvCacheDtype :: string
  ep_TensorParallelSize :: int
  ep_NumGpuBlocksOverride :: int
  ep_MaxNumBatchedTokens :: int
  ep_MaxNumSeqs :: int
  ep_MaxModelLen :: int
  ep_EnforceEager :: bool
  ep_IsV1Engine :: bool
  ep_ChunkedPrefillEnabled :: bool
  ep_TotalKvTokensOverride :: int
  ep_EffectiveMaxBatchedTokens :: int

definition defaultEngineParams :: engine_params where
  "defaultEngineParams = \<lparr>ep_Engine = EngineVLLM, ep_GpuMemoryUtilization = 9/10, ep_BlockSize = 16,
     ep_KvCacheDtype = ''auto'', ep_TensorParallelSize = 1, ep_NumGpuBlocksOverride = 0,
     ep_MaxNumBatchedTokens = 0, ep_MaxNumSeqs = 256, ep_MaxModelLen = 0, ep_EnforceEager = False,
     ep_IsV1Engine = True, ep_ChunkedPrefillEnabled = True, ep_TotalKvTokensOverride = 0,
     ep_EffectiveMaxBatchedTokens = 0\<rparr>"

definition defaultSGLangEngineParams :: engine_params where
  "defaultSGLangEngineParams = \<lparr>ep_Engine = EngineSGLang, ep_GpuMemoryUtilization = 9/10, ep_BlockSize = 1,
     ep_KvCacheDtype = ''auto'', ep_TensorParallelSize = 1, ep_NumGpuBlocksOverride = 0,
     ep_MaxNumBatchedTokens = 0, ep_MaxNumSeqs = 256, ep_MaxModelLen = 0, ep_EnforceEager = False,
     ep_IsV1Engine = True, ep_ChunkedPrefillEnabled = True, ep_TotalKvTokensOverride = 0,
     ep_EffectiveMaxBatchedTokens = 0\<rparr>"

section \<open>Splitting the command line\<close>

text \<open>\<open>strconv.ParseInt(s, 10, 64)\<close>, and \<open>strconv.Atoi\<close>, which accepts the same strings.\<close>

definition ParseInt :: "string \<Rightarrow> int option" where
  "ParseInt s =
     (let neg = (s \<noteq> [] \<and> hd s = CHR ''-'');
          t = (if s \<noteq> [] \<and> (hd s = CHR ''-'' \<or> hd s = CHR ''+'') then tl s else s)
      in if t = [] \<or> \<not> list_all is_digit t then None
      else if neg then (if digits_val t > 2 ^ 63 then None else Some (- digits_val t))
      else (if digits_val t \<ge> 2 ^ 63 then None else Some (digits_val t)))"

text \<open>The loop over the bytes of a shell string: the two quote flags, the token being read and the
  rest.\<close>

fun split_shell :: "bool \<Rightarrow> bool \<Rightarrow> string \<Rightarrow> string \<Rightarrow> string list" where
  "split_shell sq dq cur [] = (if cur = [] then [] else [cur])"
| "split_shell sq dq cur (ch # s) =
     (if ch = CHR 0x27 \<and> \<not> dq then split_shell (\<not> sq) dq cur s
      else if ch = CHR 0x22 \<and> \<not> sq then split_shell sq (\<not> dq) cur s
      else if ch = CHR '' '' \<and> \<not> sq \<and> \<not> dq then
        (if cur = [] then split_shell sq dq [] s else cur # split_shell sq dq [] s)
      else split_shell sq dq (cur @ [ch]) s)"

definition splitShellString :: "string \<Rightarrow> string list" where
  "splitShellString = split_shell False False []"

definition is_shell :: "string \<Rightarrow> bool" where
  "is_shell b \<longleftrightarrow> b = ''/bin/sh'' \<or> b = ''/bin/bash'' \<or> b = ''sh'' \<or> b = ''bash''"

fun shell_command :: "string list \<Rightarrow> string option" where
  "shell_command (b # c # cmd # rest) =
     (if is_shell b \<and> c = ''-c'' then Some cmd else shell_command (c # cmd # rest))"
| "shell_command _ = None"

definition collectArgs :: "string list \<Rightarrow> string list \<Rightarrow> string list" where
  "collectArgs command args = (case shell_command (command @ args) of
     Some cmd \<Rightarrow> splitShellString cmd | None \<Rightarrow> command @ args)"

definition normalizeKey :: "string \<Rightarrow> string" where
  "normalizeKey key = map (\<lambda>c. if c = CHR ''-'' then CHR ''_'' else c) (dropWhile ((=) CHR ''-'') key)"

definition is_flag :: "string \<Rightarrow> bool" where
  "is_flag arg \<longleftrightarrow> take 2 arg = ''--''"

fun parseArgsWith :: "(string \<Rightarrow> string \<Rightarrow> 'p \<Rightarrow> 'p) \<Rightarrow> string list \<Rightarrow> 'p \<Rightarrow> 'p" where
  "parseArgsWith apply_fn [] params = params"
| "parseArgsWith apply_fn (arg # rest) params =
     (if \<not> is_flag arg then parseArgsWith apply_fn rest params
      else if CHR ''='' \<in> set arg then
        parseArgsWith apply_fn rest
          (apply_fn (normalizeKey (takeWhile ((\<noteq>) CHR ''='') arg)) (tl (dropWhile ((\<noteq>) CHR ''='') arg)) params)
      else case rest of
        [] \<Rightarrow> apply_fn (normalizeKey arg) [] params
      | v # rest' \<Rightarrow>
          (if is_flag v then parseArgsWith apply_fn rest (apply_fn (normalizeKey arg) [] params)
           else parseArgsWith apply_fn rest' (apply_fn (normalizeKey arg) v params)))"

section \<open>The flags of vLLM and SGLang\<close>

text \<open>Write a value when it parses, keep the parameters otherwise.\<close>

definition set_parsed :: "'a option \<Rightarrow> ('a \<Rightarrow> 'p \<Rightarrow> 'p) \<Rightarrow> 'p \<Rightarrow> 'p" where
  "set_parsed v upd params = (case v of Some x \<Rightarrow> upd x params | None \<Rightarrow> params)"

definition applyParam :: "(string \<Rightarrow> gofloat option) \<Rightarrow> string \<Rightarrow> string \<Rightarrow> engine_params \<Rightarrow> engine_params" where
  "applyParam pf key value params =
     (if key = ''gpu_memory_utilization'' then set_parsed (pf value) (\<lambda>v p. p\<lparr>ep_GpuMemoryUtilization := v\<rparr>) params
      else if key = ''block_size'' then set_parsed (ParseInt value) (\<lambda>v p. p\<lparr>ep_BlockSize := v\<rparr>) params
      else if key = ''kv_cache_dtype'' then params\<lparr>ep_KvCacheDtype := value\<rparr>
      else if key = ''tensor_parallel_size'' then set_parsed (ParseInt value) (\<lambda>v p. p\<lparr>ep_TensorParallelSize := v\<rparr>) params
      else if key = ''num_gpu_blocks_override'' then set_parsed (ParseInt value) (\<lambda>v p. p\<lparr>ep_NumGpuBlocksOverride := v\<rparr>) params
      else if key = ''max_num_batched_tokens'' then set_parsed (ParseInt value) (\<lambda>v p. p\<lparr>ep_MaxNumBatchedTokens := v\<rparr>) params
      else if key = ''max_num_seqs'' then set_parsed (ParseInt value) (\<lambda>v p. p\<lparr>ep_MaxNumSeqs := v\<rparr>) params
      else if key = ''max_model_len'' then set_parsed (ParseInt value) (\<lambda>v p. p\<lparr>ep_MaxModelLen := v\<rparr>) params
      else if key = ''enforce_eager'' then params\<lparr>ep_EnforceEager := True\<rparr>
      else if key = ''enable_chunked_prefill'' then params\<lparr>ep_ChunkedPrefillEnabled := True\<rparr>
      else params)"

definition applySGLangParam :: "(string \<Rightarrow> gofloat option) \<Rightarrow> string \<Rightarrow> string \<Rightarrow> engine_params \<Rightarrow> engine_params" where
  "applySGLangParam pf key value params =
     (if key = ''mem_fraction_static'' then set_parsed (pf value) (\<lambda>v p. p\<lparr>ep_GpuMemoryUtilization := v\<rparr>) params
      else if key = ''page_size'' then set_parsed (ParseInt value) (\<lambda>v p. p\<lparr>ep_BlockSize := v\<rparr>) params
      else if key = ''kv_cache_dtype'' then params\<lparr>ep_KvCacheDtype := value\<rparr>
      else if key = ''tp_size'' \<or> key = ''tensor_parallel_size'' \<or> key = ''tp'' then
        set_parsed (ParseInt value) (\<lambda>v p. p\<lparr>ep_TensorParallelSize := v\<rparr>) params
      else if key = ''max_running_requests'' then set_parsed (ParseInt value) (\<lambda>v p. p\<lparr>ep_MaxNumSeqs := v\<rparr>) params
      else if key = ''max_total_tokens'' then set_parsed (ParseInt value) (\<lambda>v p. p\<lparr>ep_TotalKvTokensOverride := v\<rparr>) params
      else if key = ''context_length'' then set_parsed (ParseInt value) (\<lambda>v p. p\<lparr>ep_MaxModelLen := v\<rparr>) params
      else if key = ''max_prefill_tokens'' then set_parsed (ParseInt value) (\<lambda>v p. p\<lparr>ep_MaxNumBatchedTokens := v\<rparr>) params
      else if key = ''chunked_prefill_size'' then set_parsed (ParseInt value)
        (\<lambda>v p. if v > 0 then p\<lparr>ep_MaxNumBatchedTokens := v, ep_ChunkedPrefillEnabled := True\<rparr>
               else p\<lparr>ep_ChunkedPrefillEnabled := False\<rparr>) params
      else if key = ''disable_cuda_graph'' then params\<lparr>ep_EnforceEager := True\<rparr>
      else params)"

definition resolveEffectiveMaxBatchedTokens :: "engine_params \<Rightarrow> engine_params" where
  "resolveEffectiveMaxBatchedTokens params = params\<lparr>ep_EffectiveMaxBatchedTokens :=
     (if ep_MaxNumBatchedTokens params > 0 then ep_MaxNumBatchedTokens params
      else if ep_ChunkedPrefillEnabled params then (if ep_IsV1Engine params then 8192 else 2048)
      else if ep_MaxModelLen params > 2048 then ep_MaxModelLen params
      else 2048)\<rparr>"

definition env_param :: "string \<times> string \<Rightarrow> engine_params \<Rightarrow> engine_params" where
  "env_param e params = (if fst e = ''VLLM_USE_V1'' \<and> snd e = ''0''
     then params\<lparr>ep_IsV1Engine := False, ep_ChunkedPrefillEnabled := False\<rparr> else params)"

definition vllm_container :: "(string \<Rightarrow> gofloat option) \<Rightarrow> container \<Rightarrow> engine_params \<Rightarrow> engine_params" where
  "vllm_container pf c params =
     parseArgsWith (applyParam pf) (collectArgs (ct_Command c) (ct_Args c)) (fold env_param (ct_Env c) params)"

text \<open>A target without a template and a template without containers both keep the defaults.\<close>

definition ParseVLLMArgs :: "(string \<Rightarrow> gofloat option) \<Rightarrow> pod_template \<Rightarrow> engine_params" where
  "ParseVLLMArgs pf template = (case template of
     None \<Rightarrow> resolveEffectiveMaxBatchedTokens defaultEngineParams
   | Some [] \<Rightarrow> resolveEffectiveMaxBatchedTokens defaultEngineParams
   | Some cs \<Rightarrow>
       (let params = fold (vllm_container pf) cs defaultEngineParams in
        resolveEffectiveMaxBatchedTokens
          (if ep_IsV1Engine params then params\<lparr>ep_ChunkedPrefillEnabled := True\<rparr> else params)))"

definition ParseSGLangArgs :: "(string \<Rightarrow> gofloat option) \<Rightarrow> pod_template \<Rightarrow> engine_params" where
  "ParseSGLangArgs pf template = (case template of
     None \<Rightarrow> resolveEffectiveMaxBatchedTokens defaultSGLangEngineParams
   | Some cs \<Rightarrow> resolveEffectiveMaxBatchedTokens
       (fold (\<lambda>c. parseArgsWith (applySGLangParam pf) (collectArgs (ct_Command c) (ct_Args c))) cs
         defaultSGLangEngineParams))"

definition ParseEngineArgs :: "(string \<Rightarrow> gofloat option) \<Rightarrow> string \<Rightarrow> pod_template \<Rightarrow> engine_params" where
  "ParseEngineArgs pf engine template =
     (if engine = EngineSGLang then ParseSGLangArgs pf template else ParseVLLMArgs pf template)"

definition IsCapacityCompatible :: "engine_params option \<Rightarrow> engine_params option \<Rightarrow> bool" where
  "IsCapacityCompatible p other = (case (p, other) of
     (Some a, Some b) \<Rightarrow>
       ep_Engine a = ep_Engine b \<and> ep_GpuMemoryUtilization a = ep_GpuMemoryUtilization b \<and>
       ep_BlockSize a = ep_BlockSize b \<and> ep_KvCacheDtype a = ep_KvCacheDtype b \<and>
       ep_TensorParallelSize a = ep_TensorParallelSize b \<and>
       ep_NumGpuBlocksOverride a = ep_NumGpuBlocksOverride b \<and>
       ep_TotalKvTokensOverride a = ep_TotalKvTokensOverride b \<and>
       ep_EffectiveMaxBatchedTokens a = ep_EffectiveMaxBatchedTokens b
   | _ \<Rightarrow> False)"

section \<open>Which engine runs\<close>

fun contains :: "string \<Rightarrow> string \<Rightarrow> bool" where
  "contains [] sub \<longleftrightarrow> sub = []"
| "contains (c # s) sub \<longleftrightarrow> take (length sub) (c # s) = sub \<or> contains s sub"

fun join :: "string \<Rightarrow> string list \<Rightarrow> string" where
  "join sep [] = []"
| "join sep [x] = x"
| "join sep (x # y # xs) = x @ sep @ join sep (y # xs)"

definition isSGLangContainer :: "container \<Rightarrow> bool" where
  "isSGLangContainer c \<longleftrightarrow>
     contains (map to_lower (ct_Image c)) ''sglang'' \<or>
     (let cmd = map to_lower (join '' '' (ct_Command c @ ct_Args c)) in
      contains cmd ''sglang.launch_server'' \<or> contains cmd ''sglang serve'')"

definition Detect :: "pod_template \<Rightarrow> string" where
  "Detect template = (case template of
     None \<Rightarrow> EngineVLLM | Some cs \<Rightarrow> if list_ex isSGLangContainer cs then EngineSGLang else EngineVLLM)"

definition Present :: "(string, pod_template) gomap \<Rightarrow> string list" where
  "Present targets = (if targets = [] then [EngineVLLM]
     else filter (\<lambda>e. e \<in> set (map (Detect \<circ> snd) targets)) [EngineVLLM, EngineSGLang])"

lemmas engine_names = EngineVLLM_def EngineSGLang_def

section \<open>Printed parameters read back\<close>

lemma digit_char: "n < 10 \<Longrightarrow> of_char (char_of (48 + n :: nat)) = 48 + n"
  by (simp add: of_char_of)

lemma utoa_digits: "list_all is_digit (utoa n)"
proof (induction n rule: utoa.induct)
  case (1 n)
  have "is_digit (char_of (48 + m))" if "m < 10" for m :: nat using digit_char [OF that] that by (simp add: is_digit_def)
  with 1 show ?case by (subst utoa.simps) simp
qed

lemma utoa_not_Nil [simp]: "utoa n \<noteq> []"
  by (subst utoa.simps) simp

lemma digits_val_snoc: "digits_val (s @ [c]) = 10 * digits_val s + (of_char c - 48)"
  by (simp add: digits_val_def)

lemma digit_val: "n < 10 \<Longrightarrow> (of_char (char_of (48 + n :: nat)) :: int) = 48 + int n"
  using digit_char [of n] by (metis of_nat_add of_nat_numeral of_nat_of_char)

lemma digits_val_utoa: "digits_val (utoa n) = int n"
proof (induction n rule: utoa.induct)
  case (1 n)
  show ?case
  proof (cases "n < 10")
    case True
    then show ?thesis using digit_val [of n] by (subst utoa.simps) (simp add: digits_val_def)
  next
    case False
    then show ?thesis using 1 digit_val [of "n mod 10"]
      by (subst utoa.simps) (simp add: digits_val_snoc zmod_int zdiv_int)
  qed
qed

definition int64 :: "int \<Rightarrow> bool" where
  "int64 n \<longleftrightarrow> - (2 ^ 63) \<le> n \<and> n < 2 ^ 63"

lemma digit_not_sign: "is_digit c \<Longrightarrow> c \<noteq> CHR ''-'' \<and> c \<noteq> CHR ''+''"
  by (auto simp: is_digit_def)

lemma utoa_hd: "hd (utoa n) \<noteq> CHR ''-'' \<and> hd (utoa n) \<noteq> CHR ''+''"
  using utoa_digits [of n] digit_not_sign by (cases "utoa n") auto

lemma ParseInt_itoa: "int64 n \<Longrightarrow> ParseInt (itoa n) = Some n"
  using utoa_digits utoa_hd [of "nat n"]
  by (auto simp: ParseInt_def itoa_def int64_def digits_val_utoa Let_def)

text \<open>A word of a shell string: no quotes and no blanks.\<close>

definition plain :: "string \<Rightarrow> bool" where
  "plain w \<longleftrightarrow> CHR 0x27 \<notin> set w \<and> CHR 0x22 \<notin> set w \<and> CHR '' '' \<notin> set w"

lemma split_shell_word:
  "plain w \<Longrightarrow> split_shell False False cur (w @ s) = split_shell False False (cur @ w) s"
  by (induction w arbitrary: cur) (auto simp: plain_def)

lemma splitShellString_join:
  "\<forall>w\<in>set ws. plain w \<and> w \<noteq> [] \<Longrightarrow> splitShellString (join '' '' ws) = ws"
proof (induction "'' ''" ws rule: join.induct)
  case (2 x)
  then show ?case using split_shell_word [of x "[]" "[]"] by (simp add: splitShellString_def)
next
  case (3 x y xs)
  then show ?case using split_shell_word [of x "[]"] by (simp add: splitShellString_def)
qed (simp add: splitShellString_def)

text \<open>A flag as a user may write it: with hyphens or underscores, with the value after an equals sign
  or as the next word.\<close>

definition flag_key :: "bool \<Rightarrow> string \<Rightarrow> string" where
  "flag_key us name = ''--'' @ (if us then name else map (\<lambda>c. if c = CHR ''_'' then CHR ''-'' else c) name)"

definition render_flag :: "bool \<Rightarrow> bool \<Rightarrow> string \<times> string \<Rightarrow> string list" where
  "render_flag eq us f = (if eq then [flag_key us (fst f) @ ''='' @ snd f] else [flag_key us (fst f), snd f])"

definition flag_name :: "string \<Rightarrow> bool" where
  "flag_name n \<longleftrightarrow> n \<noteq> [] \<and> CHR ''-'' \<notin> set n \<and> CHR ''='' \<notin> set n \<and> hd n \<noteq> CHR ''_'' \<and> plain n"

lemma flag_key_no_eq: "flag_name n \<Longrightarrow> CHR ''='' \<notin> set (flag_key us n)"
  by (auto simp: flag_key_def flag_name_def)

lemma normalize_flag: "flag_name n \<Longrightarrow> normalizeKey (flag_key us n) = n"
proof -
  assume a: "flag_name n"
  then obtain c cs where n: "n = c # cs" "c \<noteq> CHR ''-''" "c \<noteq> CHR ''_''" by (cases n) (auto simp: flag_name_def)
  have "map (\<lambda>c. if c = CHR ''-'' then CHR ''_'' else c) cs = cs"
    "map ((\<lambda>c. if c = CHR ''-'' then CHR ''_'' else c) \<circ> (\<lambda>c. if c = CHR ''_'' then CHR ''-'' else c)) cs = cs"
    using a n by (auto simp: flag_name_def intro!: map_idI)
  then show ?thesis using n by (simp add: normalizeKey_def flag_key_def)
qed

lemma parse_rendered:
  assumes "flag_name n" and "\<not> is_flag v"
  shows "parseArgsWith f (render_flag eq us (n, v) @ rest) params = parseArgsWith f rest (f n v params)"
proof -
  have k: "is_flag (flag_key us n @ s)" for s by (simp add: is_flag_def flag_key_def)
  have tw: "takeWhile ((\<noteq>) CHR ''='') (flag_key us n @ CHR ''='' # v) = flag_key us n"
    "dropWhile ((\<noteq>) CHR ''='') (flag_key us n @ CHR ''='' # v) = CHR ''='' # v"
    using flag_key_no_eq [OF assms(1), of us] by (auto simp: takeWhile_append dropWhile_append)
  show ?thesis using k [of "[]"] k [of "CHR ''='' # v"] tw assms flag_key_no_eq [OF assms(1), of us]
    by (simp add: render_flag_def normalize_flag)
qed

lemma parse_all_rendered:
  "\<forall>x\<in>set fs. flag_name (fst x) \<and> \<not> is_flag (snd x) \<Longrightarrow>
     parseArgsWith f (concat (map (\<lambda>x. render_flag (eq (fst x)) (us (fst x)) x) fs) @ rest) params =
     parseArgsWith f rest (fold (\<lambda>x. f (fst x) (snd x)) fs params)"
  by (induction fs arbitrary: params) (auto simp: parse_rendered)

definition vllm_flags :: "engine_params \<Rightarrow> (string \<times> string) list" where
  "vllm_flags p = [(''block_size'', itoa (ep_BlockSize p)), (''kv_cache_dtype'', ep_KvCacheDtype p),
     (''tensor_parallel_size'', itoa (ep_TensorParallelSize p)),
     (''num_gpu_blocks_override'', itoa (ep_NumGpuBlocksOverride p)),
     (''max_num_batched_tokens'', itoa (ep_MaxNumBatchedTokens p)),
     (''max_num_seqs'', itoa (ep_MaxNumSeqs p)), (''max_model_len'', itoa (ep_MaxModelLen p))]"

definition vllm_command :: "(string \<Rightarrow> bool) \<Rightarrow> (string \<Rightarrow> bool) \<Rightarrow> engine_params \<Rightarrow> string list" where
  "vllm_command eq us p = ''vllm'' # ''serve'' #
     concat (map (\<lambda>x. render_flag (eq (fst x)) (us (fst x)) x) (vllm_flags p)) @
     (if ep_EnforceEager p then [''--enforce-eager''] else [])"

text \<open>Parameters a vLLM command line can express: the engine settings it has no flag for are the
  defaults, the integers fit 64 bits, and the cache type is a word that is not a flag.\<close>

definition expressible :: "engine_params \<Rightarrow> bool" where
  "expressible p \<longleftrightarrow> ep_Engine p = EngineVLLM \<and> ep_GpuMemoryUtilization p = 9/10 \<and>
     int64 (ep_BlockSize p) \<and> int64 (ep_TensorParallelSize p) \<and> int64 (ep_NumGpuBlocksOverride p) \<and>
     int64 (ep_MaxNumBatchedTokens p) \<and> int64 (ep_MaxNumSeqs p) \<and> int64 (ep_MaxModelLen p) \<and>
     ep_KvCacheDtype p \<noteq> [] \<and> plain (ep_KvCacheDtype p) \<and> \<not> is_flag (ep_KvCacheDtype p) \<and>
     ep_IsV1Engine p \<and> ep_ChunkedPrefillEnabled p \<and> ep_TotalKvTokensOverride p = 0 \<and>
     resolveEffectiveMaxBatchedTokens p = p"

lemma digit_plain: "is_digit c \<Longrightarrow> c \<noteq> CHR 0x27 \<and> c \<noteq> CHR 0x22 \<and> c \<noteq> CHR '' ''"
  by (auto simp: is_digit_def)

lemma itoa_word: "plain (itoa n) \<and> itoa n \<noteq> [] \<and> \<not> is_flag (itoa n)"
proof -
  have d: "is_digit c" if "c \<in> set (utoa m)" for c m using utoa_digits [of m] that by (simp add: list_all_iff)
  have p: "plain (utoa m)" for m using d [of _ m] digit_plain unfolding plain_def by blast
  have "\<not> is_flag (utoa m)" "\<not> is_flag (CHR ''-'' # utoa m)" for m
    using utoa_hd [of m] by (cases "utoa m"; simp add: is_flag_def)+
  then show ?thesis using p by (simp add: itoa_def) (simp add: plain_def)
qed

lemma flag_key_plain: "flag_name n \<Longrightarrow> plain (flag_key us n) \<and> flag_key us n \<noteq> []"
  by (auto simp: flag_name_def plain_def flag_key_def)

lemma rendered_words:
  assumes "flag_name n" and "plain v" and "v \<noteq> []" and "w \<in> set (render_flag eq us (n, v))"
  shows "plain w \<and> w \<noteq> []"
  using assms flag_key_plain [OF assms(1), of us] by (auto simp: render_flag_def plain_def split: if_splits)

lemma vllm_flags_ok:
  "expressible p \<Longrightarrow> x \<in> set (vllm_flags p) \<Longrightarrow> flag_name (fst x) \<and> plain (snd x) \<and> snd x \<noteq> [] \<and> \<not> is_flag (snd x)"
  using itoa_word by (auto simp: vllm_flags_def expressible_def flag_name_def plain_def)

lemma vllm_command_words: "expressible p \<Longrightarrow> w \<in> set (vllm_command eq us p) \<Longrightarrow> plain w \<and> w \<noteq> []"
  using vllm_flags_ok [of p] rendered_words
  by (auto simp: vllm_command_def plain_def split: if_splits) (metis prod.collapse rendered_words plain_def)+

lemma parse_boolean_flag:
  "parseArgsWith f (if b then [''--enforce-eager''] else []) params = (if b then f ''enforce_eager'' [] params else params)"
  by (simp add: is_flag_def normalizeKey_def)

lemma parse_vllm_command:
  assumes "expressible p"
  shows "parseArgsWith (applyParam pf) (vllm_command eq us p) defaultEngineParams = p\<lparr>ep_EffectiveMaxBatchedTokens := 0\<rparr>"
proof -
  have "parseArgsWith (applyParam pf) (vllm_command eq us p) defaultEngineParams =
      (if ep_EnforceEager p then applyParam pf ''enforce_eager'' [] else id)
        (fold (\<lambda>x. applyParam pf (fst x) (snd x)) (vllm_flags p) defaultEngineParams)"
    using vllm_flags_ok [OF assms] by (simp add: vllm_command_def parse_all_rendered parse_boolean_flag is_flag_def)
  also have "fold (\<lambda>x. applyParam pf (fst x) (snd x)) (vllm_flags p) defaultEngineParams =
      p\<lparr>ep_EnforceEager := False, ep_EffectiveMaxBatchedTokens := 0\<rparr>"
    using assms by (simp add: vllm_flags_def applyParam_def ParseInt_itoa set_parsed_def expressible_def defaultEngineParams_def)
  also have "(if ep_EnforceEager p then applyParam pf ''enforce_eager'' [] else id) \<dots> = p\<lparr>ep_EffectiveMaxBatchedTokens := 0\<rparr>"
    by (simp add: applyParam_def)
  finally show ?thesis .
qed



text \<open>Whatever the pod template holds, the token budget per step is positive, so a variant always has a
  first capacity estimate.\<close>

lemma parsed_budget_positive: "0 < ep_EffectiveMaxBatchedTokens (ParseEngineArgs pf engine template)"
  by (auto simp: ParseEngineArgs_def ParseVLLMArgs_def ParseSGLangArgs_def resolveEffectiveMaxBatchedTokens_def Let_def
      split: option.split list.split)

text \<open>The shell splitter knows blanks only: a newline at the end of the command string becomes part of
  the last value, which no longer parses, and the flag is lost.\<close>

lemma trailing_newline_loses_flag:
  "ep_MaxNumSeqs (ParseVLLMArgs pf (Some [\<lparr>ct_Image = [], ct_Command = [''/bin/sh'', ''-c''],
     ct_Args = [''vllm serve --max-num-seqs=64'' @ [CHR 0x0A]], ct_Env = []\<rparr>])) = 256"
  by (simp add: ParseVLLMArgs_def vllm_container_def collectArgs_def is_shell_def splitShellString_def is_flag_def
      normalizeKey_def applyParam_def set_parsed_def ParseInt_def is_digit_def resolveEffectiveMaxBatchedTokens_def
      Let_def defaultEngineParams_def)

end
