(* ===== verification/Capacity_Store.thy ===== *)
theory Capacity_Store
  imports Engine_Args
begin

text \<open>
  What the token-based analyzer remembers between cycles: the capacity record of each variant
  (\<open>capacity_store.go\<close>) and the sliding window of observed compute capacities
  (\<open>history.go\<close>).  The clock is an argument.  The mutex is left out: every operation is one
  step.  The laws a client of the store relies on are the locale \<open>knowledge_store\<close>.
\<close>

section \<open>Capacity records\<close>

definition learnedFromLive :: string where "learnedFromLive = ''live''"

record capacity_record =
  cr_AcceleratorName :: string
  cr_GpuCount :: int
  cr_NumGpuBlocks :: int
  cr_BlockSize :: int
  cr_TotalKvCapacityTokens :: int
  cr_EffectiveCapacity :: int
  cr_EngineParams :: "engine_params option"
  cr_LearnedFrom :: string
  cr_LearnedAt :: int

type_synonym capacity_store = "(string, capacity_record) gomap"

definition CapacityStalenessTimeout :: int where "CapacityStalenessTimeout = 30 * time_Minute"

definition storeKey :: "string \<Rightarrow> string \<Rightarrow> string \<Rightarrow> string" where
  "storeKey namespace modelID variantName = namespace @ ''|'' @ modelID @ ''|'' @ variantName"

definition cs_Update :: "int \<Rightarrow> string \<Rightarrow> string \<Rightarrow> string \<Rightarrow> capacity_record \<Rightarrow> capacity_store \<Rightarrow> capacity_store" where
  "cs_Update now namespace modelID variantName r s =
     mput (storeKey namespace modelID variantName) (r\<lparr>cr_LearnedAt := now\<rparr>) s"

definition cs_Get :: "capacity_store \<Rightarrow> string \<Rightarrow> string \<Rightarrow> string \<Rightarrow> capacity_record option" where
  "cs_Get s namespace modelID variantName = map_of s (storeKey namespace modelID variantName)"

definition IsStale :: "int \<Rightarrow> capacity_store \<Rightarrow> string \<Rightarrow> string \<Rightarrow> string \<Rightarrow> bool" where
  "IsStale now s namespace modelID variantName = (case cs_Get s namespace modelID variantName of
     None \<Rightarrow> True | Some r \<Rightarrow> now - cr_LearnedAt r > CapacityStalenessTimeout)"

text \<open>The record a scale target yields: the parsed parameters, the cache size when a flag gives it (a
  64-bit product), and the step budget as a first estimate.\<close>

definition target_record :: "(string \<Rightarrow> gofloat option) \<Rightarrow> int \<Rightarrow> string \<Rightarrow> int \<Rightarrow> pod_template \<Rightarrow> capacity_record" where
  "target_record pf now accelerator gpuCount template =
     (let params = ParseEngineArgs pf (Detect template) template;
          blocks = ep_NumGpuBlocksOverride params > 0
      in \<lparr>cr_AcceleratorName = accelerator, cr_GpuCount = gpuCount,
        cr_NumGpuBlocks = (if blocks then ep_NumGpuBlocksOverride params else 0),
        cr_BlockSize = (if blocks then ep_BlockSize params else 0),
        cr_TotalKvCapacityTokens =
          (if blocks then wrap64 (ep_NumGpuBlocksOverride params * ep_BlockSize params)
           else if ep_TotalKvTokensOverride params > 0 then ep_TotalKvTokensOverride params else 0),
        cr_EffectiveCapacity =
          (if ep_EffectiveMaxBatchedTokens params > 0 then ep_EffectiveMaxBatchedTokens params else 0),
        cr_EngineParams = Some params, cr_LearnedFrom = ''deployment'', cr_LearnedAt = now\<rparr>)"

definition LoadFromScaleTarget :: "(string \<Rightarrow> gofloat option) \<Rightarrow> int \<Rightarrow> string \<Rightarrow> string \<Rightarrow> string \<Rightarrow> string \<Rightarrow> int \<Rightarrow>
    pod_template option \<Rightarrow> capacity_store \<Rightarrow> capacity_store" where
  "LoadFromScaleTarget pf now namespace modelID variantName accelerator gpuCount scaleTarget s =
     (case scaleTarget of
        None \<Rightarrow> s
      | Some template \<Rightarrow>
          (case cs_Get s namespace modelID variantName of
             Some existing \<Rightarrow>
               (if cr_LearnedFrom existing = learnedFromLive then s
                else mput (storeKey namespace modelID variantName) (target_record pf now accelerator gpuCount template) s)
           | None \<Rightarrow> mput (storeKey namespace modelID variantName) (target_record pf now accelerator gpuCount template) s))"

definition EvictStale :: "int \<Rightarrow> int \<Rightarrow> capacity_store \<Rightarrow> int \<times> capacity_store" where
  "EvictStale now timeout s =
     (let old = (\<lambda>p. now - cr_LearnedAt (snd p) > timeout) in
      (int (length (filter old s)), filter (\<lambda>p. \<not> old p) s))"

text \<open>\<open>strings.SplitN(key, "|", 3)\<close>.\<close>

definition cut_pipe :: "string \<Rightarrow> (string \<times> string) option" where
  "cut_pipe s = (if CHR ''|'' \<in> set s
     then Some (takeWhile ((\<noteq>) CHR ''|'') s, tl (dropWhile ((\<noteq>) CHR ''|'') s)) else None)"

definition split_key :: "string \<Rightarrow> string list" where
  "split_key s = (case cut_pipe s of
     None \<Rightarrow> [s]
   | Some (a, r) \<Rightarrow> (case cut_pipe r of None \<Rightarrow> [a, r] | Some (b, c) \<Rightarrow> [a, b, c]))"

definition eligible :: "string \<Rightarrow> string \<Rightarrow> int \<Rightarrow> engine_params option \<Rightarrow> string \<times> capacity_record \<Rightarrow> bool" where
  "eligible modelID accelerator gpuCount params e \<longleftrightarrow>
     \<not> (length (split_key (fst e)) < 3 \<or> split_key (fst e) ! 1 \<noteq> modelID) \<and>
     \<not> (cr_AcceleratorName (snd e) \<noteq> accelerator \<or> cr_GpuCount (snd e) \<noteq> gpuCount) \<and>
     \<not> (cr_EngineParams (snd e) = None \<or> \<not> IsCapacityCompatible (cr_EngineParams (snd e)) params) \<and>
     \<not> (cr_EffectiveCapacity (snd e) \<le> 0 \<and> cr_TotalKvCapacityTokens (snd e) \<le> 0)"

definition better :: "capacity_record \<Rightarrow> capacity_record option \<Rightarrow> capacity_record option" where
  "better r best = (case best of
     None \<Rightarrow> Some r
   | Some b \<Rightarrow> if cr_LearnedFrom b \<noteq> ''live'' \<and> cr_LearnedFrom r = learnedFromLive then Some r else Some b)"

definition FindCompatible :: "capacity_store \<Rightarrow> string \<Rightarrow> string \<Rightarrow> int \<Rightarrow> engine_params option \<Rightarrow> capacity_record option" where
  "FindCompatible s modelID accelerator gpuCount params =
     fold (\<lambda>e best. if eligible modelID accelerator gpuCount params e then better (snd e) best else best) s None"

section \<open>Rolling averages\<close>

record rolling_average =
  ra_values :: "gofloat list"
  ra_maxSize :: nat
  ra_lastUpdated :: int

definition RollingAverageWindowSize :: nat where "RollingAverageWindowSize = 10"

definition newRollingAverage :: "int \<Rightarrow> nat \<Rightarrow> rolling_average" where
  "newRollingAverage now maxSize = \<lparr>ra_values = [], ra_maxSize = maxSize, ra_lastUpdated = now\<rparr>"

definition ra_Add :: "int \<Rightarrow> gofloat \<Rightarrow> rolling_average \<Rightarrow> rolling_average" where
  "ra_Add now value r = r\<lparr>ra_values := (if length (ra_values r) \<ge> ra_maxSize r then tl (ra_values r) else ra_values r) @ [value],
     ra_lastUpdated := now\<rparr>"

definition ra_Average :: "rolling_average \<Rightarrow> gofloat" where
  "ra_Average r = (if ra_values r = [] then 0 else sum_list (ra_values r) / of_nat (length (ra_values r)))"

definition ra_Len :: "rolling_average \<Rightarrow> nat" where
  "ra_Len r = length (ra_values r)"

section \<open>Keys\<close>

definition no_pipe :: "string \<Rightarrow> bool" where
  "no_pipe s \<longleftrightarrow> CHR ''|'' \<notin> set s"

lemma cut_pipe_append: "no_pipe a \<Longrightarrow> cut_pipe (a @ CHR ''|'' # r) = Some (a, r)"
  by (auto simp: cut_pipe_def no_pipe_def takeWhile_append dropWhile_append)

lemma split_storeKey: "no_pipe ns \<Longrightarrow> no_pipe m \<Longrightarrow> split_key (storeKey ns m v) = [ns, m, v]"
  by (simp add: split_key_def storeKey_def cut_pipe_append)

lemma storeKey_inject:
  "no_pipe ns \<Longrightarrow> no_pipe m \<Longrightarrow> no_pipe ns' \<Longrightarrow> no_pipe m' \<Longrightarrow>
     storeKey ns m v = storeKey ns' m' v' \<longleftrightarrow> ns = ns' \<and> m = m' \<and> v = v'"
  by (metis list.inject split_storeKey)

section \<open>The laws of the store\<close>

text \<open>What a client relies on: a written record is read back, stamped by the store, and writing one
  key leaves the others alone.  Keys that cannot be told apart are excluded by \<open>valid\<close>.\<close>

locale knowledge_store =
  fixes get :: "'s \<Rightarrow> 'k \<Rightarrow> 'r option" and put :: "'k \<Rightarrow> 'r \<Rightarrow> 's \<Rightarrow> 's" and stamp :: "'r \<Rightarrow> 'r"
    and valid :: "'k \<Rightarrow> bool"
  assumes get_put: "get (put k r s) k = Some (stamp r)"
    and get_put_other: "valid k \<Longrightarrow> valid k' \<Longrightarrow> k' \<noteq> k \<Longrightarrow> get (put k r s) k' = get s k'"
begin

lemma get_put_if: "valid k \<Longrightarrow> valid k' \<Longrightarrow> get (put k r s) k' = (if k' = k then Some (stamp r) else get s k')"
  by (simp add: get_put get_put_other)

lemma fold_get:
  assumes "\<And>x s. x \<in> set xs \<Longrightarrow> valid (key x) \<and> (f x s = s \<or> (\<exists>r. Q r \<and> f x s = put (key x) r s))" and "valid k"
    and "get (fold f xs s) k \<noteq> get s k"
  shows "k \<in> key ` set xs \<and> (\<exists>r. Q r \<and> get (fold f xs s) k = Some (stamp r))"
  using assms(1,3)
proof (induction xs rule: rev_induct)
  case (snoc x xs)
  let ?s = "fold f xs s"
  show ?case
  proof (cases "get (f x ?s) k = get ?s k")
    case True
    then show ?thesis using snoc by fastforce
  next
    case False
    then obtain r where "Q r" "valid (key x)" "f x ?s = put (key x) r ?s" using snoc.prems(1) [of x ?s] by auto
    then show ?thesis using False get_put_if [of "key x" k] assms(2) by (auto split: if_splits)
  qed
qed simp

end

abbreviation key_get :: "capacity_store \<Rightarrow> string \<times> string \<times> string \<Rightarrow> capacity_record option" where
  "key_get s k \<equiv> cs_Get s (fst k) (fst (snd k)) (snd (snd k))"

abbreviation key_put :: "int \<Rightarrow> string \<times> string \<times> string \<Rightarrow> capacity_record \<Rightarrow> capacity_store \<Rightarrow> capacity_store" where
  "key_put now k \<equiv> cs_Update now (fst k) (fst (snd k)) (snd (snd k))"

interpretation records: knowledge_store key_get "key_put now" "\<lambda>r. r\<lparr>cr_LearnedAt := now\<rparr>"
    "\<lambda>k. no_pipe (fst k) \<and> no_pipe (fst (snd k))" for now
  by unfold_locales (auto simp: cs_Get_def cs_Update_def update_conv storeKey_inject prod_eq_iff)

section \<open>Finding a compatible record\<close>

text \<open>A record that can stand in for a variant on the given hardware with the given engine.\<close>

definition stands_in :: "string \<Rightarrow> int \<Rightarrow> engine_params option \<Rightarrow> capacity_record \<Rightarrow> bool" where
  "stands_in accelerator gpuCount params r \<longleftrightarrow>
     cr_AcceleratorName r = accelerator \<and> cr_GpuCount r = gpuCount \<and>
     IsCapacityCompatible (cr_EngineParams r) params \<and>
     (0 < cr_EffectiveCapacity r \<or> 0 < cr_TotalKvCapacityTokens r)"

definition wf_store :: "capacity_store \<Rightarrow> bool" where
  "wf_store s \<longleftrightarrow> wf_map s \<and> (\<forall>k\<in>set (mkeys s). \<exists>ns m v. k = storeKey ns m v \<and> no_pipe ns \<and> no_pipe m)"

lemma eligible_stands_in:
  assumes "no_pipe ns" and "no_pipe m'"
  shows "eligible m a g p (storeKey ns m' v, r) \<longleftrightarrow> m' = m \<and> stands_in a g p r"
  by (auto simp: eligible_def stands_in_def split_storeKey assms IsCapacityCompatible_def split: option.splits)

text \<open>The record kept so far is one that passed the test, the best learned from live metrics if any was.\<close>

definition best_of :: "('e \<Rightarrow> bool) \<Rightarrow> ('e \<Rightarrow> capacity_record) \<Rightarrow> 'e list \<Rightarrow> capacity_record option \<Rightarrow> bool" where
  "best_of P f s best \<longleftrightarrow> (case best of
     None \<Rightarrow> \<forall>e\<in>set s. \<not> P e
   | Some r \<Rightarrow> (\<exists>e\<in>set s. P e \<and> f e = r) \<and>
      ((\<exists>e\<in>set s. P e \<and> cr_LearnedFrom (f e) = learnedFromLive) \<longrightarrow> cr_LearnedFrom r = learnedFromLive))"

lemma best_of_step:
  "best_of P f s best \<Longrightarrow> best_of P f (s @ [e]) (if P e then better (f e) best else best)"
  by (cases best) (auto simp: best_of_def better_def learnedFromLive_def)

lemma find_compatible_fold: "best_of P f s (fold (\<lambda>e best. if P e then better (f e) best else best) s None)"
proof (induction s rule: rev_induct)
  case (snoc e s)
  then show ?case using best_of_step [OF snoc, of e] by simp
qed (simp add: best_of_def)

text \<open>The capacity borrowed for a variant without data comes from a variant of the same model on the
  same hardware with a compatible engine; a record learned from live metrics is taken whenever there
  is one; and none is found only when there is none.  This holds in whatever order the store is
  searched.\<close>

theorem compatible_record_sound:
  assumes "wf_store s"
  shows "case FindCompatible s m a g p of
     None \<Rightarrow> \<forall>ns v r. no_pipe ns \<and> no_pipe m \<and> cs_Get s ns m v = Some r \<longrightarrow> \<not> stands_in a g p r
   | Some r \<Rightarrow> (\<exists>ns v. cs_Get s ns m v = Some r) \<and> stands_in a g p r \<and>
      ((\<exists>ns v r'. no_pipe ns \<and> no_pipe m \<and> cs_Get s ns m v = Some r' \<and> stands_in a g p r' \<and>
         cr_LearnedFrom r' = learnedFromLive) \<longrightarrow> cr_LearnedFrom r = learnedFromLive)"
proof -
  have mem: "eligible m a g p (storeKey ns m v, r) \<and> (storeKey ns m v, r) \<in> set s"
    if g1: "no_pipe ns" "no_pipe m" "cs_Get s ns m v = Some r" "stands_in a g p r" for ns v r
    using g1 by (auto simp: eligible_stands_in cs_Get_def dest: map_of_SomeD)
  have keys: "\<exists>ns v. cs_Get s ns m v = Some r \<and> stands_in a g p r" if k1: "(k, r) \<in> set s" "eligible m a g p (k, r)" for k r
  proof -
    obtain ns m' v where "k = storeKey ns m' v" "no_pipe ns" "no_pipe m'" using assms k1(1) by (force simp: wf_store_def)
    then show ?thesis using k1 assms eligible_stands_in by (auto simp: cs_Get_def wf_store_def)
  qed
  have best: "best_of (eligible m a g p) snd s (FindCompatible s m a g p)"
    unfolding FindCompatible_def by (rule find_compatible_fold)
  show ?thesis
  proof (cases "FindCompatible s m a g p")
    case None
    then have "\<forall>e\<in>set s. \<not> eligible m a g p e" using best by (simp add: best_of_def)
    then show ?thesis using mem None by auto
  next
    case (Some r)
    then obtain k where k: "(k, r) \<in> set s" "eligible m a g p (k, r)"
      and live: "(\<exists>e\<in>set s. eligible m a g p e \<and> cr_LearnedFrom (snd e) = learnedFromLive) \<longrightarrow> cr_LearnedFrom r = learnedFromLive"
      using best by (auto simp: best_of_def)
    have "cr_LearnedFrom r = learnedFromLive"
      if w: "no_pipe ns" "no_pipe m" "cs_Get s ns m v = Some r'" "stands_in a g p r'" "cr_LearnedFrom r' = learnedFromLive" for ns v r'
      using mem [OF w(1-4)] w(5) live by force
    then show ?thesis using keys [OF k] Some by auto
  qed
qed

definition example_record :: capacity_record where
  "example_record = \<lparr>cr_AcceleratorName = ''H100'', cr_GpuCount = 1, cr_NumGpuBlocks = 0, cr_BlockSize = 0,
     cr_TotalKvCapacityTokens = 0, cr_EffectiveCapacity = 8192, cr_EngineParams = Some defaultEngineParams,
     cr_LearnedFrom = learnedFromLive, cr_LearnedAt = 0\<rparr>"

lemma compatible_record_sound_witness:
  "\<exists>ns v. cs_Get [(storeKey ''ns'' ''m'' ''v'', example_record)] ns ''m'' v = Some example_record"
proof -
  have wf: "wf_store [(storeKey ''ns'' ''m'' ''v'', example_record)]"
  proof -
    have "\<exists>ns m v. storeKey ''ns'' ''m'' ''v'' = storeKey ns m v \<and> no_pipe ns \<and> no_pipe m"
      by (intro exI conjI, rule refl) (simp_all add: no_pipe_def)
    then show ?thesis by (simp add: wf_store_def)
  qed
  have "eligible ''m'' ''H100'' 1 (Some defaultEngineParams) (storeKey ''ns'' ''m'' ''v'', example_record)"
    by (subst eligible_stands_in)
      (simp_all add: no_pipe_def stands_in_def example_record_def IsCapacityCompatible_def)
  then have "FindCompatible [(storeKey ''ns'' ''m'' ''v'', example_record)] ''m'' ''H100'' 1 (Some defaultEngineParams) = Some example_record"
    by (simp add: FindCompatible_def better_def)
  then show ?thesis using compatible_record_sound [OF wf, of "''m''" "''H100''" 1 "Some defaultEngineParams"] by simp
qed

section \<open>Loading and ageing\<close>

lemma target_record_usable: "0 < cr_EffectiveCapacity (target_record pf now a g t)"
  using parsed_budget_positive [of pf "Detect t" t] by (simp add: target_record_def Let_def)

text \<open>Reading a scale target never overwrites what was learned from live metrics and never leaves a
  variant without an estimate: a live record is kept as it is, otherwise the variant has a record with
  a positive capacity and the parameters of its command line; the other variants keep theirs.\<close>

theorem loading_keeps_live_data:
  "let s' = LoadFromScaleTarget pf now ns m v a g (Some t) s in
     (case cs_Get s ns m v of
        Some r \<Rightarrow> if cr_LearnedFrom r = learnedFromLive then s' = s
          else cs_Get s' ns m v = Some (target_record pf now a g t)
      | None \<Rightarrow> cs_Get s' ns m v = Some (target_record pf now a g t)) \<and>
     0 < cr_EffectiveCapacity (target_record pf now a g t) \<and>
     cr_EngineParams (target_record pf now a g t) = Some (ParseEngineArgs pf (Detect t) t) \<and>
     (no_pipe ns \<and> no_pipe m \<and> no_pipe ns' \<and> no_pipe m' \<and> (ns', m', v') \<noteq> (ns, m, v) \<longrightarrow>
        cs_Get s' ns' m' v' = cs_Get s ns' m' v')"
  using target_record_usable [of pf now a g t]
  by (auto simp: LoadFromScaleTarget_def cs_Get_def update_conv storeKey_inject target_record_def Let_def split: option.split)

lemma loading_keeps_live_data_witness:
  "cs_Get (LoadFromScaleTarget (\<lambda>_. None) 0 ''ns'' ''m'' ''v'' ''H100'' 1 (Some None)
      [(storeKey ''ns'' ''m'' ''w'', example_record)]) ''ns'' ''m'' ''w'' = Some example_record"
  using loading_keeps_live_data [of "\<lambda>_. None" 0 "''ns''" "''m''" "''v''" "''H100''" 1 None
      "[(storeKey ''ns'' ''m'' ''w'', example_record)]" "''ns''" "''m''" "''w''"]
  by (simp add: no_pipe_def cs_Get_def Let_def)

text \<open>Eviction removes exactly the records older than the timeout and counts them.\<close>

lemma EvictStale_counts: "fst (EvictStale now timeout s) + int (length (snd (EvictStale now timeout s))) = int (length s)"
  using sum_length_filter_compl [of "\<lambda>p. now - cr_LearnedAt (snd p) > timeout" s]
  by (simp add: EvictStale_def Let_def del: sum_length_filter_compl flip: of_nat_add)

section \<open>The sliding window\<close>

lemma drop_window:
  assumes "0 < n"
  shows "(if n \<le> length (drop (length xs - n) xs) then tl (drop (length xs - n) xs) else drop (length xs - n) xs) @ [x] =
    drop (length (xs @ [x]) - n) (xs @ [x])"
  using assms by (cases "n \<le> length xs") (auto simp: drop_Suc tl_drop Suc_diff_le)

lemma window_step:
  assumes "0 < n" and "ra_values w = drop (length xs - n) xs" and "ra_maxSize w = n"
  shows "ra_values (ra_Add t v w) = drop (length (xs @ [v]) - n) (xs @ [v]) \<and> ra_maxSize (ra_Add t v w) = n"
  unfolding drop_window [OF assms(1), of xs v, symmetric] assms(2) [symmetric] by (simp add: ra_Add_def assms(3))

text \<open>The history of compute capacities is a sliding window: after any sequence of observations it
  holds the last ones, up to the window size, and reports their arithmetic mean.\<close>

theorem window_holds_last_observations:
  assumes "0 < n"
  shows "let w = fold (\<lambda>(t, v). ra_Add t v) obs (newRollingAverage t0 n); latest = drop (length obs - n) (map snd obs) in
    ra_values w = latest \<and> ra_Len w = min n (length obs) \<and>
    ra_Average w = (if obs = [] then 0 else sum_list latest / of_nat (length latest))"
proof -
  let ?w = "\<lambda>obs. fold (\<lambda>(t, v). ra_Add t v) obs (newRollingAverage t0 n)"
  have "ra_values (?w obs) = drop (length obs - n) (map snd obs) \<and> ra_maxSize (?w obs) = n"
  proof (induction obs rule: rev_induct)
    case (snoc x obs)
    then show ?case using window_step [OF assms, of "?w obs" "map snd obs" "fst x" "snd x"] by (cases x) simp
  qed (simp add: newRollingAverage_def)
  moreover have "length obs \<le> length obs - n \<longleftrightarrow> obs = []" using assms by (cases obs) auto
  ultimately show ?thesis using assms by (simp add: Let_def ra_Len_def ra_Average_def min_def)
qed

lemma window_holds_last_observations_witness:
  "ra_Average (fold (\<lambda>(t, v). ra_Add t v) [(1, 10), (2, 20), (3, 40)] (newRollingAverage 0 2)) = 30"
  using window_holds_last_observations [of 2 "[(1, 10), (2, 20), (3, 40)]" 0] by (simp add: Let_def)

end
