(* ===== verification/Role_Totals.thy ===== *)
theory Role_Totals
  imports Analyzer_Helpers
begin

text \<open>
  What aggregation by role (\<open>aggregation.go\<close>) computes: each role holds the sums over its own
  variants, and the roles together hold the sums of the model.  Every analyzer that reports per role
  relies on it.
\<close>

definition role_vcs :: "string \<Rightarrow> variant_capacity list \<Rightarrow> variant_capacity list" where
  "role_vcs role vcs = filter (\<lambda>vc. canon_role (vc_Role vc) = role) vcs"

definition totals_of :: "variant_capacity list \<Rightarrow> scope_totals" where
  "totals_of vcs = \<lparr>sct_TotalSupply = SumTotalSupply vcs, sct_TotalAnticipatedSupply = SumTotalAnticipatedSupply vcs,
     sct_TotalDemand = SumTotalDemand vcs\<rparr>"

lemmas sum_totals = SumTotalSupply_def SumTotalAnticipatedSupply_def SumTotalDemand_def

lemma role_vcs_snoc: "role_vcs role (vcs @ [vc]) = role_vcs role vcs @ (if canon_role (vc_Role vc) = role then [vc] else [])"
  by (simp add: role_vcs_def)

lemma totals_of_Nil: "totals_of [] = zero_totals"
  by (simp add: totals_of_def zero_totals_def sum_totals)

lemma AggregateByRole_snoc:
  "AggregateByRole (vcs @ [vc]) =
     (let role = canon_role (vc_Role vc); t = mget zero_totals (AggregateByRole vcs) role in
      mput role \<lparr>sct_TotalSupply = sct_TotalSupply t + of_int (vc_ReplicaCount vc) * vc_PerReplicaCapacity vc,
       sct_TotalAnticipatedSupply = sct_TotalAnticipatedSupply t +
         of_int (vc_ReplicaCount vc + vc_PendingReplicas vc) * vc_PerReplicaCapacity vc,
       sct_TotalDemand = sct_TotalDemand t + vc_TotalDemand vc\<rparr> (AggregateByRole vcs))"
  by (simp add: AggregateByRole_def Let_def)

lemma AggregateByRole_facts:
  "wf_map (AggregateByRole vcs) \<and>
   (\<forall>role. map_of (AggregateByRole vcs) role = (if role_vcs role vcs = [] then None else Some (totals_of (role_vcs role vcs))))"
proof (induction vcs rule: rev_induct)
  case (snoc vc vcs)
  have get: "mget zero_totals (AggregateByRole vcs) role = totals_of (role_vcs role vcs)" for role
    using snoc totals_of_Nil by (simp add: mget_def)
  show ?case using snoc
    by (auto simp: AggregateByRole_snoc Let_def update_conv get role_vcs_snoc) (simp_all add: totals_of_def sum_totals)
qed (simp add: AggregateByRole_def role_vcs_def)

lemma roles_partition:
  "(\<Sum>(_, t)\<leftarrow>AggregateByRole vcs. sct_TotalSupply t) = SumTotalSupply vcs"
  "(\<Sum>(_, t)\<leftarrow>AggregateByRole vcs. sct_TotalAnticipatedSupply t) = SumTotalAnticipatedSupply vcs"
  "(\<Sum>(_, t)\<leftarrow>AggregateByRole vcs. sct_TotalDemand t) = SumTotalDemand vcs"
proof -
  note put = sum_mput [OF conjunct1 [OF AggregateByRole_facts], where z = zero_totals]
  show "(\<Sum>(_, t)\<leftarrow>AggregateByRole vcs. sct_TotalSupply t) = SumTotalSupply vcs"
    by (induction vcs rule: rev_induct)
      (simp_all add: AggregateByRole_snoc Let_def put zero_totals_def sum_totals, simp add: AggregateByRole_def)
  show "(\<Sum>(_, t)\<leftarrow>AggregateByRole vcs. sct_TotalAnticipatedSupply t) = SumTotalAnticipatedSupply vcs"
    by (induction vcs rule: rev_induct)
      (simp_all add: AggregateByRole_snoc Let_def put zero_totals_def sum_totals, simp add: AggregateByRole_def)
  show "(\<Sum>(_, t)\<leftarrow>AggregateByRole vcs. sct_TotalDemand t) = SumTotalDemand vcs"
    by (induction vcs rule: rev_induct)
      (simp_all add: AggregateByRole_snoc Let_def put zero_totals_def sum_totals, simp add: AggregateByRole_def)
qed

end
