(* ===== verification/Enforcer.thy ===== *)
theory Enforcer
  imports Scale_To_Zero
begin

text \<open>
  The policy stage that follows an optimizer (\<open>enforcer.go\<close>): an idle model is taken to zero
  where that is allowed, and keeps one replica where it is not.  The request counter is a parameter
  (a model, its namespace and a period give a count or an error); metrics are left out.
\<close>

type_synonym request_count = "string \<Rightarrow> string \<Rightarrow> int \<Rightarrow> string + gofloat"

definition DefaultVariantCost :: gofloat where "DefaultVariantCost = 10"

definition action_of :: "variant_decision \<Rightarrow> SaturationAction" where
  "action_of d =
     (if d_TargetReplicas d > d_CurrentReplicas d then ActionScaleUp
      else if d_TargetReplicas d < d_CurrentReplicas d then ActionScaleDown
      else ActionNoChange)"

definition updateDecisionAction :: "string \<Rightarrow> variant_decision \<Rightarrow> variant_decision" where
  "updateDecisionAction optimizerName d =
     (let action = action_of d;
          category = (if d_decisionReason d = [] then DecisionReasonV2 else d_decisionReason d)
      in SetDecisionReason action category
           (category @ '' '' @ action @ '' (optimizer: '' @ optimizerName @ '', enforced)'') d)"

definition of_model :: "string \<Rightarrow> string \<Rightarrow> variant_decision \<Rightarrow> bool" where
  "of_model modelID namespace d \<longleftrightarrow> d_ModelID d = modelID \<and> d_Namespace d = namespace"

definition applyScaleToZeroOnDecisions ::
  "request_count \<Rightarrow> scale_to_zero_data \<Rightarrow> string \<Rightarrow> string \<Rightarrow> string \<Rightarrow> variant_decision list \<Rightarrow>
   bool \<times> variant_decision list" where
  "applyScaleToZeroOnDecisions requestCount configData optimizerName modelID namespace ds =
     (case requestCount modelID namespace (ScaleToZeroRetentionPeriod configData modelID) of
        Inl _ \<Rightarrow> (False, ds)
      | Inr n \<Rightarrow>
          if n > 0 then (False, ds)
          else (True, map (\<lambda>d. if of_model modelID namespace d
                               then updateDecisionAction optimizerName (d\<lparr>d_TargetReplicas := 0\<rparr>)
                               else d) ds))"

definition enforcer_cost :: "variant_decision \<Rightarrow> gofloat" where
  "enforcer_cost d = (if d_Cost d \<le> 0 then DefaultVariantCost else d_Cost d)"

text \<open>One step of the search: the index and cost of the cheapest decision so far.\<close>

definition cheaper_step :: "string \<Rightarrow> string \<Rightarrow> variant_decision list \<Rightarrow> nat \<Rightarrow>
    (nat \<times> gofloat) option \<Rightarrow> (nat \<times> gofloat) option" where
  "cheaper_step modelID namespace ds i best =
     (let d = ds ! i; cost = enforcer_cost d in
      if \<not> of_model modelID namespace d then best
      else case best of
        None \<Rightarrow> Some (i, cost)
      | Some (j, c) \<Rightarrow>
          if cost < c \<or> cost = c \<and> d_VariantName d < d_VariantName (ds ! j) then Some (i, cost) else best)"

definition cheapest :: "string \<Rightarrow> string \<Rightarrow> variant_decision list \<Rightarrow> (nat \<times> gofloat) option" where
  "cheapest modelID namespace ds = fold (cheaper_step modelID namespace ds) [0..<length ds] None"

definition model_target :: "string \<Rightarrow> string \<Rightarrow> variant_decision list \<Rightarrow> int" where
  "model_target modelID namespace ds =
     (\<Sum>d\<leftarrow>ds. if of_model modelID namespace d then d_TargetReplicas d else 0)"

definition ensureMinimumReplicasOnDecisions ::
  "string \<Rightarrow> string \<Rightarrow> string \<Rightarrow> variant_decision list \<Rightarrow> bool \<times> variant_decision list" where
  "ensureMinimumReplicasOnDecisions optimizerName modelID namespace ds =
     (if model_target modelID namespace ds > 0 then (False, ds)
      else case cheapest modelID namespace ds of
        None \<Rightarrow> (False, ds)
      | Some (i, _) \<Rightarrow>
          (True, ds[i := updateDecisionAction optimizerName ((ds ! i)\<lparr>d_TargetReplicas := 1\<rparr>)]))"

definition EnforcePolicyOnDecisions ::
  "request_count \<Rightarrow> string \<Rightarrow> string \<Rightarrow> string \<Rightarrow> scale_to_zero_data \<Rightarrow> saturation_scaling_config option \<Rightarrow>
   string \<Rightarrow> variant_decision list \<Rightarrow> bool \<times> variant_decision list" where
  "EnforcePolicyOnDecisions requestCount env modelID namespace configData satConfig optimizerName ds =
     (if ResolveScaleToZeroEnabled env satConfig configData modelID
      then applyScaleToZeroOnDecisions requestCount configData optimizerName modelID namespace ds
      else (False, snd (ensureMinimumReplicasOnDecisions optimizerName modelID namespace ds)))"

section \<open>The cheapest decision\<close>

text \<open>No decision of the model beats the chosen one on cost, then name.\<close>

definition not_cheaper :: "variant_decision \<Rightarrow> variant_decision \<Rightarrow> bool" where
  "not_cheaper d b \<longleftrightarrow> enforcer_cost b < enforcer_cost d \<or>
     enforcer_cost b = enforcer_cost d \<and> d_VariantName b \<le> d_VariantName d"

lemma not_cheaper_trans: "not_cheaper a b \<Longrightarrow> not_cheaper b c \<Longrightarrow> not_cheaper a c"
  by (auto simp: not_cheaper_def)

lemma cheapest_prefix:
  assumes "n \<le> length ds"
  shows "case fold (cheaper_step m ns ds) [0..<n] None of
      None \<Rightarrow> \<forall>i<n. \<not> of_model m ns (ds ! i)
    | Some (j, c) \<Rightarrow> j < n \<and> of_model m ns (ds ! j) \<and> c = enforcer_cost (ds ! j) \<and>
        (\<forall>i<n. of_model m ns (ds ! i) \<longrightarrow> not_cheaper (ds ! i) (ds ! j))"
  using assms
proof (induction n)
  case (Suc n)
  let ?f = "fold (cheaper_step m ns ds) [0..<n] None"
  have step: "fold (cheaper_step m ns ds) [0..<Suc n] None = cheaper_step m ns ds n ?f" by simp
  have IH: "case ?f of None \<Rightarrow> \<forall>i<n. \<not> of_model m ns (ds ! i)
    | Some (j, c) \<Rightarrow> j < n \<and> of_model m ns (ds ! j) \<and> c = enforcer_cost (ds ! j) \<and>
        (\<forall>i<n. of_model m ns (ds ! i) \<longrightarrow> not_cheaper (ds ! i) (ds ! j))"
    using Suc by simp
  show ?case
  proof (cases ?f)
    case None
    then show ?thesis using IH unfolding step
      by (auto simp: cheaper_step_def Let_def less_Suc_eq not_cheaper_def)
  next
    case (Some b)
    obtain j c where b: "b = (j, c)" by (cases b)
    have j: "j < n" "of_model m ns (ds ! j)" "c = enforcer_cost (ds ! j)"
      and all: "\<And>i. i < n \<Longrightarrow> of_model m ns (ds ! i) \<Longrightarrow> not_cheaper (ds ! i) (ds ! j)"
      using IH Some b by auto
    let ?win = "of_model m ns (ds ! n) \<and> (enforcer_cost (ds ! n) < c \<or>
      enforcer_cost (ds ! n) = c \<and> d_VariantName (ds ! n) < d_VariantName (ds ! j))"
    have st: "cheaper_step m ns ds n ?f = (if ?win then Some (n, enforcer_cost (ds ! n)) else Some (j, c))"
      using Some b by (simp add: cheaper_step_def Let_def)
    show ?thesis
    proof (cases ?win)
      case True
      then have "not_cheaper (ds ! j) (ds ! n)" using j by (auto simp: not_cheaper_def)
      then have "not_cheaper (ds ! i) (ds ! n)" if "i < Suc n" "of_model m ns (ds ! i)" for i
        using all [of i] that not_cheaper_trans by (cases "i = n") (auto simp: not_cheaper_def)
      then show ?thesis unfolding step st using True by simp
    next
      case False
      then have "of_model m ns (ds ! n) \<longrightarrow> not_cheaper (ds ! n) (ds ! j)"
        using j by (auto simp: not_cheaper_def not_less)
      then have "not_cheaper (ds ! i) (ds ! j)" if "i < Suc n" "of_model m ns (ds ! i)" for i
        using all [of i] that by (cases "i = n") auto
      then show ?thesis unfolding step st if_not_P [OF False] using j by simp
    qed
  qed
qed simp

lemmas cheapest_spec = cheapest_prefix [OF order_refl, folded cheapest_def]

lemma model_target_update:
  assumes "i < length ds" and "of_model m ns (ds ! i)" and "of_model m ns d"
  shows "model_target m ns (ds[i := d]) = model_target m ns ds - d_TargetReplicas (ds ! i) + d_TargetReplicas d"
  unfolding model_target_def using assms by (simp add: sum_list_update_int)

lemma updateDecisionAction_frame [simp]:
  "d_TargetReplicas (updateDecisionAction o' d) = d_TargetReplicas d"
  "d_CurrentReplicas (updateDecisionAction o' d) = d_CurrentReplicas d"
  "of_model m ns (updateDecisionAction o' d) = of_model m ns d"
  "d_Action (updateDecisionAction o' d) = action_of d"
  by (simp_all add: updateDecisionAction_def SetDecisionReason_def of_model_def Let_def)

section \<open>Properties\<close>

definition ex_variant :: "string \<Rightarrow> gofloat \<Rightarrow> int \<Rightarrow> variant_decision" where
  "ex_variant name cost cur = zero_decision\<lparr>d_VariantName := name, d_ModelID := ''m'', d_Namespace := ''ns'',
     d_Cost := cost, d_CurrentReplicas := cur, d_TargetReplicas := 0\<rparr>"

text \<open>C26. Where scaling to zero is not enabled for a model that has variants, enforcement leaves the
  model with at least one replica: a positive total is not touched, and a total of zero becomes one
  replica on the variant no other variant of the model beats on cost (unpriced ones counting as the
  default cost), then on name; every other decision is as it was.\<close>

theorem minimum_replica_kept:
  assumes "\<not> ResolveScaleToZeroEnabled env sat cfg m"
    and "EnforcePolicyOnDecisions req env m ns cfg sat opt ds = (z, ds')"
    and "d \<in> set ds" and "of_model m ns d" and "\<forall>d\<in>set ds. 0 \<le> d_TargetReplicas d"
  shows "\<not> z \<and> 1 \<le> model_target m ns ds' \<and>
    (if 0 < model_target m ns ds then ds' = ds
     else \<exists>i<length ds. of_model m ns (ds ! i) \<and>
       (\<forall>e\<in>set ds. of_model m ns e \<longrightarrow> not_cheaper e (ds ! i)) \<and>
       ds' = ds[i := updateDecisionAction opt ((ds ! i)\<lparr>d_TargetReplicas := 1\<rparr>)])"
proof (cases "0 < model_target m ns ds")
  case True
  then show ?thesis using assms(1,2)
    by (simp add: EnforcePolicyOnDecisions_def ensureMinimumReplicasOnDecisions_def)
next
  case False
  obtain k where k: "k < length ds" "ds ! k = d" using assms(3) by (auto simp: in_set_conv_nth)
  then obtain i c where ch: "cheapest m ns ds = Some (i, c)"
    using cheapest_spec [where m = m and ns = ns and ds = ds] assms(4) by (cases "cheapest m ns ds") auto
  then have i: "i < length ds" "of_model m ns (ds ! i)"
    and best: "\<forall>e\<in>set ds. of_model m ns e \<longrightarrow> not_cheaper e (ds ! i)"
    using cheapest_spec [where m = m and ns = ns and ds = ds] by (auto simp: in_set_conv_nth)
  have z: "\<not> z" and ds': "ds' = ds[i := updateDecisionAction opt ((ds ! i)\<lparr>d_TargetReplicas := 1\<rparr>)]"
    using assms(1,2) False ch
    by (auto simp: EnforcePolicyOnDecisions_def ensureMinimumReplicasOnDecisions_def)
  have om: "of_model m ns ((ds ! i)\<lparr>d_TargetReplicas := 1\<rparr>)" using i by (simp add: of_model_def)
  have "0 \<le> model_target m ns ds"
    unfolding model_target_def by (rule sum_list_nonneg) (use assms(5) in auto)
  moreover have "d_TargetReplicas (ds ! i) \<le> model_target m ns ds"
  proof -
    have "(if of_model m ns (ds ! i) then d_TargetReplicas (ds ! i) else 0) \<le> model_target m ns ds"
      unfolding model_target_def
      by (rule member_le_sum_list) (use assms(5) i in \<open>auto simp: image_iff\<close>)
    then show ?thesis using i by simp
  qed
  ultimately have "1 \<le> model_target m ns ds'"
    unfolding ds' using model_target_update [OF i, of "updateDecisionAction opt ((ds ! i)\<lparr>d_TargetReplicas := 1\<rparr>)"] om
    by simp
  then show ?thesis using z ds' i best False by auto
qed

theorem minimum_replica_kept_witness:
  "1 \<le> model_target ''m'' ''ns'' (snd (EnforcePolicyOnDecisions (\<lambda>_ _ _. Inr 0) ''false'' ''m'' ''ns'' [] None
     ''cost-aware'' [ex_variant ''b'' 5 1, ex_variant ''a'' 5 2, ex_variant ''c'' 0 1]))"
  using minimum_replica_kept [of "''false''" None "[]" "''m''" "\<lambda>_ _ _. Inr 0" "''ns''" "''cost-aware''"
      "[ex_variant ''b'' 5 1, ex_variant ''a'' 5 2, ex_variant ''c'' 0 1]" _ _ "ex_variant ''b'' 5 1"]
  by (cases "EnforcePolicyOnDecisions (\<lambda>_ _ _. Inr 0) ''false'' ''m'' ''ns'' [] None
     ''cost-aware'' [ex_variant ''b'' 5 1, ex_variant ''a'' 5 2, ex_variant ''c'' 0 1]")
    (simp add: ResolveScaleToZeroEnabled_def IsScaleToZeroEnabled_def entry_flag_def to_lower_def
      ex_variant_def of_model_def zero_decision_def)



end
