(* ===== verification/Saturation_V1.thy ===== *)
theory Saturation_V1
  imports Enforcer
begin

text \<open>
  The percentage-based saturation analyzer (\<open>saturationv1/analyzer.go\<close>) and the conversion of
  its targets into decisions (\<open>convertSaturationTargetsToDecisions\<close> in
  \<open>engines/saturation/engine.go\<close>).  Time stamps and logging are left out; the reason of a
  scale-up is a constructor that carries the printed numbers.
\<close>

section \<open>Data\<close>

record replica_metrics =
  rm_PodName :: string
  rm_VariantName :: string
  rm_AcceleratorName :: string
  rm_Cost :: gofloat
  rm_KvCacheUsage :: gofloat
  rm_QueueLength :: int

record variant_saturation =
  vs_VariantName :: string
  vs_AcceleratorName :: string
  vs_Cost :: gofloat
  vs_ReplicaCount :: int
  vs_NonSaturatedCount :: int
  vs_MaxKvCacheUsage :: gofloat
  vs_AvgKvCacheUsage :: gofloat
  vs_MaxQueueLength :: int
  vs_AvgSpareKvCapacity :: gofloat
  vs_AvgSpareQueueLength :: gofloat
  vs_SaturatedReplicas :: "string list"

datatype scale_up_reason =
    NoReason
  | BothLow gofloat gofloat gofloat gofloat
  | KvLow gofloat gofloat
  | QueueLow gofloat gofloat

record model_saturation =
  ms_ModelID :: string
  ms_Namespace :: string
  ms_TotalReplicas :: int
  ms_NonSaturatedCount :: int
  ms_AvgSpareKvCapacity :: gofloat
  ms_AvgSpareQueueLength :: gofloat
  ms_ShouldScaleUp :: bool
  ms_ScaleUpReason :: scale_up_reason
  ms_ScaleDownSafe :: bool
  ms_VariantAnalyses :: "variant_saturation list"

definition MinNonSaturatedReplicasForScaleDown :: int where "MinNonSaturatedReplicasForScaleDown = 2"

section \<open>Analysis\<close>

definition isSaturated :: "saturation_scaling_config \<Rightarrow> replica_metrics \<Rightarrow> bool" where
  "isSaturated cfg m \<longleftrightarrow> rm_KvCacheUsage m \<ge> sc_KvCacheThreshold cfg \<or>
     of_int (rm_QueueLength m) \<ge> sc_QueueLengthThreshold cfg"

text \<open>The loop of \<open>analyzeVariant\<close>: totals of spare KV, spare queue and KV usage beside the record.\<close>

record variant_totals =
  vt_spareKv :: gofloat
  vt_spareQueue :: gofloat
  vt_kvUsage :: gofloat
  vt_nonSat :: int
  vt_saturated :: "string list"
  vt_maxKv :: gofloat
  vt_maxQueue :: int

definition variant_step :: "saturation_scaling_config \<Rightarrow> replica_metrics \<Rightarrow> variant_totals \<Rightarrow> variant_totals" where
  "variant_step cfg m t =
     (let t1 = (if isSaturated cfg m then t\<lparr>vt_saturated := vt_saturated t @ [rm_PodName m]\<rparr>
                else t\<lparr>vt_spareKv := vt_spareKv t + (sc_KvCacheThreshold cfg - rm_KvCacheUsage m),
                       vt_spareQueue := vt_spareQueue t + (sc_QueueLengthThreshold cfg - of_int (rm_QueueLength m)),
                       vt_nonSat := vt_nonSat t + 1\<rparr>)
      in t1\<lparr>vt_maxKv := (if rm_KvCacheUsage m > vt_maxKv t1 then rm_KvCacheUsage m else vt_maxKv t1),
            vt_kvUsage := vt_kvUsage t1 + rm_KvCacheUsage m,
            vt_maxQueue := (if rm_QueueLength m > vt_maxQueue t1 then rm_QueueLength m else vt_maxQueue t1)\<rparr>)"

definition variant_totals_of :: "saturation_scaling_config \<Rightarrow> replica_metrics list \<Rightarrow> variant_totals" where
  "variant_totals_of cfg ms = fold (variant_step cfg) ms \<lparr>vt_spareKv = 0, vt_spareQueue = 0, vt_kvUsage = 0,
     vt_nonSat = 0, vt_saturated = [], vt_maxKv = 0, vt_maxQueue = 0\<rparr>"

definition analyzeVariant ::
  "saturation_scaling_config \<Rightarrow> string \<Rightarrow> replica_metrics list \<Rightarrow> variant_saturation" where
  "analyzeVariant cfg variantName metrics =
     (let t = variant_totals_of cfg metrics; n = vt_nonSat t in
      \<lparr>vs_VariantName = variantName,
       vs_AcceleratorName = (case metrics of [] \<Rightarrow> [] | m # _ \<Rightarrow> rm_AcceleratorName m),
       vs_Cost = (case metrics of [] \<Rightarrow> 0 | m # _ \<Rightarrow> rm_Cost m),
       vs_ReplicaCount = int (length metrics),
       vs_NonSaturatedCount = n,
       vs_MaxKvCacheUsage = vt_maxKv t,
       vs_AvgKvCacheUsage = (if metrics \<noteq> [] then vt_kvUsage t / real (length metrics) else 0),
       vs_MaxQueueLength = vt_maxQueue t,
       vs_AvgSpareKvCapacity = (if n > 0 then vt_spareKv t / of_int n else 0),
       vs_AvgSpareQueueLength = (if n > 0 then vt_spareQueue t / of_int n else 0),
       vs_SaturatedReplicas = vt_saturated t\<rparr>)"

definition shouldScaleUp ::
  "saturation_scaling_config \<Rightarrow> gofloat \<Rightarrow> gofloat \<Rightarrow> bool \<times> scale_up_reason" where
  "shouldScaleUp cfg avgSpareKv avgSpareQueue =
     (let kvTriggered = avgSpareKv < sc_KvSpareTrigger cfg;
          queueTriggered = avgSpareQueue < sc_QueueSpareTrigger cfg
      in if \<not> kvTriggered \<and> \<not> queueTriggered then (False, NoReason)
      else if kvTriggered \<and> queueTriggered then
        (True, BothLow avgSpareKv (sc_KvSpareTrigger cfg) avgSpareQueue (sc_QueueSpareTrigger cfg))
      else if kvTriggered then (True, KvLow avgSpareKv (sc_KvSpareTrigger cfg))
      else (True, QueueLow avgSpareQueue (sc_QueueSpareTrigger cfg)))"

definition isScaleDownSafe ::
  "saturation_scaling_config \<Rightarrow> int \<Rightarrow> gofloat \<Rightarrow> gofloat \<Rightarrow> bool" where
  "isScaleDownSafe cfg nonSaturatedCount avgSpareKv avgSpareQueue =
     (if nonSaturatedCount < MinNonSaturatedReplicasForScaleDown then False
      else
        let avgKvLoad = sc_KvCacheThreshold cfg - avgSpareKv;
            avgQueueLoad = sc_QueueLengthThreshold cfg - avgSpareQueue;
            remainingCount = nonSaturatedCount - 1;
            scaleFactor = of_int nonSaturatedCount / of_int remainingCount;
            remainingSpareKv = sc_KvCacheThreshold cfg - avgKvLoad * scaleFactor;
            remainingSpareQueue = sc_QueueLengthThreshold cfg - avgQueueLoad * scaleFactor
        in remainingSpareKv \<ge> sc_KvSpareTrigger cfg \<and> remainingSpareQueue \<ge> sc_QueueSpareTrigger cfg)"

text \<open>The metrics grouped by variant, in the order the variants are first met.\<close>

definition group_by_variant :: "replica_metrics list \<Rightarrow> (string, replica_metrics list) gomap" where
  "group_by_variant ms = fold (\<lambda>m g. mput (rm_VariantName m) (mget [] g (rm_VariantName m) @ [m]) g) ms []"

definition AnalyzeModelSaturation ::
  "string \<Rightarrow> string \<Rightarrow> replica_metrics list \<Rightarrow> saturation_scaling_config \<Rightarrow> model_saturation" where
  "AnalyzeModelSaturation modelID namespace metrics cfg =
     (if metrics = [] then
        \<lparr>ms_ModelID = modelID, ms_Namespace = namespace, ms_TotalReplicas = 0, ms_NonSaturatedCount = 0,
         ms_AvgSpareKvCapacity = 0, ms_AvgSpareQueueLength = 0, ms_ShouldScaleUp = False,
         ms_ScaleUpReason = NoReason, ms_ScaleDownSafe = False, ms_VariantAnalyses = []\<rparr>
      else
        let vas = map (\<lambda>(name, ms). analyzeVariant cfg name ms) (group_by_variant metrics);
            n = (\<Sum>va\<leftarrow>vas. vs_NonSaturatedCount va);
            totalKv = (\<Sum>va\<leftarrow>vas. vs_AvgSpareKvCapacity va * of_int (vs_NonSaturatedCount va));
            totalQueue = (\<Sum>va\<leftarrow>vas. vs_AvgSpareQueueLength va * of_int (vs_NonSaturatedCount va));
            avgKv = (if n > 0 then totalKv / of_int n else 0);
            avgQueue = (if n > 0 then totalQueue / of_int n else 0);
            (up, reason) = shouldScaleUp cfg avgKv avgQueue
        in \<lparr>ms_ModelID = modelID, ms_Namespace = namespace, ms_TotalReplicas = int (length metrics),
            ms_NonSaturatedCount = n, ms_AvgSpareKvCapacity = avgKv, ms_AvgSpareQueueLength = avgQueue,
            ms_ShouldScaleUp = up, ms_ScaleUpReason = reason,
            ms_ScaleDownSafe = isScaleDownSafe cfg n avgKv avgQueue, ms_VariantAnalyses = vas\<rparr>)"

section \<open>Targets\<close>

definition build_state_map :: "variant_replica_state list \<Rightarrow> (string, variant_replica_state) gomap" where
  "build_state_map ss = fold (\<lambda>s. mput (st_VariantName s) s) ss []"

definition desired_mismatch :: "variant_replica_state \<Rightarrow> bool" where
  "desired_mismatch s \<longleftrightarrow> st_DesiredReplicas s \<noteq> 0 \<and> st_DesiredReplicas s \<noteq> st_CurrentReplicas s"

definition modelInTransition :: "(string \<Rightarrow> variant_replica_state) \<Rightarrow> variant_saturation list \<Rightarrow> bool" where
  "modelInTransition state vas \<longleftrightarrow>
     list_ex (\<lambda>va. desired_mismatch (state (vs_VariantName va)) \<or>
                  st_PendingReplicas (state (vs_VariantName va)) > 0) vas"

definition pick_cheapest ::
  "(string \<Rightarrow> variant_replica_state) \<Rightarrow> variant_saturation list \<Rightarrow> variant_saturation option" where
  "pick_cheapest state vas = fold (\<lambda>va best.
     if st_PendingReplicas (state (vs_VariantName va)) > 0 then best
     else case best of
       None \<Rightarrow> Some va
     | Some b \<Rightarrow> if vs_Cost va < vs_Cost b \<or> vs_Cost va = vs_Cost b \<and> vs_VariantName va < vs_VariantName b
                then Some va else best) vas None"

definition pick_expensive :: "(string, int) gomap \<Rightarrow> variant_saturation list \<Rightarrow> variant_saturation option" where
  "pick_expensive targets vas = fold (\<lambda>va best.
     if mget 0 targets (vs_VariantName va) \<le> 1 then best
     else case best of
       None \<Rightarrow> Some va
     | Some b \<Rightarrow> if vs_Cost va > vs_Cost b \<or> vs_Cost va = vs_Cost b \<and> vs_VariantName va > vs_VariantName b
                then Some va else best) vas None"

text \<open>Both bounds are tested against the target before either is applied.\<close>

definition clamp_target :: "variant_replica_state \<Rightarrow> int \<Rightarrow> int" where
  "clamp_target s target =
     (let t1 = (case st_MinReplicas s of Some m \<Rightarrow> if target < m then m else target | None \<Rightarrow> target)
      in case st_MaxReplicas s of
           Some m \<Rightarrow> if m > 0 \<and> target > m then m else t1
         | None \<Rightarrow> t1)"

definition clamp_targets :: "variant_replica_state list \<Rightarrow> (string, int) gomap \<Rightarrow> (string, int) gomap" where
  "clamp_targets ss targets = fold (\<lambda>s ts.
     if mhas ts (st_VariantName s)
     then mput (st_VariantName s) (clamp_target s (mget 0 ts (st_VariantName s))) ts else ts) ss targets"

definition CalculateSaturationTargets ::
  "model_saturation option \<Rightarrow> variant_replica_state list \<Rightarrow> (string, int) gomap" where
  "CalculateSaturationTargets analysis ss =
     (case analysis of
        None \<Rightarrow> fold (\<lambda>s. mput (st_VariantName s) (st_CurrentReplicas s)) ss []
      | Some a \<Rightarrow>
          if ms_VariantAnalyses a = [] then fold (\<lambda>s. mput (st_VariantName s) (st_CurrentReplicas s)) ss []
          else
            let vas = ms_VariantAnalyses a;
                state = mget zero_state (build_state_map ss)
            in if modelInTransition state vas then
                 fold (\<lambda>va. let s = state (vs_VariantName va) in
                   mput (vs_VariantName va)
                     (if desired_mismatch s then st_DesiredReplicas s else st_CurrentReplicas s)) vas []
               else
                 let targets = fold (\<lambda>va. mput (vs_VariantName va)
                                       (st_CurrentReplicas (state (vs_VariantName va)))) vas [];
                     targets' =
                       (if ms_ShouldScaleUp a then
                          (case pick_cheapest state vas of
                             None \<Rightarrow> targets | Some va \<Rightarrow> madd (vs_VariantName va) 1 targets)
                        else if ms_ScaleDownSafe a then
                          (case pick_expensive targets vas of
                             None \<Rightarrow> targets | Some va \<Rightarrow> madd (vs_VariantName va) (- 1) targets)
                        else targets)
                 in clamp_targets ss targets')"

section \<open>Decisions\<close>

definition hasMinReplicasAboveZero :: "variant_replica_state list \<Rightarrow> bool" where
  "hasMinReplicasAboveZero ss =
     list_ex (\<lambda>s. case st_MinReplicas s of Some m \<Rightarrow> m > 0 | None \<Rightarrow> False) ss"

definition saturation_decision ::
  "model_saturation \<Rightarrow> variant_replica_state list \<Rightarrow> string \<times> int \<Rightarrow> variant_decision" where
  "saturation_decision a ss = (\<lambda>(variantName, target).
     let state = mget zero_state (build_state_map ss) variantName;
         va = map_of (fold (\<lambda>v. mput (vs_VariantName v) v) (ms_VariantAnalyses a) []) variantName;
         action = (if target > st_CurrentReplicas state then ActionScaleUp
                   else if target < st_CurrentReplicas state then ActionScaleDown else ActionNoChange);
         d = zero_decision\<lparr>d_VariantName := variantName, d_Namespace := ms_Namespace a,
               d_ModelID := ms_ModelID a, d_Role := st_Role state,
               d_CurrentReplicas := st_CurrentReplicas state, d_TargetReplicas := target,
               d_OriginalTargetReplicas := target, d_DesiredReplicas := st_DesiredReplicas state,
               d_SaturationBased := True, d_SaturationOnly := True,
               d_GPUsPerReplica := (if st_GPUsPerReplica state \<le> 0 then 1 else st_GPUsPerReplica state),
               d_MinReplicas := st_MinReplicas state, d_MaxReplicas := st_MaxReplicas state\<rparr>;
         d1 = SetDecisionReason action DecisionReasonSaturationOnly
                (DecisionReasonSaturationOnly @ '': '' @ action) d
     in case va of
          None \<Rightarrow> d1
        | Some v \<Rightarrow> d1\<lparr>d_AcceleratorName := vs_AcceleratorName v, d_Cost := vs_Cost v,
                       d_SpareCapacity := vs_AvgSpareKvCapacity v, d_Utilization := vs_AvgKvCacheUsage v\<rparr>)"

definition convertSaturationTargetsToDecisions ::
  "(string, int) gomap \<Rightarrow> model_saturation \<Rightarrow> variant_replica_state list \<Rightarrow> variant_decision list" where
  "convertSaturationTargetsToDecisions targets a ss = map (saturation_decision a ss) targets"

section \<open>Grouping does not change the averages\<close>

definition spare_kv :: "saturation_scaling_config \<Rightarrow> replica_metrics list \<Rightarrow> gofloat" where
  "spare_kv cfg ms = (\<Sum>m\<leftarrow>ms. if isSaturated cfg m then 0 else sc_KvCacheThreshold cfg - rm_KvCacheUsage m)"

definition spare_queue :: "saturation_scaling_config \<Rightarrow> replica_metrics list \<Rightarrow> gofloat" where
  "spare_queue cfg ms =
     (\<Sum>m\<leftarrow>ms. if isSaturated cfg m then 0 else sc_QueueLengthThreshold cfg - of_int (rm_QueueLength m))"

definition unsaturated :: "saturation_scaling_config \<Rightarrow> replica_metrics list \<Rightarrow> int" where
  "unsaturated cfg ms = (\<Sum>m\<leftarrow>ms. if isSaturated cfg m then 0 else 1)"

lemma unsaturated_nonneg: "0 \<le> unsaturated cfg ms"
  unfolding unsaturated_def by (rule sum_list_nonneg) auto

lemma unsaturated_zero: "unsaturated cfg ms = 0 \<Longrightarrow> spare_kv cfg ms = 0 \<and> spare_queue cfg ms = 0"
proof (induction ms)
  case (Cons m ms)
  have "0 \<le> unsaturated cfg ms" by (rule unsaturated_nonneg)
  with Cons show ?case by (auto simp: unsaturated_def spare_kv_def spare_queue_def split: if_splits)
qed (simp add: spare_kv_def spare_queue_def)

lemma variant_totals_sums:
  "vt_spareKv (variant_totals_of cfg ms) = spare_kv cfg ms"
  "vt_spareQueue (variant_totals_of cfg ms) = spare_queue cfg ms"
  "vt_nonSat (variant_totals_of cfg ms) = unsaturated cfg ms"
proof -
  have "vt_spareKv (fold (variant_step cfg) ms t) = vt_spareKv t + spare_kv cfg ms \<and>
      vt_spareQueue (fold (variant_step cfg) ms t) = vt_spareQueue t + spare_queue cfg ms \<and>
      vt_nonSat (fold (variant_step cfg) ms t) = vt_nonSat t + unsaturated cfg ms" for t
    by (induction ms arbitrary: t)
      (simp_all add: variant_step_def spare_kv_def spare_queue_def unsaturated_def Let_def)
  then show "vt_spareKv (variant_totals_of cfg ms) = spare_kv cfg ms"
    "vt_spareQueue (variant_totals_of cfg ms) = spare_queue cfg ms"
    "vt_nonSat (variant_totals_of cfg ms) = unsaturated cfg ms"
    by (simp_all add: variant_totals_of_def)
qed

lemma analyzeVariant_sums:
  "vs_NonSaturatedCount (analyzeVariant cfg n ms) = unsaturated cfg ms"
  "vs_AvgSpareKvCapacity (analyzeVariant cfg n ms) * of_int (vs_NonSaturatedCount (analyzeVariant cfg n ms))
     = spare_kv cfg ms"
  "vs_AvgSpareQueueLength (analyzeVariant cfg n ms) * of_int (vs_NonSaturatedCount (analyzeVariant cfg n ms))
     = spare_queue cfg ms"
  using unsaturated_zero [of cfg ms] unsaturated_nonneg [of cfg ms]
  by (auto simp: analyzeVariant_def Let_def variant_totals_sums)

lemma group_sums:
  assumes "F [] = (0 :: 'a :: ab_group_add)" and "\<And>ms m. F (ms @ [m]) = F ms + f m"
  shows "(\<Sum>(_, ms)\<leftarrow>group_by_variant metrics. F ms) = (\<Sum>m\<leftarrow>metrics. f m)"
proof -
  let ?g = "\<lambda>m g. mput (rm_VariantName m) (mget [] g (rm_VariantName m) @ [m]) g"
  have "wf_map g \<Longrightarrow> (\<Sum>(_, ms)\<leftarrow>fold ?g xs g. F ms) = (\<Sum>(_, ms)\<leftarrow>g. F ms) + (\<Sum>m\<leftarrow>xs. f m)" for xs g
  proof (induction xs arbitrary: g)
    case (Cons x xs)
    have "(\<Sum>(_, ms)\<leftarrow>?g x g. F ms) = (\<Sum>(_, ms)\<leftarrow>g. F ms) + f x"
      using sum_mput [of g F "[]", OF Cons.prems assms(1)] assms(2) by simp
    then show ?case using Cons.IH [of "?g x g"] Cons.prems by simp
  qed simp
  from this [of "[]" metrics] show ?thesis by (simp add: group_by_variant_def)
qed

lemma group_totals:
  "(\<Sum>(_, ms)\<leftarrow>group_by_variant metrics. unsaturated cfg ms) = unsaturated cfg metrics"
  "(\<Sum>(_, ms)\<leftarrow>group_by_variant metrics. spare_kv cfg ms) = spare_kv cfg metrics"
  "(\<Sum>(_, ms)\<leftarrow>group_by_variant metrics. spare_queue cfg ms) = spare_queue cfg metrics"
  unfolding unsaturated_def [of cfg metrics] spare_kv_def [of cfg metrics] spare_queue_def [of cfg metrics]
  by (rule group_sums; simp add: unsaturated_def spare_kv_def spare_queue_def)+

lemma AnalyzeModelSaturation_averages:
  fixes modelID namespace metrics cfg
  defines "a \<equiv> AnalyzeModelSaturation modelID namespace metrics cfg"
  defines "n \<equiv> unsaturated cfg metrics"
  shows "ms_NonSaturatedCount a = n"
    and "ms_AvgSpareKvCapacity a = (if n > 0 then spare_kv cfg metrics / of_int n else 0)"
    and "ms_AvgSpareQueueLength a = (if n > 0 then spare_queue cfg metrics / of_int n else 0)"
    and "metrics \<noteq> [] \<Longrightarrow> ms_ShouldScaleUp a =
      fst (shouldScaleUp cfg (ms_AvgSpareKvCapacity a) (ms_AvgSpareQueueLength a))"
    and "metrics \<noteq> [] \<Longrightarrow> ms_ScaleDownSafe a =
      isScaleDownSafe cfg n (ms_AvgSpareKvCapacity a) (ms_AvgSpareQueueLength a)"
    and "metrics = [] \<Longrightarrow> \<not> ms_ShouldScaleUp a \<and> \<not> ms_ScaleDownSafe a"
proof -
  let ?vas = "map (\<lambda>(name, ms). analyzeVariant cfg name ms) (group_by_variant metrics)"
  have sums: "(\<Sum>va\<leftarrow>?vas. vs_NonSaturatedCount va) = n"
    "(\<Sum>va\<leftarrow>?vas. vs_AvgSpareKvCapacity va * of_int (vs_NonSaturatedCount va)) = spare_kv cfg metrics"
    "(\<Sum>va\<leftarrow>?vas. vs_AvgSpareQueueLength va * of_int (vs_NonSaturatedCount va)) = spare_queue cfg metrics"
    unfolding n_def group_totals [where metrics = metrics and cfg = cfg, symmetric]
    by (simp_all add: comp_def case_prod_unfold analyzeVariant_sums(1))
      (simp_all add: analyzeVariant_sums(2,3) [unfolded analyzeVariant_sums(1)])
  have empty: "n = 0" "spare_kv cfg metrics = 0" "spare_queue cfg metrics = 0" if "metrics = []"
    using that by (simp_all add: n_def unsaturated_def spare_kv_def spare_queue_def)
  note A = AnalyzeModelSaturation_def [of modelID namespace metrics cfg, folded a_def,
      unfolded Let_def sums]
  show "ms_NonSaturatedCount a = n" using empty by (simp add: A split: prod.split)
  show kv: "ms_AvgSpareKvCapacity a = (if n > 0 then spare_kv cfg metrics / of_int n else 0)"
    using empty by (simp add: A split: prod.split)
  show q: "ms_AvgSpareQueueLength a = (if n > 0 then spare_queue cfg metrics / of_int n else 0)"
    using empty by (simp add: A split: prod.split)
  show "ms_ShouldScaleUp a = fst (shouldScaleUp cfg (ms_AvgSpareKvCapacity a) (ms_AvgSpareQueueLength a))"
    if "metrics \<noteq> []" unfolding kv q using that by (simp add: A split: prod.split)
  show "ms_ScaleDownSafe a = isScaleDownSafe cfg n (ms_AvgSpareKvCapacity a) (ms_AvgSpareQueueLength a)"
    if "metrics \<noteq> []" unfolding kv q using that by (simp add: A split: prod.split)
  show "\<not> ms_ShouldScaleUp a \<and> \<not> ms_ScaleDownSafe a" if "metrics = []" using that by (simp add: A)
qed

section \<open>Targets of a stable model\<close>

lemma mget_fold_mput:
  "mget 0 (fold (\<lambda>va. mput (f va) (g (f va))) vas m) v = (if v \<in> f ` set vas then g v else mget 0 m v)"
  by (induction vas arbitrary: m) auto

lemma mhas_fold_mput: "mhas (fold (\<lambda>va. mput (f va) (h va)) vas m) v \<longleftrightarrow> v \<in> f ` set vas \<or> mhas m v"
  by (induction vas arbitrary: m) auto

lemma mget_build_state_map:
  "distinct (map st_VariantName ss) \<Longrightarrow> s \<in> set ss \<Longrightarrow>
     mget zero_state (build_state_map ss) (st_VariantName s) = s"
proof -
  have "distinct (map st_VariantName xs) \<Longrightarrow> mget zero_state (fold (\<lambda>s. mput (st_VariantName s) s) xs m) n =
      (case find (\<lambda>s. st_VariantName s = n) xs of Some s \<Rightarrow> s | None \<Rightarrow> mget zero_state m n)" for xs m n
  proof (induction xs arbitrary: m)
    case (Cons x xs)
    have "st_VariantName x = n \<Longrightarrow> find (\<lambda>s. st_VariantName s = n) xs = None"
      using Cons.prems by (auto simp: find_None_iff image_iff)
    then show ?case using Cons by (auto split: option.split)
  qed simp
  moreover have "distinct (map st_VariantName xs) \<Longrightarrow> s \<in> set xs \<Longrightarrow>
      find (\<lambda>t. st_VariantName t = st_VariantName s) xs = Some s" for xs
    by (induction xs) force+
  ultimately show "distinct (map st_VariantName ss) \<Longrightarrow> s \<in> set ss \<Longrightarrow>
     mget zero_state (build_state_map ss) (st_VariantName s) = s"
    by (simp add: build_state_map_def)
qed

lemma mget_clamp_targets:
  "distinct (map st_VariantName ss) \<Longrightarrow> s \<in> set ss \<Longrightarrow> mhas ts (st_VariantName s) \<Longrightarrow>
     mget 0 (clamp_targets ss ts) (st_VariantName s) = clamp_target s (mget 0 ts (st_VariantName s))"
proof -
  let ?f = "\<lambda>s ts. if mhas ts (st_VariantName s)
     then mput (st_VariantName s) (clamp_target s (mget 0 ts (st_VariantName s))) ts else ts"
  have skip: "n \<notin> st_VariantName ` set xs \<Longrightarrow> mget 0 (fold ?f xs ts) n = mget 0 ts n" for xs ts n
    by (induction xs arbitrary: ts) auto
  have "distinct (map st_VariantName xs) \<Longrightarrow> s \<in> set xs \<Longrightarrow> mhas ts (st_VariantName s) \<Longrightarrow>
      mget 0 (fold ?f xs ts) (st_VariantName s) = clamp_target s (mget 0 ts (st_VariantName s))" for xs ts
  proof (induction xs arbitrary: ts)
    case (Cons x xs)
    show ?case
    proof (cases "s = x")
      case True
      then show ?thesis using Cons.prems skip [of "st_VariantName x" xs] by simp
    next
      case False
      then have s: "s \<in> set xs" using Cons.prems by simp
      then have "st_VariantName s \<noteq> st_VariantName x" using Cons.prems(1) by (auto simp: image_iff)
      then show ?thesis using Cons.IH [of "?f x ts"] Cons.prems s by simp
    qed
  qed simp
  then show "distinct (map st_VariantName ss) \<Longrightarrow> s \<in> set ss \<Longrightarrow> mhas ts (st_VariantName s) \<Longrightarrow>
     mget 0 (clamp_targets ss ts) (st_VariantName s) = clamp_target s (mget 0 ts (st_VariantName s))"
    by (simp add: clamp_targets_def)
qed

lemma fold_pick:
  assumes "fold (\<lambda>va best. if skip va then best else case best of None \<Rightarrow> Some va
           | Some b \<Rightarrow> if better va b then Some va else best) vas best = Some r"
  shows "best = Some r \<or> r \<in> set vas \<and> \<not> skip r"
  using assms
  by (induction vas arbitrary: best) (auto split: if_splits option.splits)

lemma pick_cheapest_in: "pick_cheapest st vas = Some va \<Longrightarrow> va \<in> set vas"
  unfolding pick_cheapest_def using fold_pick by fastforce

lemma pick_expensive_in:
  "pick_expensive ts vas = Some va \<Longrightarrow> va \<in> set vas \<and> 1 < mget 0 ts (vs_VariantName va)"
  unfolding pick_expensive_def using fold_pick by fastforce

lemma pick_cheapest_some:
  assumes "\<forall>va\<in>set vas. \<not> 0 < st_PendingReplicas (st (vs_VariantName va))" and "vas \<noteq> []"
  shows "pick_cheapest st vas \<noteq> None"
proof -
  have "\<forall>va\<in>set xs. \<not> 0 < st_PendingReplicas (st (vs_VariantName va)) \<Longrightarrow> best \<noteq> None \<Longrightarrow>
    fold (\<lambda>va best. if 0 < st_PendingReplicas (st (vs_VariantName va)) then best
     else case best of None \<Rightarrow> Some va | Some b \<Rightarrow>
       if vs_Cost va < vs_Cost b \<or> vs_Cost va = vs_Cost b \<and> vs_VariantName va < vs_VariantName b
       then Some va else best) xs best \<noteq> None" for xs best
    by (induction xs arbitrary: best) auto
  then show ?thesis using assms unfolding pick_cheapest_def by (cases vas) auto
qed

section \<open>Properties\<close>

definition kv_load :: "saturation_scaling_config \<Rightarrow> replica_metrics list \<Rightarrow> gofloat" where
  "kv_load cfg ms = (\<Sum>m\<leftarrow>ms. if isSaturated cfg m then 0 else rm_KvCacheUsage m)"

definition queue_load :: "saturation_scaling_config \<Rightarrow> replica_metrics list \<Rightarrow> gofloat" where
  "queue_load cfg ms = (\<Sum>m\<leftarrow>ms. if isSaturated cfg m then 0 else of_int (rm_QueueLength m))"

lemma spare_load:
  "spare_kv cfg ms = of_int (unsaturated cfg ms) * sc_KvCacheThreshold cfg - kv_load cfg ms"
  "spare_queue cfg ms = of_int (unsaturated cfg ms) * sc_QueueLengthThreshold cfg - queue_load cfg ms"
  by (induction ms) (simp_all add: spare_kv_def spare_queue_def unsaturated_def kv_load_def queue_load_def
      algebra_simps)

text \<open>Spreading the load of \<open>n\<close> replicas over one less, in the analyzer's formula.\<close>

lemma redistribute:
  fixes t load n :: real
  assumes "2 \<le> n"
  shows "t - (t - (n * t - load) / n) * n / (n - 1) = t - load / (n - 1)"
proof -
  have "(t - (n * t - load) / n) * n / (n - 1) = load / (n - 1)"
    using assms by (simp add: field_simps)
  then show ?thesis by simp
qed

definition ex_metric :: "string \<Rightarrow> gofloat \<Rightarrow> gofloat \<Rightarrow> int \<Rightarrow> replica_metrics" where
  "ex_metric v cost kv q = \<lparr>rm_PodName = v @ ''-0'', rm_VariantName = v, rm_AcceleratorName = ''A100'',
     rm_Cost = cost, rm_KvCacheUsage = kv, rm_QueueLength = q\<rparr>"

definition ex_thresholds :: saturation_scaling_config where
  "ex_thresholds = ApplyDefaults zero_config"

lemma ex_thresholds_fields:
  "sc_KvCacheThreshold ex_thresholds = 8 / 10" "sc_QueueLengthThreshold ex_thresholds = 5"
  "sc_KvSpareTrigger ex_thresholds = 1 / 10" "sc_QueueSpareTrigger ex_thresholds = 3"
  by (simp_all add: ex_thresholds_def ApplyDefaults_fields default_to_def default_thresholds zero_config_def)

text \<open>C28. The analysis of a model does not depend on how its replicas are spread over variants: the
  averages it reports are those over all its unsaturated replicas, and the two recommendations are
  the tests of these averages.\<close>

theorem averages_ignore_grouping:
  fixes modelID namespace metrics cfg
  assumes "metrics \<noteq> []"
  defines "a \<equiv> AnalyzeModelSaturation modelID namespace metrics cfg"
  defines "free \<equiv> filter (\<lambda>m. \<not> isSaturated cfg m) metrics"
  defines "kv \<equiv> (if free = [] then 0
    else (\<Sum>m\<leftarrow>free. sc_KvCacheThreshold cfg - rm_KvCacheUsage m) / real (length free))"
  defines "q \<equiv> (if free = [] then 0
    else (\<Sum>m\<leftarrow>free. sc_QueueLengthThreshold cfg - of_int (rm_QueueLength m)) / real (length free))"
  shows "ms_NonSaturatedCount a = int (length free) \<and> ms_AvgSpareKvCapacity a = kv \<and>
    ms_AvgSpareQueueLength a = q \<and> ms_ShouldScaleUp a = fst (shouldScaleUp cfg kv q) \<and>
    ms_ScaleDownSafe a = isScaleDownSafe cfg (int (length free)) kv q"
proof -
  note A = AnalyzeModelSaturation_averages [where modelID = modelID and namespace = namespace and
      metrics = metrics and cfg = cfg, folded a_def]
  have n: "unsaturated cfg metrics = int (length free)"
    unfolding unsaturated_def free_def by (induction metrics) auto
  have k: "spare_kv cfg metrics = (\<Sum>m\<leftarrow>free. sc_KvCacheThreshold cfg - rm_KvCacheUsage m)"
    unfolding spare_kv_def free_def by (induction metrics) auto
  have u: "spare_queue cfg metrics = (\<Sum>m\<leftarrow>free. sc_QueueLengthThreshold cfg - of_int (rm_QueueLength m))"
    unfolding spare_queue_def free_def by (induction metrics) auto
  have kv: "ms_AvgSpareKvCapacity a = kv" and q: "ms_AvgSpareQueueLength a = q"
    using A(2,3) by (simp_all add: n k u kv_def q_def)
  show ?thesis using A(1) A(4,5) [OF assms(1)] by (simp add: n kv q)
qed

theorem averages_ignore_grouping_witness:
  "ms_NonSaturatedCount (AnalyzeModelSaturation ''m'' ''ns''
     [ex_metric ''a'' 1 (1 / 10) 0, ex_metric ''b'' 2 (9 / 10) 0, ex_metric ''a'' 1 (3 / 10) 1] ex_thresholds) = 2"
  using averages_ignore_grouping [of "[ex_metric ''a'' 1 (1 / 10) 0, ex_metric ''b'' 2 (9 / 10) 0,
      ex_metric ''a'' 1 (3 / 10) 1]" "''m''" "''ns''" ex_thresholds]
  by (simp add: isSaturated_def ex_metric_def ex_thresholds_fields)

text \<open>C29. When the analyzer calls a scale-down safe, at least two replicas are unsaturated, it does not
  ask for a scale-up at the same time, and spreading the load of the unsaturated replicas over one
  replica less would not make it ask for one: scaling down cannot cause the next scale-up.\<close>

theorem scale_down_leaves_headroom:
  assumes "ms_ScaleDownSafe (AnalyzeModelSaturation modelID namespace metrics cfg)"
    and "\<forall>m\<in>set metrics. 0 \<le> rm_KvCacheUsage m \<and> 0 \<le> rm_QueueLength m"
  defines "n \<equiv> unsaturated cfg metrics"
  shows "2 \<le> n \<and> \<not> ms_ShouldScaleUp (AnalyzeModelSaturation modelID namespace metrics cfg) \<and>
    \<not> fst (shouldScaleUp cfg
      (sc_KvCacheThreshold cfg - kv_load cfg metrics / of_int (n - 1))
      (sc_QueueLengthThreshold cfg - queue_load cfg metrics / of_int (n - 1)))"
proof -
  let ?a = "AnalyzeModelSaturation modelID namespace metrics cfg"
  note A = AnalyzeModelSaturation_averages [where modelID = modelID and namespace = namespace and
      metrics = metrics and cfg = cfg, folded n_def]
  have ne: "metrics \<noteq> []" using assms(1) A(6) by blast
  have safe: "isScaleDownSafe cfg n (ms_AvgSpareKvCapacity ?a) (ms_AvgSpareQueueLength ?a)"
    using assms(1) A(5) [OF ne] by simp
  then have n: "2 \<le> n"
    by (simp add: isScaleDownSafe_def MinNonSaturatedReplicasForScaleDown_def split: if_splits)
  have kv: "ms_AvgSpareKvCapacity ?a = (of_int n * sc_KvCacheThreshold cfg - kv_load cfg metrics) / of_int n"
    and q: "ms_AvgSpareQueueLength ?a = (of_int n * sc_QueueLengthThreshold cfg - queue_load cfg metrics) / of_int n"
    using A(2,3) n by (simp_all add: spare_load n_def)
  have r: "2 \<le> real_of_int n" using n by linarith
  have left: "sc_KvSpareTrigger cfg \<le> sc_KvCacheThreshold cfg - kv_load cfg metrics / (of_int n - 1)"
    "sc_QueueSpareTrigger cfg \<le> sc_QueueLengthThreshold cfg - queue_load cfg metrics / (of_int n - 1)"
    using safe n unfolding isScaleDownSafe_def Let_def kv q
    by (simp_all add: redistribute [OF r] MinNonSaturatedReplicasForScaleDown_def)
  have load: "0 \<le> kv_load cfg metrics" "0 \<le> queue_load cfg metrics"
    unfolding kv_load_def queue_load_def by (rule sum_list_nonneg; use assms(2) in auto)+
  have spread: "x / of_int n \<le> x / (of_int n - 1)" if "0 \<le> x" for x :: real
    using r that by (intro divide_left_mono) auto
  have "ms_AvgSpareKvCapacity ?a = sc_KvCacheThreshold cfg - kv_load cfg metrics / of_int n"
    "ms_AvgSpareQueueLength ?a = sc_QueueLengthThreshold cfg - queue_load cfg metrics / of_int n"
    unfolding kv q using r by (simp_all add: field_simps)
  then have "sc_KvSpareTrigger cfg \<le> ms_AvgSpareKvCapacity ?a" "sc_QueueSpareTrigger cfg \<le> ms_AvgSpareQueueLength ?a"
    using left spread load by (smt (verit))+
  then show ?thesis using n left A(4) [OF ne] by (simp add: shouldScaleUp_def Let_def)
qed

theorem scale_down_leaves_headroom_witness:
  "\<not> ms_ShouldScaleUp (AnalyzeModelSaturation ''m'' ''ns''
     [ex_metric ''a'' 1 (1 / 10) 0, ex_metric ''a'' 1 (2 / 10) 0] ex_thresholds)"
proof -
  let ?ms = "[ex_metric ''a'' 1 (1 / 10) 0, ex_metric ''a'' 1 (2 / 10) 0]"
  have "ms_ScaleDownSafe (AnalyzeModelSaturation ''m'' ''ns'' ?ms ex_thresholds)"
    by (simp add: AnalyzeModelSaturation_averages spare_kv_def spare_queue_def unsaturated_def isSaturated_def
        ex_metric_def ex_thresholds_fields isScaleDownSafe_def MinNonSaturatedReplicasForScaleDown_def)
  from scale_down_leaves_headroom [OF this] show ?thesis by (simp add: ex_metric_def)
qed

text \<open>In a model that is not in transition, at most one variant is moved, by one replica, before the
  bounds of the variants are applied: up by one when the analysis asks for it (then one variant is
  always chosen), down by one only when it is safe and the variant has at least two replicas.  The
  target of every variant with a known state is that count clamped by its bounds.\<close>

theorem one_replica_per_cycle:
  assumes "distinct (map st_VariantName ss)" and "ms_VariantAnalyses a \<noteq> []"
    and "\<not> modelInTransition (mget zero_state (build_state_map ss)) (ms_VariantAnalyses a)"
  shows "\<exists>w \<delta>. (if ms_ShouldScaleUp a then \<delta> = 1 else \<delta> = 0 \<or> \<delta> = - 1 \<and> ms_ScaleDownSafe a) \<and>
    (\<forall>s\<in>set ss. st_VariantName s \<in> vs_VariantName ` set (ms_VariantAnalyses a) \<longrightarrow>
       mget 0 (CalculateSaturationTargets (Some a) ss) (st_VariantName s) =
         clamp_target s (st_CurrentReplicas s + (if st_VariantName s = w then \<delta> else 0)) \<and>
       (st_VariantName s = w \<and> \<delta> = - 1 \<longrightarrow> 2 \<le> st_CurrentReplicas s))"
proof -
  let ?vas = "ms_VariantAnalyses a" and ?st = "mget zero_state (build_state_map ss)"
  define t0 where "t0 = fold (\<lambda>va. mput (vs_VariantName va) (st_CurrentReplicas (?st (vs_VariantName va)))) ?vas []"
  have t0: "mget 0 t0 v = st_CurrentReplicas (?st v)" "mhas t0 v" if "v \<in> vs_VariantName ` set ?vas" for v
    using that mget_fold_mput [of vs_VariantName "\<lambda>n. st_CurrentReplicas (?st n)" ?vas "[]" v]
      mhas_fold_mput [of vs_VariantName _ ?vas "[]" v] by (simp_all add: t0_def)
  have step: "CalculateSaturationTargets (Some a) ss = clamp_targets ss
      (if ms_ShouldScaleUp a then (case pick_cheapest ?st ?vas of
           None \<Rightarrow> t0 | Some va \<Rightarrow> madd (vs_VariantName va) 1 t0)
       else if ms_ScaleDownSafe a then (case pick_expensive t0 ?vas of
           None \<Rightarrow> t0 | Some va \<Rightarrow> madd (vs_VariantName va) (- 1) t0) else t0)"
    unfolding t0_def using assms(2,3) by (simp add: CalculateSaturationTargets_def Let_def)
  have *: "mget 0 (clamp_targets ss (madd w \<delta> t0)) (st_VariantName s) =
      clamp_target s (st_CurrentReplicas s + (if st_VariantName s = w then \<delta> else 0))"
    if "s \<in> set ss" "st_VariantName s \<in> vs_VariantName ` set ?vas" for s w \<delta>
    using mget_clamp_targets [OF assms(1) that(1)] t0 [OF that(2)] mget_build_state_map [OF assms(1) that(1)]
    by simp
  have **: "mget 0 (clamp_targets ss t0) (st_VariantName s) = clamp_target s (st_CurrentReplicas s)"
    if "s \<in> set ss" "st_VariantName s \<in> vs_VariantName ` set ?vas" for s
    using mget_clamp_targets [OF assms(1) that(1)] t0 [OF that(2)] mget_build_state_map [OF assms(1) that(1)]
    by simp
  have idle: "\<forall>va\<in>set ?vas. \<not> 0 < st_PendingReplicas (?st (vs_VariantName va))"
    using assms(3) by (auto simp: modelInTransition_def list_ex_iff)
  consider (up) va where "ms_ShouldScaleUp a" "pick_cheapest ?st ?vas = Some va"
    | (down) va where "\<not> ms_ShouldScaleUp a" "ms_ScaleDownSafe a" "pick_expensive t0 ?vas = Some va"
    | (rest) "\<not> ms_ShouldScaleUp a" "CalculateSaturationTargets (Some a) ss = clamp_targets ss t0"
    using pick_cheapest_some [OF idle assms(2)] step
    by (cases "pick_expensive t0 ?vas"; cases "ms_ShouldScaleUp a"; cases "ms_ScaleDownSafe a") auto
  then show ?thesis
  proof cases
    case up
    then show ?thesis using * by (intro exI [of _ "vs_VariantName va"] exI [of _ 1]) (simp add: step)
  next
    case down
    have "2 \<le> st_CurrentReplicas s" if "s \<in> set ss" "st_VariantName s = vs_VariantName va" for s
      using pick_expensive_in [OF down(3)] t0 [of "vs_VariantName va"]
        mget_build_state_map [OF assms(1) that(1)] that(2) by simp
    then show ?thesis using * down
      by (intro exI [of _ "vs_VariantName va"] exI [of _ "- 1"]) (simp add: step)
  next
    case rest
    then show ?thesis using ** by (intro exI [of _ "[]"] exI [of _ 0]) simp
  qed
qed

definition ex_state :: "string \<Rightarrow> int \<Rightarrow> int option \<Rightarrow> variant_replica_state" where
  "ex_state v cur mx = zero_state\<lparr>st_VariantName := v, st_CurrentReplicas := cur, st_MaxReplicas := mx\<rparr>"

definition ex_saturated :: model_saturation where
  "ex_saturated = AnalyzeModelSaturation ''m'' ''ns''
     [ex_metric ''cheap'' 1 (9 / 10) 9, ex_metric ''dear'' 2 (9 / 10) 9] ex_thresholds"

theorem one_replica_per_cycle_witness:
  "\<exists>w \<delta>. \<delta> = 1 \<and> (\<forall>s\<in>set [ex_state ''cheap'' 1 None, ex_state ''dear'' 3 None].
     mget 0 (CalculateSaturationTargets (Some ex_saturated)
       [ex_state ''cheap'' 1 None, ex_state ''dear'' 3 None]) (st_VariantName s) =
         clamp_target s (st_CurrentReplicas s + (if st_VariantName s = w then \<delta> else 0)))"
proof -
  let ?ss = "[ex_state ''cheap'' 1 None, ex_state ''dear'' 3 None]"
  have names: "map vs_VariantName (ms_VariantAnalyses ex_saturated) = [''cheap'', ''dear'']"
    by (simp add: ex_saturated_def AnalyzeModelSaturation_def group_by_variant_def ex_metric_def
        analyzeVariant_def Let_def split: prod.split)
  then have set_names: "vs_VariantName ` set (ms_VariantAnalyses ex_saturated) = {''cheap'', ''dear''}"
    by (metis list.set_map list.set(1,2) empty_set)
  have up: "ms_ShouldScaleUp ex_saturated"
    by (simp add: ex_saturated_def AnalyzeModelSaturation_averages unsaturated_def isSaturated_def
        ex_metric_def ex_thresholds_fields shouldScaleUp_def Let_def)
  have "\<not> modelInTransition (mget zero_state (build_state_map ?ss)) (ms_VariantAnalyses ex_saturated)"
    using set_names by (auto simp: modelInTransition_def list_ex_iff build_state_map_def ex_state_def
        desired_mismatch_def zero_state_def)
  moreover have "ms_VariantAnalyses ex_saturated \<noteq> []" using names by auto
  ultimately show ?thesis
    using one_replica_per_cycle [of ?ss ex_saturated] up by (auto simp: set_names ex_state_def)
qed


end
