(* ===== verification/Saturation_V2.thy ===== *)
theory Saturation_V2
  imports Capacity_Store Role_Totals Saturation_V1
begin

text \<open>
  The token-based saturation analyzer (\<open>saturation_v2/analyzer.go\<close>): the capacity of each
  replica as the smaller of a memory bound and a compute bound, its demand including the requests
  that wait, and the aggregation over variants, roles and the model.  The analyzer keeps a history of
  observed compute capacities and the capacity store; both are threaded through.  A cancelled context
  is an argument that tells at which replica it is noticed.  One call is one instant of the clock.
  Conversions to \<open>int64\<close> cut the fraction off; sums of 64-bit counts wrap around.
\<close>

section \<open>Inputs and state\<close>

record replica_metrics_v2 = replica_metrics +
  rm_NumGpuBlocks :: int
  rm_BlockSize :: int
  rm_TotalKvCapacityTokens :: int
  rm_TokensInUse :: int
  rm_AvgOutputTokens :: gofloat
  rm_AvgInputTokens :: gofloat
  rm_PrefixCacheHitRate :: gofloat
  rm_FreshnessStatus :: "string option"
  rm_ArrivalRate :: gofloat
  rm_AvgITL :: gofloat
  rm_GenerationTokenRate :: gofloat
  rm_KvUsageInstant :: gofloat
  rm_RequestRate :: gofloat

record scheduler_queue =
  sq_QueueSize :: int
  sq_QueueBytes :: int

text \<open>A report without metadata has no freshness status.  The dynamic type of \<open>Config\<close> is checked at run time: \<^const>\<open>None\<close> is any other type.\<close>

record analyzer_input =
  in_ModelID :: string
  in_Namespace :: string
  in_ReplicaMetrics :: "replica_metrics_v2 list"
  in_VariantStates :: "variant_replica_state list"
  in_Config :: "saturation_scaling_config option"
  in_SchedulerQueue :: "scheduler_queue option"
  in_ArrivalRate :: gofloat

datatype k2_source = K2Observed | K2Historical | K2Derived | K2Fallback

primrec k2_label :: "k2_source \<Rightarrow> string" where
  "k2_label K2Observed = ''P1-obs''"
| "k2_label K2Historical = ''P2-hist''"
| "k2_label K2Derived = ''P3-k2''"
| "k2_label K2Fallback = ''P4-k1''"

definition satReasonP0Store :: string where "satReasonP0Store = ''P0-store''"

record replica_capacity =
  rp_PodName :: string
  rp_VariantName :: string
  rp_AcceleratorName :: string
  rp_TokensInUse :: int
  rp_TotalKvCapacityTokens :: int
  rp_MemoryBoundCapacity :: int
  rp_ComputeBoundCapacity :: int
  rp_K2Priority :: k2_source
  rp_EffectiveCapacity :: int
  rp_IsSaturated :: bool
  rp_ReplicaDemand :: int

record sat_state =
  ss_history :: "(string, rolling_average) gomap"
  ss_store :: capacity_store

definition NewSaturationAnalyzer :: "capacity_store \<Rightarrow> sat_state" where
  "NewSaturationAnalyzer store = \<lparr>ss_history = [], ss_store = store\<rparr>"

definition EvictStaleHistory :: "int \<Rightarrow> int \<Rightarrow> sat_state \<Rightarrow> int \<times> sat_state" where
  "EvictStaleHistory now timeout st =
     (let old = (\<lambda>p. now - ra_lastUpdated (snd p) > timeout) in
      (int (length (filter old (ss_history st))), st\<lparr>ss_history := filter (\<lambda>p. \<not> old p) (ss_history st)\<rparr>))"

definition classifyOutputLength :: "gofloat \<Rightarrow> string" where
  "classifyOutputLength avgOutputTokens =
     (if avgOutputTokens < 100 then ''short'' else if avgOutputTokens < 500 then ''medium'' else ''long'')"

section \<open>Demand\<close>

definition waitingQueueDemand :: "'a replica_metrics_v2_scheme \<Rightarrow> string \<Rightarrow> int" where
  "waitingQueueDemand rm role =
     (if rm_QueueLength rm \<le> 0 then 0
      else let tokensPerRequest = rm_AvgInputTokens rm +
                 (if canon_role role \<noteq> RolePrefill then rm_AvgOutputTokens rm else 0);
               demand = of_int (rm_QueueLength rm) * tokensPerRequest
           in if \<not> demand > 0 \<or> demand \<ge> 2 ^ 63 then 0 else go_trunc demand)"

definition has_tokens :: "'a replica_metrics_v2_scheme \<Rightarrow> bool" where
  "has_tokens rm \<longleftrightarrow> rm_AvgInputTokens rm > 0 \<or> rm_AvgOutputTokens rm > 0"

definition mean_of :: "('m \<Rightarrow> gofloat) \<Rightarrow> 'm list \<Rightarrow> gofloat" where
  "mean_of f xs = (if xs = [] then 0 else (\<Sum>x\<leftarrow>xs. f x) / of_nat (length xs))"

definition computeModelWorkloadAverages :: "replica_metrics_v2 list \<Rightarrow> gofloat \<times> gofloat \<times> gofloat" where
  "computeModelWorkloadAverages rms =
     (let live = filter has_tokens rms in
      (mean_of rm_AvgInputTokens live, mean_of rm_AvgOutputTokens live, mean_of rm_PrefixCacheHitRate live))"

definition BytesPerToken :: gofloat where "BytesPerToken = 4"

definition estimateSchedulerQueueDemand :: "scheduler_queue option \<Rightarrow> replica_metrics_v2 list \<Rightarrow> string list \<Rightarrow>
    gofloat \<times> (string, gofloat) gomap" where
  "estimateSchedulerQueueDemand sq rms activeRoles = (case sq of
     None \<Rightarrow> (0, [])
   | Some q \<Rightarrow>
      if sq_QueueSize q = 0 \<and> sq_QueueBytes q = 0 then (0, [])
      else let (avgInput, avgOutput, avgHitRate) = computeModelWorkloadAverages rms;
               tokensFromBytes = of_int (sq_QueueBytes q) / BytesPerToken;
               tokensFromCount = of_int (sq_QueueSize q) * avgInput;
               inputTokens = (if tokensFromCount > tokensFromBytes then tokensFromCount else tokensFromBytes) * (1 - avgHitRate);
               outputTokens = of_int (sq_QueueSize q) * avgOutput
           in (inputTokens + outputTokens,
               fold (\<lambda>role. mput role (if role = RolePrefill then inputTokens else inputTokens + outputTokens)) activeRoles []))"

section \<open>The capacity of a replica\<close>

definition estimateCapacityFromParams :: "engine_params option \<Rightarrow> gofloat \<Rightarrow> gofloat \<Rightarrow> int" where
  "estimateCapacityFromParams params avgInput avgOutput = (case params of
     None \<Rightarrow> 0
   | Some p \<Rightarrow>
      if ep_EffectiveMaxBatchedTokens p \<le> 0 \<or> avgOutput \<le> 0 then 0
      else let n = of_int (ep_EffectiveMaxBatchedTokens p) * avgOutput / (avgInput + avgOutput);
               nSteady = (if n > of_int (ep_MaxNumSeqs p) then of_int (ep_MaxNumSeqs p) else n);
               k2Derived = go_trunc (nSteady * (avgInput + avgOutput / 2))
           in if k2Derived > 0 then k2Derived else 0)"

definition historyKey :: "string \<Rightarrow> string \<Rightarrow> int \<Rightarrow> gofloat \<Rightarrow> string" where
  "historyKey modelID accelerator gpuCount avgOutput =
     modelID @ ''|'' @ accelerator @ ''|'' @ itoa gpuCount @ ''|'' @ classifyOutputLength avgOutput"

definition computeK2 :: "int \<Rightarrow> string \<Rightarrow> string \<Rightarrow> int \<Rightarrow> int \<Rightarrow> int \<Rightarrow> gofloat \<Rightarrow> gofloat \<Rightarrow> gofloat \<Rightarrow>
    engine_params option \<Rightarrow> int \<Rightarrow> sat_state \<Rightarrow> (int \<times> k2_source) \<times> sat_state" where
  "computeK2 now modelID accelerator gpuCount queueLen tokensInUse avgOutput avgInput queueThreshold engineParams k1 st =
     (let key = historyKey modelID accelerator gpuCount avgOutput in
      if queueLen \<ge> go_trunc queueThreshold \<and> tokensInUse > 0 then
        (let ra = mget (newRollingAverage now RollingAverageWindowSize) (ss_history st) key in
         ((tokensInUse, K2Observed), st\<lparr>ss_history := mput key (ra_Add now (of_int tokensInUse) ra) (ss_history st)\<rparr>))
      else let histAvg = (case map_of (ss_history st) key of Some ra \<Rightarrow> ra_Average ra | None \<Rightarrow> 0);
               k2Derived = estimateCapacityFromParams engineParams avgInput avgOutput
           in if histAvg > 0 then ((go_trunc histAvg, K2Historical), st)
              else if k2Derived > 0 then ((k2Derived, K2Derived), st)
              else ((k1, K2Fallback), st))"

definition computeReplicaCapacityFallback :: "replica_metrics_v2 \<Rightarrow> saturation_scaling_config \<Rightarrow> string \<Rightarrow> string \<Rightarrow> string \<Rightarrow>
    sat_state \<Rightarrow> replica_capacity option" where
  "computeReplicaCapacityFallback rm cfg modelID namespace role st =
     (case cs_Get (ss_store st) namespace modelID (rm_VariantName rm) of
        None \<Rightarrow> None
      | Some r \<Rightarrow>
         if cr_EffectiveCapacity r \<le> 0 then None
         else let effectiveCapacity = go_trunc (of_int (cr_EffectiveCapacity r) * sc_KvCacheThreshold cfg) in
           if effectiveCapacity \<le> 0 then None
           else let replicaDemand = wrap64 (go_trunc (rm_KvCacheUsage rm * of_int effectiveCapacity) + waitingQueueDemand rm role)
             in Some \<lparr>rp_PodName = rm_PodName rm, rp_VariantName = rm_VariantName rm,
               rp_AcceleratorName = rm_AcceleratorName rm, rp_TokensInUse = replicaDemand,
               rp_TotalKvCapacityTokens = effectiveCapacity, rp_MemoryBoundCapacity = effectiveCapacity,
               rp_ComputeBoundCapacity = effectiveCapacity, rp_K2Priority = K2Fallback,
               rp_EffectiveCapacity = effectiveCapacity, rp_IsSaturated = (replicaDemand \<ge> effectiveCapacity),
               rp_ReplicaDemand = replicaDemand\<rparr>)"

text \<open>The record written for a replica with cache data; the store stamps it.\<close>

definition live_record :: "replica_metrics_v2 \<Rightarrow> int \<Rightarrow> int \<Rightarrow> engine_params option \<Rightarrow> capacity_record" where
  "live_record rm gpuCount effectiveCapacity params =
     \<lparr>cr_AcceleratorName = rm_AcceleratorName rm, cr_GpuCount = gpuCount, cr_NumGpuBlocks = rm_NumGpuBlocks rm,
      cr_BlockSize = rm_BlockSize rm, cr_TotalKvCapacityTokens = rm_TotalKvCapacityTokens rm,
      cr_EffectiveCapacity = effectiveCapacity, cr_EngineParams = params, cr_LearnedFrom = learnedFromLive, cr_LearnedAt = 0\<rparr>"

definition known_params :: "sat_state \<Rightarrow> string \<Rightarrow> string \<Rightarrow> string \<Rightarrow> engine_params option" where
  "known_params st namespace modelID variantName =
     (case cs_Get (ss_store st) namespace modelID variantName of Some r \<Rightarrow> cr_EngineParams r | None \<Rightarrow> None)"

definition computeReplicaCapacity :: "int \<Rightarrow> replica_metrics_v2 \<Rightarrow> saturation_scaling_config \<Rightarrow> string \<Rightarrow> string \<Rightarrow> int \<Rightarrow>
    string \<Rightarrow> sat_state \<Rightarrow> replica_capacity option \<times> sat_state" where
  "computeReplicaCapacity now rm cfg modelID namespace gpuCount role st =
     (if rm_TotalKvCapacityTokens rm \<le> 0 then (computeReplicaCapacityFallback rm cfg modelID namespace role st, st)
      else let replicaDemand = wrap64 (rm_TokensInUse rm + waitingQueueDemand rm role);
               k1 = go_trunc (of_int (rm_TotalKvCapacityTokens rm) * sc_KvCacheThreshold cfg);
               engineParams = known_params st namespace modelID (rm_VariantName rm);
               ((k2, k2Priority), st1) = computeK2 now modelID (rm_AcceleratorName rm) gpuCount (rm_QueueLength rm)
                 (rm_TokensInUse rm) (rm_AvgOutputTokens rm) (rm_AvgInputTokens rm) (sc_QueueLengthThreshold cfg)
                 engineParams k1 st;
               effectiveCapacity = (if k2 < k1 then k2 else k1);
               st2 = st1\<lparr>ss_store := cs_Update now namespace modelID (rm_VariantName rm)
                 (live_record rm gpuCount effectiveCapacity engineParams) (ss_store st1)\<rparr>
           in (Some \<lparr>rp_PodName = rm_PodName rm, rp_VariantName = rm_VariantName rm,
                 rp_AcceleratorName = rm_AcceleratorName rm, rp_TokensInUse = rm_TokensInUse rm,
                 rp_TotalKvCapacityTokens = rm_TotalKvCapacityTokens rm, rp_MemoryBoundCapacity = k1,
                 rp_ComputeBoundCapacity = k2, rp_K2Priority = k2Priority,
                 rp_EffectiveCapacity = effectiveCapacity, rp_IsSaturated = (replicaDemand \<ge> effectiveCapacity),
                 rp_ReplicaDemand = replicaDemand\<rparr>, st2))"

section \<open>Variants, roles and the model\<close>

definition median :: "int list \<Rightarrow> int" where
  "median values =
     (let n = length values; sorted = go_sort (<) values in
      if n = 0 then 0
      else if n mod 2 = 0 then go_div (wrap64 (sorted ! (n div 2 - 1) + sorted ! (n div 2))) 2
      else sorted ! (n div 2))"

text \<open>The label map covers every source, so its lookup always succeeds.\<close>

definition k2SourceLabel :: "replica_capacity list \<Rightarrow> string" where
  "k2SourceLabel replicas =
     (if replicas = [] then []
      else let sorted = go_sort (\<lambda>a b. rp_EffectiveCapacity a < rp_EffectiveCapacity b) replicas
           in k2_label (rp_K2Priority (sorted ! ((length sorted - 1) div 2))))"

definition lookupCompatibleCapacity :: "string \<Rightarrow> string \<Rightarrow> string \<Rightarrow> string \<Rightarrow> int \<Rightarrow> capacity_store \<Rightarrow> capacity_record option" where
  "lookupCompatibleCapacity namespace modelID variantName accelerator gpuCount store =
     (case cs_Get store namespace modelID variantName of
        None \<Rightarrow> None
      | Some r \<Rightarrow> (if cr_EngineParams r = None then None
          else FindCompatible store modelID accelerator gpuCount (cr_EngineParams r)))"

definition estimateStoredCapacity :: "capacity_record option \<Rightarrow> string \<Rightarrow> gofloat \<Rightarrow> gofloat \<Rightarrow> gofloat \<Rightarrow> capacity_store \<Rightarrow> gofloat" where
  "estimateStoredCapacity stored modelID kvCacheThreshold modelAvgInput modelAvgOutput store = (case stored of
     None \<Rightarrow> 0
   | Some r \<Rightarrow>
      if cr_LearnedFrom r = learnedFromLive then of_int (cr_EffectiveCapacity r)
      else let derived = estimateCapacityFromParams (cr_EngineParams r) modelAvgInput modelAvgOutput in
        if cr_EngineParams r \<noteq> None \<and> modelAvgOutput > 0 \<and> derived > 0 then
          (let k1 = go_trunc (of_int (cr_TotalKvCapacityTokens r) * kvCacheThreshold);
               b1 = (if cr_TotalKvCapacityTokens r > 0 \<and> kvCacheThreshold > 0 \<and> k1 > 0 \<and> k1 < derived then k1 else derived);
               b2 = (case FindCompatible store modelID (cr_AcceleratorName r) (cr_GpuCount r) (cr_EngineParams r) of
                       Some c \<Rightarrow> (if cr_LearnedFrom c = learnedFromLive \<and> cr_EffectiveCapacity c > 0 \<and>
                           cr_EffectiveCapacity c < b1 then cr_EffectiveCapacity c else b1)
                     | None \<Rightarrow> b1)
           in of_int b2)
        else of_int (cr_EffectiveCapacity r))"

text \<open>The first replica of a variant gives the cost and the accelerator of the variant.\<close>

definition first_metric :: "replica_metrics_v2 list \<Rightarrow> string \<Rightarrow> replica_metrics_v2 option" where
  "first_metric rms v = find (\<lambda>rm. rm_VariantName rm = v) rms"

definition ready_count :: "variant_replica_state \<Rightarrow> int" where
  "ready_count vs = (if st_CurrentReplicas vs - st_PendingReplicas vs < 0 then 0
     else st_CurrentReplicas vs - st_PendingReplicas vs)"

definition pending_instances :: "variant_replica_state \<Rightarrow> int \<Rightarrow> int" where
  "pending_instances vs instances =
     (if ready_count vs > 0 \<and> go_div instances (ready_count vs) > 1
      then st_PendingReplicas vs * go_div instances (ready_count vs) else st_PendingReplicas vs)"

text \<open>The capacity of one replica of a variant without live replicas, and where it comes from.\<close>

definition stored_capacity :: "replica_metrics_v2 list \<Rightarrow> string \<Rightarrow> string \<Rightarrow> gofloat \<Rightarrow> capacity_store \<Rightarrow> string \<Rightarrow>
    variant_replica_state \<Rightarrow> gofloat \<times> string" where
  "stored_capacity rms modelID namespace kvCacheThreshold store accelerator vs =
     (let (avgIn, avgOut, _) = computeModelWorkloadAverages rms;
          own = cs_Get store namespace modelID (st_VariantName vs)
      in case own of
           Some r \<Rightarrow>
             (if cr_EffectiveCapacity r > 0
              then (estimateStoredCapacity own modelID kvCacheThreshold avgIn avgOut store, satReasonP0Store)
              else case lookupCompatibleCapacity namespace modelID (st_VariantName vs) accelerator (st_GPUsPerReplica vs) store of
                Some c \<Rightarrow> (of_int (cr_EffectiveCapacity c), satReasonP0Store) | None \<Rightarrow> (0, ReasonNoData))
         | None \<Rightarrow>
             (case lookupCompatibleCapacity namespace modelID (st_VariantName vs) accelerator (st_GPUsPerReplica vs) store of
                Some c \<Rightarrow> (of_int (cr_EffectiveCapacity c), satReasonP0Store) | None \<Rightarrow> (0, ReasonNoData)))"

definition variant_of :: "replica_capacity list \<Rightarrow> replica_metrics_v2 list \<Rightarrow> string \<Rightarrow> string \<Rightarrow> gofloat \<Rightarrow> capacity_store \<Rightarrow>
    variant_replica_state \<Rightarrow> variant_capacity" where
  "variant_of rcs rms modelID namespace kvCacheThreshold store vs =
     (let replicas = filter (\<lambda>rc. rp_VariantName rc = st_VariantName vs) rcs;
          accelerator = (case first_metric rms (st_VariantName vs) of Some rm \<Rightarrow> rm_AcceleratorName rm | None \<Rightarrow> []);
          cost = (case first_metric rms (st_VariantName vs) of Some rm \<Rightarrow> rm_Cost rm | None \<Rightarrow> 0);
          live = (replicas \<noteq> []);
          (prc, label) = (if live then (of_int (median (map rp_EffectiveCapacity replicas)), k2SourceLabel replicas)
            else stored_capacity rms modelID namespace kvCacheThreshold store accelerator vs);
          demand = (\<Sum>rc\<leftarrow>replicas. of_int (rp_ReplicaDemand rc) :: gofloat);
          count = (if live then int (length replicas) else ready_count vs);
          totalCapacity = of_int count * prc
      in \<lparr>vc_VariantName = st_VariantName vs,
          vc_AcceleratorName = (if live \<and> accelerator = [] then rp_AcceleratorName (hd replicas) else accelerator),
          vc_Cost = cost, vc_Role = st_Role vs, vc_ReplicaCount = count,
          vc_PendingReplicas = (if live then pending_instances vs (int (length replicas)) else st_PendingReplicas vs),
          vc_PerReplicaCapacity = prc, vc_Reason = label, vc_TotalCapacity = totalCapacity, vc_TotalDemand = demand,
          vc_Utilization = (if totalCapacity > 0 then demand / totalCapacity else 0)\<rparr>)"

definition aggregateByVariant :: "replica_capacity list \<Rightarrow> replica_metrics_v2 list \<Rightarrow> variant_replica_state list \<Rightarrow> string \<Rightarrow>
    string \<Rightarrow> gofloat \<Rightarrow> capacity_store \<Rightarrow> variant_capacity list" where
  "aggregateByVariant rcs rms states modelID namespace kvCacheThreshold store =
     map (variant_of rcs rms modelID namespace kvCacheThreshold store) states"

definition add_queue_demand :: "string \<times> gofloat \<Rightarrow> (string, scope_totals) gomap \<Rightarrow> (string, scope_totals) gomap" where
  "add_queue_demand p totals = (case map_of totals (fst p) of
     Some t \<Rightarrow> mput (fst p) (t\<lparr>sct_TotalDemand := sct_TotalDemand t + snd p\<rparr>) totals | None \<Rightarrow> totals)"

definition aggregateByRole :: "variant_capacity list \<Rightarrow> (string, gofloat) gomap \<Rightarrow> (string, role_capacity) gomap option" where
  "aggregateByRole vcs queueDemandByRole =
     (if \<not> list_ex (\<lambda>vc. vc_Role vc \<noteq> [] \<and> vc_Role vc \<noteq> RoleBoth) vcs then None
      else Some (map (\<lambda>(role, t). (role, \<lparr>rc_Role = role, rc_TotalSupply = sct_TotalSupply t,
          rc_TotalDemand = sct_TotalDemand t, rc_TotalAnticipatedSupply = sct_TotalAnticipatedSupply t,
          rc_RequiredCapacity = 0, rc_SpareCapacity = 0\<rparr>))
        (fold add_queue_demand queueDemandByRole (AggregateByRole vcs))))"

section \<open>The analysis\<close>

datatype analysis_error = WrongConfigType | ContextDone

text \<open>The replicas one after the other; \<open>done i\<close> tells whether the context is found cancelled before
  the replica with index \<open>i\<close>.  What was learned until then stays in the state.\<close>

fun replica_phase :: "int \<Rightarrow> (nat \<Rightarrow> bool) \<Rightarrow> nat \<Rightarrow> analyzer_input \<Rightarrow> saturation_scaling_config \<Rightarrow> replica_metrics_v2 list \<Rightarrow>
    sat_state \<Rightarrow> (analysis_error + replica_capacity list) \<times> sat_state" where
  "replica_phase now ctx_done i inp cfg [] st = (Inr [], st)"
| "replica_phase now ctx_done i inp cfg (rm # rms) st =
     (if ctx_done i then (Inl ContextDone, st)
      else let states = map (\<lambda>vs. (st_VariantName vs, vs)) (rev (in_VariantStates inp));
               vs = mget zero_state states (rm_VariantName rm);
               (rc, st1) = computeReplicaCapacity now rm cfg (in_ModelID inp) (in_Namespace inp) (st_GPUsPerReplica vs) (st_Role vs) st;
               (rest, st2) = replica_phase now ctx_done (Suc i) inp cfg rms st1
           in (case rest of Inl e \<Rightarrow> Inl e | Inr rcs \<Rightarrow> Inr (case rc of Some r \<Rightarrow> r # rcs | None \<Rightarrow> rcs), st2))"

definition build_result :: "analyzer_input \<Rightarrow> saturation_scaling_config \<Rightarrow> replica_capacity list \<Rightarrow> capacity_store \<Rightarrow> analyzer_result" where
  "build_result inp cfg rcs store =
     (let vcs = aggregateByVariant rcs (in_ReplicaMetrics inp) (in_VariantStates inp) (in_ModelID inp) (in_Namespace inp)
            (sc_KvCacheThreshold cfg) store;
          supply = SumTotalSupply vcs;
          activeRoles = remdups (map (\<lambda>vc. canon_role (vc_Role vc)) vcs);
          (queueTotal, queueByRole) = estimateSchedulerQueueDemand (in_SchedulerQueue inp) (in_ReplicaMetrics inp) activeRoles;
          demand = SumTotalDemand vcs + queueTotal
      in \<lparr>ar_AnalyzerName = ''saturation-token-based'', ar_ModelID = in_ModelID inp, ar_Namespace = in_Namespace inp,
          ar_VariantCapacities = vcs, ar_TotalSupply = supply, ar_TotalDemand = demand,
          ar_Utilization = (if supply > 0 then demand / supply else 0),
          ar_TotalAnticipatedSupply = SumTotalAnticipatedSupply vcs, ar_RequiredCapacity = 0, ar_SpareCapacity = 0,
          ar_RoleCapacities = aggregateByRole vcs queueByRole\<rparr>)"

definition sat_Analyze :: "int \<Rightarrow> (nat \<Rightarrow> bool) \<Rightarrow> analyzer_input \<Rightarrow> sat_state \<Rightarrow> (analysis_error + analyzer_result) \<times> sat_state" where
  "sat_Analyze now ctx_done inp st = (case in_Config inp of
     None \<Rightarrow> (Inl WrongConfigType, st)
   | Some cfg \<Rightarrow>
      (case replica_phase now ctx_done 0 inp cfg (in_ReplicaMetrics inp) st of
         (Inl e, st') \<Rightarrow> (Inl e, st')
       | (Inr rcs, st') \<Rightarrow> (Inr (build_result inp cfg rcs (ss_store st')), st')))"

section \<open>Capacities stay within the memory of a replica\<close>

lemma waitingQueueDemand_range: "0 \<le> waitingQueueDemand rm role \<and> waitingQueueDemand rm role < 2 ^ 63"
proof -
  have "go_trunc d < 2 ^ 63" if "0 < d" "\<not> 2 ^ 63 \<le> d" for d
  proof -
    have "of_int (go_trunc d) \<le> d" using go_trunc_bounds [of d] that by simp
    then have "(of_int (go_trunc d) :: gofloat) < of_int (2 ^ 63)" using that by simp
    then show ?thesis by (simp only: of_int_less_iff)
  qed
  then show ?thesis using go_trunc_bounds by (fastforce simp: waitingQueueDemand_def Let_def)
qed

lemma computeK2_positive:
  assumes "0 < k1" and "computeK2 now m acc g ql tiu ao ai qt ep k1 st = ((k2, src), st')" and "src \<noteq> K2Historical"
  shows "0 < k2"
  using assms by (auto simp: computeK2_def Let_def split: if_splits option.splits)

lemma computeK2_store: "ss_store (snd (computeK2 now m acc g ql tiu ao ai qt ep k1 st)) = ss_store st"
  by (simp add: computeK2_def Let_def split: option.split)

text \<open>What the analyzer stores for a replica with cache data, and the shape of its report.\<close>

lemma computeReplicaCapacity_live:
  assumes "0 < rm_TotalKvCapacityTokens rm" and "computeReplicaCapacity now rm cfg m ns g role st = (rc, st')"
  obtains r k2 src where "rc = Some r" and "rp_VariantName r = rm_VariantName rm"
    and "rp_MemoryBoundCapacity r = go_trunc (of_int (rm_TotalKvCapacityTokens rm) * sc_KvCacheThreshold cfg)"
    and "rp_EffectiveCapacity r = min (rp_MemoryBoundCapacity r) (rp_ComputeBoundCapacity r)"
    and "rp_ReplicaDemand r = wrap64 (rm_TokensInUse rm + waitingQueueDemand rm role)"
    and "rp_IsSaturated r = (rp_ReplicaDemand r \<ge> rp_EffectiveCapacity r)"
    and "ss_store st' = cs_Update now ns m (rm_VariantName rm)
      (live_record rm g (rp_EffectiveCapacity r) (known_params st ns m (rm_VariantName rm))) (ss_store st)"
proof -
  let ?k1 = "go_trunc (of_int (rm_TotalKvCapacityTokens rm) * sc_KvCacheThreshold cfg)"
  let ?ep = "known_params st ns m (rm_VariantName rm)"
  obtain k2 src st1 where k2: "computeK2 now m (rm_AcceleratorName rm) g (rm_QueueLength rm) (rm_TokensInUse rm)
      (rm_AvgOutputTokens rm) (rm_AvgInputTokens rm) (sc_QueueLengthThreshold cfg) ?ep ?k1 st = ((k2, src), st1)"
    by (metis prod.collapse)
  have st1: "ss_store st1 = ss_store st"
    using computeK2_store [of now m "rm_AcceleratorName rm" g "rm_QueueLength rm" "rm_TokensInUse rm"
      "rm_AvgOutputTokens rm" "rm_AvgInputTokens rm" "sc_QueueLengthThreshold cfg" ?ep ?k1 st] k2 by simp
  show ?thesis
    by (rule that) (use assms k2 st1 in \<open>auto simp: computeReplicaCapacity_def Let_def min_def\<close>)
qed

text \<open>The capacity reported for a replica with cache data never exceeds the share of its cache that the
  threshold allows, nor the compute bound; the demand reported counts at least the tokens resident in
  the cache unless the 64-bit sum overflows; and the store afterwards holds that capacity as learned
  live, with the engine parameters known before.\<close>

theorem replica_capacity_within_memory:
  assumes "0 < rm_TotalKvCapacityTokens rm" and "0 \<le> sc_KvCacheThreshold cfg" and "sc_KvCacheThreshold cfg \<le> 1"
    and "0 \<le> rm_TokensInUse rm"
    and "computeReplicaCapacity now rm cfg m ns g role st = (rc, st')"
  shows "\<exists>r. rc = Some r \<and>
    of_int (rp_EffectiveCapacity r) \<le> of_int (rm_TotalKvCapacityTokens rm) * sc_KvCacheThreshold cfg \<and>
    rp_EffectiveCapacity r \<le> rm_TotalKvCapacityTokens rm \<and>
    rp_EffectiveCapacity r \<le> rp_ComputeBoundCapacity r \<and>
    (rm_TokensInUse rm + waitingQueueDemand rm role < 2 ^ 63 \<longrightarrow> rm_TokensInUse rm \<le> rp_ReplicaDemand r) \<and>
    (\<exists>c. cs_Get (ss_store st') ns m (rm_VariantName rm) = Some c \<and> cr_LearnedFrom c = learnedFromLive \<and>
      cr_EffectiveCapacity c = rp_EffectiveCapacity r \<and>
      (\<forall>old. cs_Get (ss_store st) ns m (rm_VariantName rm) = Some old \<longrightarrow> cr_EngineParams c = cr_EngineParams old))"
proof (rule computeReplicaCapacity_live [OF assms(1,5)])
  fix r :: replica_capacity
  let ?x = "of_int (rm_TotalKvCapacityTokens rm) * sc_KvCacheThreshold cfg"
  assume r: "rc = Some r" "rp_MemoryBoundCapacity r = go_trunc ?x"
    "rp_EffectiveCapacity r = min (rp_MemoryBoundCapacity r) (rp_ComputeBoundCapacity r)"
    "rp_ReplicaDemand r = wrap64 (rm_TokensInUse rm + waitingQueueDemand rm role)"
    and store: "ss_store st' = cs_Update now ns m (rm_VariantName rm)
      (live_record rm g (rp_EffectiveCapacity r) (known_params st ns m (rm_VariantName rm))) (ss_store st)"
  have x: "0 \<le> ?x" "?x \<le> of_int (rm_TotalKvCapacityTokens rm)" using assms(1-3) by (simp_all add: mult_left_le)
  have "rp_EffectiveCapacity r \<le> go_trunc ?x" using r(2,3) by simp
  then have e: "of_int (rp_EffectiveCapacity r) \<le> ?x" using go_trunc_bounds [OF x(1)] by linarith
  then have "rp_EffectiveCapacity r \<le> rm_TotalKvCapacityTokens rm" using x(2) by linarith
  moreover have "rm_TokensInUse rm \<le> rp_ReplicaDemand r" if "rm_TokensInUse rm + waitingQueueDemand rm role < 2 ^ 63"
    using waitingQueueDemand_range [of rm role] wrap64_id [of "rm_TokensInUse rm + waitingQueueDemand rm role"] that assms(4) r(4) by simp
  ultimately show ?thesis using r(1,3) e records.get_put [of now "(ns, m, rm_VariantName rm)" _ "ss_store st"]
    by (simp add: store live_record_def known_params_def)
qed

definition example_metrics :: replica_metrics_v2 where
  "example_metrics = \<lparr>rm_PodName = ''p'', rm_VariantName = ''v'', rm_AcceleratorName = ''H100'', rm_Cost = 10,
     rm_KvCacheUsage = 1/2, rm_QueueLength = 0, rm_NumGpuBlocks = 100, rm_BlockSize = 10,
     rm_TotalKvCapacityTokens = 1000, rm_TokensInUse = 500, rm_AvgOutputTokens = 0, rm_AvgInputTokens = 0,
     rm_PrefixCacheHitRate = 0, rm_FreshnessStatus = None, rm_ArrivalRate = 0, rm_AvgITL = 0, rm_GenerationTokenRate = 0,
     rm_KvUsageInstant = 0, rm_RequestRate = 0\<rparr>"

definition example_cfg :: saturation_scaling_config where
  "example_cfg = zero_config\<lparr>sc_KvCacheThreshold := 4/5, sc_QueueLengthThreshold := 5\<rparr>"

lemma replica_capacity_within_memory_witness:
  "\<exists>r. fst (computeReplicaCapacity 0 example_metrics example_cfg ''m'' ''ns'' 1 [] (NewSaturationAnalyzer [])) = Some r \<and>
     rp_EffectiveCapacity r \<le> 1000"
proof -
  obtain rc st' where c: "computeReplicaCapacity 0 example_metrics example_cfg ''m'' ''ns'' 1 [] (NewSaturationAnalyzer []) = (rc, st')"
    by fastforce
  have "0 < rm_TotalKvCapacityTokens example_metrics" "0 \<le> sc_KvCacheThreshold example_cfg" "sc_KvCacheThreshold example_cfg \<le> 1"
    "0 \<le> rm_TokensInUse example_metrics" by (simp_all add: example_metrics_def example_cfg_def zero_config_def)
  from replica_capacity_within_memory [OF this c]
  obtain r where "rc = Some r" "rp_EffectiveCapacity r \<le> rm_TotalKvCapacityTokens example_metrics" by blast
  moreover have "rm_TotalKvCapacityTokens example_metrics = 1000" by (simp add: example_metrics_def)
  ultimately show ?thesis using c by simp
qed

section \<open>The threshold is applied twice\<close>


section \<open>Aggregation\<close>

lemma add_queue_demand_facts:
  assumes "wf_map m"
  shows "wf_map (add_queue_demand p m) \<and> mkeys (add_queue_demand p m) = mkeys m \<and>
    (\<forall>role. map_of (add_queue_demand p m) role =
       map_option (\<lambda>t. if role = fst p then t\<lparr>sct_TotalDemand := sct_TotalDemand t + snd p\<rparr> else t) (map_of m role))"
proof (cases "map_of m (fst p)")
  case None
  then have "map_of m role = map_option (\<lambda>t. if role = fst p then t\<lparr>sct_TotalDemand := sct_TotalDemand t + snd p\<rparr> else t)
      (map_of m role)" for role by (cases "map_of m role"; cases "role = fst p") auto
  then show ?thesis using assms None by (simp add: add_queue_demand_def)
next
  case (Some t)
  then have "fst p \<in> set (mkeys m)" by (metis mhas_def mhas_iff option.distinct(1))
  then show ?thesis using Some assms
    by (auto simp: add_queue_demand_def update_conv update_keys option.map_ident_strong)
qed

lemma queue_demand_supply:
  "(\<Sum>(_, t)\<leftarrow>add_queue_demand p m. sct_TotalSupply t) = (\<Sum>(_, t)\<leftarrow>m. sct_TotalSupply t)"
  "(\<Sum>(_, t)\<leftarrow>add_queue_demand p m. sct_TotalAnticipatedSupply t) = (\<Sum>(_, t)\<leftarrow>m. sct_TotalAnticipatedSupply t)"
  if "wf_map m"
proof -
  note put = sum_mput [OF that, where z = zero_totals]
  show "(\<Sum>(_, t)\<leftarrow>add_queue_demand p m. sct_TotalSupply t) = (\<Sum>(_, t)\<leftarrow>m. sct_TotalSupply t)"
    by (cases "map_of m (fst p)") (simp_all add: add_queue_demand_def put zero_totals_def mget_def)
  show "(\<Sum>(_, t)\<leftarrow>add_queue_demand p m. sct_TotalAnticipatedSupply t) = (\<Sum>(_, t)\<leftarrow>m. sct_TotalAnticipatedSupply t)"
    by (cases "map_of m (fst p)") (simp_all add: add_queue_demand_def put zero_totals_def mget_def)
qed

text \<open>Adding the queue demand changes no supply and raises each listed role's demand once.\<close>

lemma queue_demand_fold:
  assumes "wf_map m"
  shows "wf_map (fold add_queue_demand ps m) \<and>
    (\<Sum>(_, t)\<leftarrow>fold add_queue_demand ps m. sct_TotalSupply t) = (\<Sum>(_, t)\<leftarrow>m. sct_TotalSupply t) \<and>
    (\<Sum>(_, t)\<leftarrow>fold add_queue_demand ps m. sct_TotalAnticipatedSupply t) = (\<Sum>(_, t)\<leftarrow>m. sct_TotalAnticipatedSupply t) \<and>
    (\<forall>role. map_of (fold add_queue_demand ps m) role = map_option
       (\<lambda>t. t\<lparr>sct_TotalDemand := sct_TotalDemand t + (\<Sum>p\<leftarrow>ps. if fst p = role then snd p else 0)\<rparr>) (map_of m role))"
  using assms
proof (induction ps arbitrary: m)
  case (Cons p ps)
  note f = add_queue_demand_facts [OF Cons.prems, of p]
  from Cons.IH [of "add_queue_demand p m"] f show ?case
    using queue_demand_supply [OF Cons.prems, of p]
    by (auto simp: option.map_comp comp_def intro!: option.map_cong)
qed (simp add: option.map_ident_strong)

lemma sum_of_key: "wf_map ps \<Longrightarrow> (\<Sum>p\<leftarrow>ps. if fst p = k then snd p else (0 :: gofloat)) = mget 0 ps k"
proof (induction ps)
  case (Cons p ps)
  then show ?case by (cases p) (auto simp: mget_absent mhas_iff)
qed simp

lemma queue_demand_wf: "wf_map (snd (estimateSchedulerQueueDemand sq rms roles))"
proof -
  have "wf_map m \<Longrightarrow> wf_map (fold (\<lambda>r. mput r (f r)) roles m)" for m and f :: "string \<Rightarrow> gofloat"
    by (induction roles arbitrary: m) auto
  then show ?thesis by (auto simp: estimateSchedulerQueueDemand_def Let_def case_prod_beta split: option.split)
qed

lemma sat_Analyze_ok:
  assumes "fst (sat_Analyze now ctx_done inp st) = Inr r"
  obtains cfg rcs where "in_Config inp = Some cfg"
    and "replica_phase now ctx_done 0 inp cfg (in_ReplicaMetrics inp) st = (Inr rcs, snd (sat_Analyze now ctx_done inp st))"
    and "r = build_result inp cfg rcs (ss_store (snd (sat_Analyze now ctx_done inp st)))"
  using assms by (auto simp: sat_Analyze_def split: option.splits prod.splits sum.splits)

text \<open>The demand waiting at the scheduler, for the roles of the reported variants.\<close>

definition queued_for :: "analyzer_input \<Rightarrow> variant_capacity list \<Rightarrow> gofloat \<times> (string, gofloat) gomap" where
  "queued_for inp vcs = estimateSchedulerQueueDemand (in_SchedulerQueue inp) (in_ReplicaMetrics inp)
     (remdups (map (\<lambda>vc. canon_role (vc_Role vc)) vcs))"

lemma build_result_fields:
  fixes inp cfg rcs store
  defines "r \<equiv> build_result inp cfg rcs store"
  shows "ar_TotalSupply r = SumTotalSupply (ar_VariantCapacities r)"
    and "ar_TotalAnticipatedSupply r = SumTotalAnticipatedSupply (ar_VariantCapacities r)"
    and "ar_TotalDemand r = SumTotalDemand (ar_VariantCapacities r) + fst (queued_for inp (ar_VariantCapacities r))"
    and "ar_RoleCapacities r = aggregateByRole (ar_VariantCapacities r) (snd (queued_for inp (ar_VariantCapacities r)))"
    and "ar_VariantCapacities r = aggregateByVariant rcs (in_ReplicaMetrics inp) (in_VariantStates inp) (in_ModelID inp)
      (in_Namespace inp) (sc_KvCacheThreshold cfg) store"
  by (simp_all add: r_def build_result_def queued_for_def Let_def case_prod_beta)

lemma aggregateByRole_spec:
  assumes "aggregateByRole vcs ps = Some m" and "wf_map ps"
  shows "(\<Sum>(_, c)\<leftarrow>m. rc_TotalSupply c) = SumTotalSupply vcs"
    and "(\<Sum>(_, c)\<leftarrow>m. rc_TotalAnticipatedSupply c) = SumTotalAnticipatedSupply vcs"
    and "map_of m role = (if role_vcs role vcs = [] then None else Some
      \<lparr>rc_Role = role, rc_TotalSupply = SumTotalSupply (role_vcs role vcs),
       rc_TotalDemand = SumTotalDemand (role_vcs role vcs) + mget 0 ps role,
       rc_TotalAnticipatedSupply = SumTotalAnticipatedSupply (role_vcs role vcs), rc_RequiredCapacity = 0, rc_SpareCapacity = 0\<rparr>)"
proof -
  let ?t = "fold add_queue_demand ps (AggregateByRole vcs)"
  note agg = AggregateByRole_facts [of vcs]
  note q = queue_demand_fold [OF conjunct1 [OF agg], of ps]
  have m: "m = map (\<lambda>(role, t). (role, \<lparr>rc_Role = role, rc_TotalSupply = sct_TotalSupply t, rc_TotalDemand = sct_TotalDemand t,
      rc_TotalAnticipatedSupply = sct_TotalAnticipatedSupply t, rc_RequiredCapacity = 0, rc_SpareCapacity = 0\<rparr>)) ?t"
    using assms(1) by (simp add: aggregateByRole_def split: if_splits)
  show "(\<Sum>(_, c)\<leftarrow>m. rc_TotalSupply c) = SumTotalSupply vcs"
    using q roles_partition(1) [of vcs] by (simp add: m comp_def split_def)
  show "(\<Sum>(_, c)\<leftarrow>m. rc_TotalAnticipatedSupply c) = SumTotalAnticipatedSupply vcs"
    using q roles_partition(2) [of vcs] by (simp add: m comp_def split_def)
  show "map_of m role = (if role_vcs role vcs = [] then None else Some
      \<lparr>rc_Role = role, rc_TotalSupply = SumTotalSupply (role_vcs role vcs),
       rc_TotalDemand = SumTotalDemand (role_vcs role vcs) + mget 0 ps role,
       rc_TotalAnticipatedSupply = SumTotalAnticipatedSupply (role_vcs role vcs), rc_RequiredCapacity = 0, rc_SpareCapacity = 0\<rparr>)"
    using q agg sum_of_key [OF assms(2), of role] by (simp add: m map_of_map_key totals_of_def)
qed

text \<open>The report of a model is linear: its supply is the sum over its variants of replicas times
  capacity, and for a model split into roles the supplies of the roles add up to it, each role holding
  the sums over its own variants and, once, its share of the demand waiting at the scheduler.\<close>

theorem role_reports_partition_model:
  assumes "fst (sat_Analyze now ctx_done inp st) = Inr r" and "ar_RoleCapacities r = Some m"
  shows "ar_TotalSupply r = (\<Sum>vc\<leftarrow>ar_VariantCapacities r. of_int (vc_ReplicaCount vc) * vc_PerReplicaCapacity vc) \<and>
    (\<Sum>(_, c)\<leftarrow>m. rc_TotalSupply c) = ar_TotalSupply r \<and>
    (\<Sum>(_, c)\<leftarrow>m. rc_TotalAnticipatedSupply c) = ar_TotalAnticipatedSupply r \<and>
    (\<forall>role c. map_of m role = Some c \<longrightarrow>
       rc_TotalSupply c = SumTotalSupply (role_vcs role (ar_VariantCapacities r)) \<and>
       rc_TotalDemand c = SumTotalDemand (role_vcs role (ar_VariantCapacities r)) +
         mget 0 (snd (queued_for inp (ar_VariantCapacities r))) role)"
proof -
  obtain cfg rcs store where r: "r = build_result inp cfg rcs store" using sat_Analyze_ok [OF assms(1)] by metis
  note f = build_result_fields [of inp cfg rcs store, folded r]
  have q: "wf_map (snd (queued_for inp (ar_VariantCapacities r)))" by (simp add: queued_for_def queue_demand_wf)
  from aggregateByRole_spec [OF assms(2) [unfolded f(4)] q] show ?thesis
    by (simp add: f(1,2) SumTotalSupply_def split: if_splits)
qed

definition example_input :: analyzer_input where
  "example_input = \<lparr>in_ModelID = ''m'', in_Namespace = ''ns'', in_ReplicaMetrics = [],
     in_VariantStates = [zero_state\<lparr>st_VariantName := ''v'', st_Role := RolePrefill, st_CurrentReplicas := 2\<rparr>],
     in_Config = Some example_cfg, in_SchedulerQueue = None, in_ArrivalRate = 0\<rparr>"

definition example_store :: capacity_store where
  "example_store = [(storeKey ''ns'' ''m'' ''v'', example_record)]"

lemma role_reports_partition_model_witness:
  "\<exists>r m. fst (sat_Analyze 0 (\<lambda>_. False) example_input (NewSaturationAnalyzer example_store)) = Inr r \<and> ar_RoleCapacities r = Some m \<and>
     ar_TotalSupply r = 2 * 8192 \<and> (\<Sum>(_, c)\<leftarrow>m. rc_TotalSupply c) = 2 * 8192"
proof -
  let ?r = "build_result example_input example_cfg [] example_store"
  have v: "ar_VariantCapacities ?r = [\<lparr>vc_VariantName = ''v'', vc_AcceleratorName = [], vc_Cost = 0, vc_Role = RolePrefill,
      vc_ReplicaCount = 2, vc_PendingReplicas = 0, vc_PerReplicaCapacity = 8192, vc_Reason = satReasonP0Store,
      vc_TotalCapacity = 2 * 8192, vc_TotalDemand = 0, vc_Utilization = 0\<rparr>]"
    by (simp add: build_result_def Let_def case_prod_beta aggregateByVariant_def variant_of_def example_input_def first_metric_def
        stored_capacity_def computeModelWorkloadAverages_def example_store_def example_record_def cs_Get_def
        estimateStoredCapacity_def ready_count_def zero_state_def)
  have a: "fst (sat_Analyze 0 (\<lambda>_. False) example_input (NewSaturationAnalyzer example_store)) = Inr ?r"
    by (simp add: sat_Analyze_def example_input_def NewSaturationAnalyzer_def)
  have "ar_RoleCapacities ?r \<noteq> None"
    by (simp add: build_result_fields(4) [of example_input] v aggregateByRole_def RolePrefill_def RoleBoth_def)
  then obtain m where m: "ar_RoleCapacities ?r = Some m" by auto
  then show ?thesis using role_reports_partition_model [OF a m] a by (simp add: v)
qed

section \<open>When the analysis fails\<close>

lemma replica_phase_outcome:
  "case fst (replica_phase now ctx_done i inp cfg rms st) of
     Inl e \<Rightarrow> e = ContextDone \<and> (\<exists>j<length rms. ctx_done (i + j)) | Inr _ \<Rightarrow> \<forall>j<length rms. \<not> ctx_done (i + j)"
proof (induction rms arbitrary: i st)
  case (Cons rm rms)
  show ?case
  proof (cases "ctx_done i")
    case False
    obtain rc st1 where rc: "computeReplicaCapacity now rm cfg (in_ModelID inp) (in_Namespace inp)
        (st_GPUsPerReplica (mget zero_state (map (\<lambda>vs. (st_VariantName vs, vs)) (rev (in_VariantStates inp))) (rm_VariantName rm)))
        (st_Role (mget zero_state (map (\<lambda>vs. (st_VariantName vs, vs)) (rev (in_VariantStates inp))) (rm_VariantName rm))) st = (rc, st1)"
      by fastforce
    obtain out st2 where out: "replica_phase now ctx_done (Suc i) inp cfg rms st1 = (out, st2)" by fastforce
    have all: "(\<forall>j<Suc (length rms). \<not> ctx_done (i + j)) \<longleftrightarrow> (\<forall>j<length rms. \<not> ctx_done (Suc i + j))"
      using False by (simp add: All_less_Suc2)
    show ?thesis using Cons [of "Suc i" st1] False out rc all
      by (cases out) (simp_all add: Let_def, blast)
  qed (auto intro: exI [of _ 0])
qed simp

text \<open>The analysis fails for two reasons only: a configuration of another type, or a context cancelled
  before some replica was looked at.  Otherwise it reports every configured variant, in order, whether
  or not it has replicas.\<close>

theorem analysis_outcome:
  "case fst (sat_Analyze now ctx_done inp st) of
     Inl WrongConfigType \<Rightarrow> in_Config inp = None \<and> snd (sat_Analyze now ctx_done inp st) = st
   | Inl ContextDone \<Rightarrow> in_Config inp \<noteq> None \<and> (\<exists>i<length (in_ReplicaMetrics inp). ctx_done i)
   | Inr r \<Rightarrow> in_Config inp \<noteq> None \<and> \<not> (\<exists>i<length (in_ReplicaMetrics inp). ctx_done i) \<and>
      map vc_VariantName (ar_VariantCapacities r) = map st_VariantName (in_VariantStates inp)"
proof (cases "in_Config inp")
  case (Some cfg)
  have names: "map vc_VariantName (ar_VariantCapacities (build_result inp cfg rcs store)) = map st_VariantName (in_VariantStates inp)" for rcs store
    by (simp add: build_result_fields aggregateByVariant_def variant_of_def Let_def case_prod_beta)
  obtain out st' where p: "replica_phase now ctx_done 0 inp cfg (in_ReplicaMetrics inp) st = (out, st')" by fastforce
  then show ?thesis using Some names replica_phase_outcome [where now = now and ctx_done = ctx_done and i = 0 and inp = inp and cfg = cfg and rms = "in_ReplicaMetrics inp" and st = st]
    by (cases out) (auto simp: sat_Analyze_def split: analysis_error.split)
qed (simp add: sat_Analyze_def)

section \<open>The history of compute capacities\<close>

text \<open>Every window has the fixed size, is never empty and holds observations of at least one token.\<close>

definition window_ok :: "rolling_average \<Rightarrow> bool" where
  "window_ok ra \<longleftrightarrow> ra_maxSize ra = RollingAverageWindowSize \<and> ra_Len ra \<le> RollingAverageWindowSize \<and>
     list_all (\<lambda>v. 1 \<le> v) (ra_values ra)"

definition history_ok :: "sat_state \<Rightarrow> bool" where
  "history_ok st \<longleftrightarrow> wf_map (ss_history st) \<and>
     (\<forall>ra\<in>snd ` set (ss_history st). window_ok ra \<and> ra_values ra \<noteq> [])"

lemma average_ge_one:
  assumes "ra_values ra \<noteq> []" and "window_ok ra"
  shows "1 \<le> ra_Average ra"
proof -
  have "of_nat (length xs) \<le> sum_list xs" if "list_all (\<lambda>v. 1 \<le> v) xs" for xs :: "gofloat list"
    using that by (induction xs) auto
  then show ?thesis using assms by (simp add: ra_Average_def le_divide_eq window_ok_def)
qed

lemma window_ok_new: "window_ok (newRollingAverage now RollingAverageWindowSize)"
  by (simp add: window_ok_def newRollingAverage_def ra_Len_def)

lemma window_ok_Add: "window_ok ra \<Longrightarrow> 1 \<le> v \<Longrightarrow> window_ok (ra_Add now v ra) \<and> ra_values (ra_Add now v ra) \<noteq> []"
  by (cases "ra_values ra") (auto simp: window_ok_def ra_Add_def ra_Len_def RollingAverageWindowSize_def)

lemma ball_mput: "P v \<Longrightarrow> \<forall>x\<in>snd ` set m. P x \<Longrightarrow> \<forall>x\<in>snd ` set (mput k v m). P x"
  by (induction m) auto

lemma mget_cases: "mget z m k = z \<or> mget z m k \<in> snd ` set m"
  by (cases "map_of m k") (auto simp: mget_def image_iff dest!: map_of_SomeD intro: bexI [rotated])

lemma computeK2_history:
  assumes "history_ok st" and "computeK2 now m acc g ql tiu ao ai qt ep k1 st = ((k2, src), st')"
  shows "history_ok st' \<and> (0 < k1 \<longrightarrow> 0 < k2)"
proof (cases "ql \<ge> go_trunc qt \<and> tiu > 0")
  case True
  let ?key = "historyKey m acc g ao"
  let ?ra = "mget (newRollingAverage now RollingAverageWindowSize) (ss_history st) ?key"
  have "window_ok ?ra"
    using mget_cases [of "newRollingAverage now RollingAverageWindowSize" "ss_history st" ?key] window_ok_new assms(1)
    by (metis history_ok_def)
  then have "window_ok (ra_Add now (of_int tiu) ?ra) \<and> ra_values (ra_Add now (of_int tiu) ?ra) \<noteq> []"
    using True by (intro window_ok_Add) auto
  then have "\<forall>ra\<in>snd ` set (mput ?key (ra_Add now (of_int tiu) ?ra) (ss_history st)). window_ok ra \<and> ra_values ra \<noteq> []"
    using assms(1) by (intro ball_mput) (simp_all add: history_ok_def)
  then have "history_ok (st\<lparr>ss_history := mput ?key (ra_Add now (of_int tiu) ?ra) (ss_history st)\<rparr>)"
    using assms(1) by (simp add: history_ok_def)
  then show ?thesis using assms(2) True by (auto simp: computeK2_def Let_def)
next
  case False
  have "1 \<le> ra_Average ra" if "map_of (ss_history st) (historyKey m acc g ao) = Some ra" for ra
    using assms(1) average_ge_one map_of_SomeD [OF that] by (force simp: history_ok_def)
  then show ?thesis using assms False
    by (auto simp: computeK2_def Let_def go_trunc_def split: option.splits if_splits)
qed

lemma replica_history:
  assumes "history_ok st"
  shows "history_ok (snd (computeReplicaCapacity now rm cfg m ns g role st))"
proof -
  obtain k2 src st1 where "computeK2 now m (rm_AcceleratorName rm) g (rm_QueueLength rm) (rm_TokensInUse rm)
      (rm_AvgOutputTokens rm) (rm_AvgInputTokens rm) (sc_QueueLengthThreshold cfg) (known_params st ns m (rm_VariantName rm))
      (go_trunc (of_int (rm_TotalKvCapacityTokens rm) * sc_KvCacheThreshold cfg)) st = ((k2, src), st1)"
    by (metis prod.collapse)
  moreover from computeK2_history [OF assms this] have "history_ok st1" by simp
  ultimately show ?thesis using assms by (simp add: computeReplicaCapacity_def Let_def history_ok_def)
qed

lemma phase_history: "history_ok st \<Longrightarrow> history_ok (snd (replica_phase now ctx_done i inp cfg rms st))"
  by (induction rms arbitrary: i st) (simp_all add: Let_def case_prod_beta replica_history)

text \<open>C39. The history the analyzer keeps stays well-formed: whatever the inputs, each window holds between
  one and ten observations of at least one token, through analyses that succeed or fail and through
  eviction; and so the capacity of a replica whose memory bound is positive is positive.\<close>

theorem history_invariant:
  assumes "history_ok st"
  shows "history_ok (snd (sat_Analyze now ctx_done inp st)) \<and> history_ok (snd (EvictStaleHistory now timeout st)) \<and>
    (0 < rm_TotalKvCapacityTokens rm \<and> 0 < go_trunc (of_int (rm_TotalKvCapacityTokens rm) * sc_KvCacheThreshold cfg) \<longrightarrow>
       (\<exists>r. fst (computeReplicaCapacity now rm cfg m ns g role st) = Some r \<and> 0 < rp_EffectiveCapacity r))"
proof (intro conjI impI)
  show "history_ok (snd (sat_Analyze now ctx_done inp st))"
    using assms phase_history [OF assms] by (auto simp: sat_Analyze_def split: option.split prod.split sum.split) (metis snd_conv)+
  show "history_ok (snd (EvictStaleHistory now timeout st))"
    using assms by (auto simp: history_ok_def EvictStaleHistory_def Let_def distinct_map_filter)
  let ?k1 = "go_trunc (of_int (rm_TotalKvCapacityTokens rm) * sc_KvCacheThreshold cfg)"
  assume pos: "0 < rm_TotalKvCapacityTokens rm \<and> 0 < ?k1"
  obtain k2 src st1 where k2: "computeK2 now m (rm_AcceleratorName rm) g (rm_QueueLength rm) (rm_TokensInUse rm)
      (rm_AvgOutputTokens rm) (rm_AvgInputTokens rm) (sc_QueueLengthThreshold cfg) (known_params st ns m (rm_VariantName rm))
      ?k1 st = ((k2, src), st1)" by (metis prod.collapse)
  from computeK2_history [OF assms this] pos have "0 < k2" by simp
  then show "\<exists>r. fst (computeReplicaCapacity now rm cfg m ns g role st) = Some r \<and> 0 < rp_EffectiveCapacity r"
    using k2 pos by (simp add: computeReplicaCapacity_def Let_def)
qed

lemma history_invariant_witness: "history_ok (snd (sat_Analyze 0 (\<lambda>_. False) example_input (NewSaturationAnalyzer [])))"
proof -
  have "history_ok (NewSaturationAnalyzer [])" by (simp add: history_ok_def NewSaturationAnalyzer_def)
  from history_invariant [OF this] show ?thesis by blast
qed

section \<open>The median\<close>

lemma strict_weak_less: "strict_weak ((<) :: int \<Rightarrow> int \<Rightarrow> bool)"
  by (auto simp: strict_weak_def)

lemma sorted_go_sort_int: "sorted (go_sort (<) (xs :: int list))"
  using sorted_go_sort [OF strict_weak_less, of xs] by (simp add: not_less)

lemma mean_between: "go_div (a + b) 2 \<in> {a..b}" if "0 \<le> a" "a \<le> b" for a b :: int
  using that by (simp add: go_div_nonneg) linarith

lemma sorted_counts:
  assumes "sorted (xs :: int list)" and "i < length xs"
  shows "Suc i \<le> length (filter (\<lambda>v. v \<le> xs ! i) xs)" and "length xs - i \<le> length (filter (\<lambda>v. xs ! i \<le> v) xs)"
proof -
  have "card {..i} \<le> card {j. j < length xs \<and> xs ! j \<le> xs ! i}"
    using assms sorted_nth_mono [OF assms(1)] by (intro card_mono) auto
  then show "Suc i \<le> length (filter (\<lambda>v. v \<le> xs ! i) xs)" by (simp add: length_filter_conv_card)
  have "card {i..<length xs} \<le> card {j. j < length xs \<and> xs ! i \<le> xs ! j}"
    using assms sorted_nth_mono [OF assms(1)] by (intro card_mono) auto
  then show "length xs - i \<le> length (filter (\<lambda>v. xs ! i \<le> v) xs)" by (simp add: length_filter_conv_card)
qed

lemma filter_mono_length: "(\<And>x. P x \<Longrightarrow> Q x) \<Longrightarrow> length (filter P xs) \<le> length (filter Q xs)"
  by (induction xs) auto

text \<open>The capacity of a variant is representative: the median of its replicas lies between two of their
  capacities next to each other in order, so at least half of the replicas have no more and at least
  half have no less.\<close>

theorem median_splits_replicas:
  assumes "values \<noteq> []" and "\<forall>v\<in>set values. 0 \<le> v \<and> v < 2 ^ 62"
  shows "length values \<le> 2 * length (filter (\<lambda>v. v \<le> median values) values) \<and>
    length values \<le> 2 * length (filter (\<lambda>v. median values \<le> v) values)"
proof -
  define xs where "xs = go_sort (<) values"
  define n where "n = length values"
  have len: "length xs = n" and st: "sorted xs" and sm: "mset xs = mset values" and n: "0 < n"
    using assms(1) sorted_go_sort_int by (simp_all add: xs_def n_def)
  define lo hi where "lo = (if n mod 2 = 0 then n div 2 - 1 else n div 2)" and "hi = n div 2"
  have idx: "lo \<le> hi" "hi < n" "n \<le> 2 * Suc lo" "n \<le> 2 * (n - hi)" using n by (auto simp: lo_def hi_def)
  have "xs ! lo \<in> set values" "xs ! hi \<in> set values"
    using idx len nth_mem [of _ xs] mset_eq_setD [OF sm] by auto
  then have range: "0 \<le> xs ! lo" "xs ! lo < 2 ^ 62" "0 \<le> xs ! hi" "xs ! hi < 2 ^ 62" using assms(2) by auto
  have ord: "xs ! lo \<le> xs ! hi" using sorted_nth_mono [OF st idx(1)] idx(2) len by simp
  have med: "xs ! lo \<le> median values \<and> median values \<le> xs ! hi"
    using mean_between [OF range(1) ord] n range wrap64_id [of "xs ! lo + xs ! hi"]
    by (cases "n mod 2 = 0") (simp_all add: median_def xs_def [symmetric] n_def [symmetric] Let_def lo_def hi_def)
  have count: "length (filter P xs) = length (filter P values)" for P
    using sm by (metis mset_filter size_mset)
  have "Suc lo \<le> length (filter (\<lambda>v. v \<le> median values) xs)"
    using sorted_counts(1) [OF st, of lo] filter_mono_length [of "\<lambda>v. v \<le> xs ! lo" "\<lambda>v. v \<le> median values" xs] idx len med by force
  moreover have "n - hi \<le> length (filter (\<lambda>v. median values \<le> v) xs)"
    using sorted_counts(2) [OF st, of hi] filter_mono_length [of "\<lambda>v. xs ! hi \<le> v" "\<lambda>v. median values \<le> v" xs] idx len med by force
  ultimately show ?thesis using idx(3,4) by (simp add: count n_def)
qed

lemma median_splits_replicas_witness:
  "4 \<le> 2 * length (filter (\<lambda>v. v \<le> median [300, 100, 200, 500]) [300, 100, 200, 500])"
  using median_splits_replicas [of "[300, 100, 200, 500]"] by simp

end
