(* ===== verification/Throughput.thy ===== *)
theory Throughput
  imports Itl_Model Saturation_V2
begin

text \<open>
  The throughput analyzer (\<open>throughput/analyzer.go\<close>, \<open>sanity.go\<close>): it calibrates a latency
  line per variant from the replicas it observes, and reports how many decode tokens per second the
  replicas can produce at saturation and how many are asked for.  Its state, one record per variant,
  is threaded through.  One call is one instant of the clock; \<open>cancelled i\<close> tells whether the
  context is found cancelled at its \<open>i\<close>-th check.  Logging is left out.
\<close>

section \<open>Constants and sanity checks\<close>

definition ThroughputAnalyzerName :: string where "ThroughputAnalyzerName = ''throughput''"

definition DefaultMinTokensPerRequest :: gofloat where "DefaultMinTokensPerRequest = 1"
definition DefaultBaselineITLSec :: gofloat where "DefaultBaselineITLSec = 6 / 1000"
definition DefaultQueueDrainFactor :: gofloat where "DefaultQueueDrainFactor = 2"
definition DefaultMinDecodeOLForLocalDemand :: gofloat where "DefaultMinDecodeOLForLocalDemand = 20"
definition DefaultGPSMismatchThresholdPct :: gofloat where "DefaultGPSMismatchThresholdPct = 15"
definition DefaultGPSMinKForVerification :: gofloat where "DefaultGPSMinKForVerification = 30 / 100"
definition DefaultGPSMismatchClearThreshold :: int where "DefaultGPSMismatchClearThreshold = 3"

definition itlReasonT1OLS :: string where "itlReasonT1OLS = ''T1-ols''"
definition itlReasonT2Default :: string where "itlReasonT2Default = ''T2-default''"
definition itlReasonT2Pinned :: string where "itlReasonT2Pinned = ''T2-pinned''"
definition itlReasonScaleFromZero :: string where "itlReasonScaleFromZero = ''T-sfz''"

datatype sanity_issue =
    SanityIssueNoReplicas
  | SanityIssueMissingKV
  | SanityIssueKVOutOfRange
  | SanityIssueITLNonPositive
  | SanityIssueMissingShape
  | SanityIssueStaleMetrics

record sanity_report =
  sr_Issues :: "sanity_issue list"
  sr_AffectedPods :: "string list"

definition sr_OK :: "sanity_report \<Rightarrow> bool" where
  "sr_OK r \<longleftrightarrow> sr_Issues r = []"

definition sr_Has :: "sanity_report \<Rightarrow> sanity_issue \<Rightarrow> bool" where
  "sr_Has r issue \<longleftrightarrow> issue \<in> set (sr_Issues r)"

definition checkReplicaMetrics :: "replica_metrics_v2 \<Rightarrow> sanity_issue list" where
  "checkReplicaMetrics m =
     (if rm_FreshnessStatus m = Some ''stale'' then [SanityIssueStaleMetrics] else []) @
     (if rm_TotalKvCapacityTokens m \<le> 0 then [SanityIssueMissingKV] else []) @
     (if rm_KvUsageInstant m < 0 \<or> rm_KvUsageInstant m > 1 then [SanityIssueKVOutOfRange] else []) @
     (if rm_AvgITL m \<le> 0 then [SanityIssueITLNonPositive] else []) @
     (if rm_AvgOutputTokens m \<le> DefaultMinTokensPerRequest \<or> rm_AvgInputTokens m \<le> DefaultMinTokensPerRequest
      then [SanityIssueMissingShape] else [])"

text \<open>Each issue once; the order of the issues is that of a map and left open.\<close>

definition CheckModelMetrics :: "replica_metrics_v2 list \<Rightarrow> sanity_report" where
  "CheckModelMetrics metrics =
     (if metrics = [] then \<lparr>sr_Issues = [SanityIssueNoReplicas], sr_AffectedPods = []\<rparr>
      else let bad = filter (\<lambda>m. checkReplicaMetrics m \<noteq> []) metrics
           in \<lparr>sr_Issues = remdups (concat (map checkReplicaMetrics bad)), sr_AffectedPods = map rm_PodName bad\<rparr>)"

section \<open>State\<close>

record throughput_variant =
  tv_shapeTracker :: shape_tracker
  tv_observationWindow :: observation_window
  tv_role :: string
  tv_lastSanityReport :: sanity_report
  tv_lastObservedAt :: "int option"
  tv_lastFittedB :: gofloat
  tv_hasFittedB :: bool
  tv_consecutiveGPSMismatches :: int
  tv_lastITLModel :: itl_model
  tv_lastPerReplicaSupply :: gofloat
  tv_lastTotalSupply :: gofloat
  tv_lastDemand :: gofloat

type_synonym throughput_state = "(string, throughput_variant) gomap"

text \<open>\<^const>\<open>None\<close> as the last observation is the zero time, further in the past than any window.\<close>

definition default_window :: observation_window where
  "default_window = newObservationWindow DefaultWindowMaxSize DefaultObservationMaxAge DefaultMinSamples
     DefaultMinKSpread DefaultMinObservableK DefaultMaxObservableK"

definition new_variant :: throughput_variant where
  "new_variant = \<lparr>tv_shapeTracker = newShapeTracker DefaultShapeChangeTolerance, tv_observationWindow = default_window,
     tv_role = [], tv_lastSanityReport = \<lparr>sr_Issues = [], sr_AffectedPods = []\<rparr>, tv_lastObservedAt = None,
     tv_lastFittedB = 0, tv_hasFittedB = False, tv_consecutiveGPSMismatches = 0, tv_lastITLModel = zero_model,
     tv_lastPerReplicaSupply = 0, tv_lastTotalSupply = 0, tv_lastDemand = 0\<rparr>"

definition variantKey :: "string \<Rightarrow> string \<Rightarrow> string \<Rightarrow> string" where
  "variantKey namespace modelID variantName = namespace @ [CHR 0x00] @ modelID @ [CHR 0x00] @ variantName"

text \<open>The state of a key, created when it is absent; the caller writes it back.\<close>

definition getOrCreateVariantState :: "string \<Rightarrow> throughput_state \<Rightarrow> throughput_variant" where
  "getOrCreateVariantState key sts = mget new_variant sts key"

section \<open>Observation\<close>

definition groupByVariant :: "replica_metrics_v2 list \<Rightarrow> (string, replica_metrics_v2 list) gomap" where
  "groupByVariant metrics = fold (\<lambda>m groups. mput (rm_VariantName m) (mget [] groups (rm_VariantName m) @ [m]) groups) metrics []"

definition filterHealthyForShape :: "replica_metrics_v2 list \<Rightarrow> replica_metrics_v2 list" where
  "filterHealthyForShape metrics = filter (\<lambda>m. checkReplicaMetrics m = []) metrics"

definition averageShapeMetrics :: "replica_metrics_v2 list \<Rightarrow> gofloat \<times> gofloat \<times> gofloat" where
  "averageShapeMetrics metrics =
     (let eligible = filter (\<lambda>m. \<not> (rm_AvgInputTokens m \<le> DefaultMinTokensPerRequest \<or>
              rm_AvgOutputTokens m \<le> DefaultMinTokensPerRequest)) metrics;
          busy = filter (\<lambda>m. rm_RequestRate m > 0) eligible;
          count = real (length eligible);
          totalWeight = (\<Sum>m\<leftarrow>busy. rm_RequestRate m);
          plain = (\<lambda>f. (\<Sum>m\<leftarrow>eligible. f m) / count);
          weighted = (\<lambda>f. (\<Sum>m\<leftarrow>busy. rm_RequestRate m * f m) / totalWeight)
      in if count = 0 then (0, 0, 0)
         else if totalWeight = 0 then (plain rm_AvgInputTokens, plain rm_AvgOutputTokens, plain rm_PrefixCacheHitRate)
         else (weighted rm_AvgInputTokens, weighted rm_AvgOutputTokens, weighted rm_PrefixCacheHitRate))"

definition observe_variant :: "int \<Rightarrow> replica_metrics_v2 list \<Rightarrow> throughput_variant \<Rightarrow> throughput_variant" where
  "observe_variant now variantMetrics state0 =
     (let report = CheckModelMetrics variantMetrics;
          state = state0\<lparr>tv_lastSanityReport := report, tv_lastObservedAt := Some now\<rparr>;
          healthy = filterHealthyForShape variantMetrics
      in if sr_Has report SanityIssueNoReplicas then state
         else if healthy = [] then state
         else let (il, ol, hitRate) = averageShapeMetrics healthy;
                  ((_, changed), tracker) = sh_Observe il ol hitRate (tv_shapeTracker state);
                  window0 = (if changed then ow_Clear (tv_observationWindow state) else tv_observationWindow state);
                  mismatches = (if changed then 0 else tv_consecutiveGPSMismatches state);
                  window = fold (\<lambda>m w. snd (ow_Add (rm_KvUsageInstant m) (rm_AvgITL m) now w)) healthy window0
              in state\<lparr>tv_shapeTracker := tracker, tv_consecutiveGPSMismatches := mismatches,
                   tv_observationWindow := ow_Prune now window\<rparr>)"

text \<open>States not observed for twice the maximal age of an observation are forgotten.\<close>

definition expired :: "int \<Rightarrow> throughput_variant \<Rightarrow> bool" where
  "expired now state = (case tv_lastObservedAt state of
     None \<Rightarrow> True | Some t \<Rightarrow> now - t > 2 * DefaultObservationMaxAge)"

definition observe_group :: "int \<Rightarrow> string \<Rightarrow> string \<Rightarrow> string \<times> replica_metrics_v2 list \<Rightarrow> throughput_state \<Rightarrow> throughput_state" where
  "observe_group now modelID namespace g sts =
     mput (variantKey namespace modelID (fst g))
       (observe_variant now (snd g) (getOrCreateVariantState (variantKey namespace modelID (fst g)) sts)) sts"

definition ta_Observe :: "bool \<Rightarrow> int \<Rightarrow> string \<Rightarrow> string \<Rightarrow> replica_metrics_v2 list \<Rightarrow> throughput_state \<Rightarrow>
    (string, sanity_report) gomap option \<times> throughput_state" where
  "ta_Observe cancelled now modelID namespace metrics sts =
     (if cancelled then (None, sts)
      else let byVariant = groupByVariant metrics;
               observed = fold (observe_group now modelID namespace) byVariant sts
           in (Some (map (\<lambda>(v, ms). (v, CheckModelMetrics ms)) byVariant), filter (\<lambda>(_, s). \<not> expired now s) observed))"

section \<open>Model, supply and demand of a variant\<close>

text \<open>Least squares through the replicas of this cycle with the intercept pinned.\<close>

definition pinned_slope :: "gofloat \<Rightarrow> replica_metrics_v2 list \<Rightarrow> gofloat option" where
  "pinned_slope b metrics =
     (let used = filter (\<lambda>m. rm_KvUsageInstant m > 0 \<and> rm_AvgITL m > 0) metrics;
          numerator = (\<Sum>m\<leftarrow>used. (rm_AvgITL m - b) * rm_KvUsageInstant m);
          sumK2 = (\<Sum>m\<leftarrow>used. rm_KvUsageInstant m * rm_KvUsageInstant m)
      in if used \<noteq> [] \<and> sumK2 > 0 then Some (numerator / sumK2) else None)"

definition resolveITLModel :: "throughput_variant \<Rightarrow> replica_metrics_v2 list \<Rightarrow> (itl_model \<times> string) option \<times> throughput_variant" where
  "resolveITLModel state metrics =
     (case (if ow_Ready (tv_observationWindow state) then FitITLModel (ow_observations (tv_observationWindow state)) else None) of
        Some model \<Rightarrow> (Some (model, itlReasonT1OLS), state\<lparr>tv_lastFittedB := im_B model, tv_hasFittedB := True\<rparr>)
      | None \<Rightarrow>
          (let baselineB = (if tv_hasFittedB state then tv_lastFittedB state else DefaultBaselineITLSec);
               label = (if tv_hasFittedB state then itlReasonT2Pinned else itlReasonT2Default)
           in case pinned_slope baselineB metrics of
                Some A \<Rightarrow> (if validITLModel A baselineB then (Some (\<lparr>im_A = A, im_B = baselineB\<rparr>, label), state) else (None, state))
              | None \<Rightarrow> (None, state)))"

definition computeDemand :: "replica_metrics_v2 list \<Rightarrow> gofloat \<times> bool" where
  "computeDemand metrics =
     (let isEPP = list_ex (\<lambda>m. rm_ArrivalRate m > 0) metrics;
          lambdaDec = (\<Sum>m\<leftarrow>metrics. if rm_ArrivalRate m > 0 \<and> rm_AvgOutputTokens m > 0
             then rm_ArrivalRate m * rm_AvgOutputTokens m else 0);
          fallback = (\<Sum>m\<leftarrow>metrics. if rm_RequestRate m > 0 \<and> rm_AvgOutputTokens m > 0
             then rm_RequestRate m * rm_AvgOutputTokens m else 0)
      in if lambdaDec > 0 then (lambdaDec, isEPP) else (fallback, isEPP))"

definition computeLocalDemand :: "replica_metrics_v2 list \<Rightarrow> workload_shape \<Rightarrow> itl_model \<Rightarrow> gofloat" where
  "computeLocalDemand metrics shape model =
     (if ws_KVreq shape \<le> 0 \<or> ws_AvgOutputTokens shape \<le> DefaultMinDecodeOLForLocalDemand then 0
      else (\<Sum>m\<leftarrow>metrics.
        if rm_KvUsageInstant m \<le> 0 \<or> rm_TotalKvCapacityTokens m \<le> 0 \<or> rm_KvUsageInstant m > 1 \<or>
          ITLAt model (rm_KvUsageInstant m) \<le> 0 then 0
        else rm_KvUsageInstant m * of_int (rm_TotalKvCapacityTokens m) / ws_KVreq shape / ITLAt model (rm_KvUsageInstant m)))"

definition estimateQueueDemand :: "scheduler_queue option \<Rightarrow> gofloat \<Rightarrow> gofloat \<Rightarrow> gofloat" where
  "estimateQueueDemand sq itlSat drainFactor = (case sq of
     None \<Rightarrow> 0
   | Some q \<Rightarrow> if sq_QueueSize q \<le> 0 \<or> itlSat \<le> 0 \<or> drainFactor \<le> 0 then 0
       else of_int (sq_QueueSize q) / (drainFactor * itlSat))"

definition computeVariantSupply :: "replica_metrics_v2 list \<Rightarrow> workload_shape \<Rightarrow> gofloat \<Rightarrow> gofloat \<times> gofloat \<times> int" where
  "computeVariantSupply metrics shape itlSat =
     (let kv = filter (\<lambda>m. \<not> rm_TotalKvCapacityTokens m \<le> 0) metrics;
          sum = (\<Sum>m\<leftarrow>kv. DefaultKSat * of_int (rm_TotalKvCapacityTokens m) / ws_KVreq shape / itlSat)
      in if kv = [] then (0, 0, 0) else (sum, sum / real (length kv), int (length kv)))"

definition safeDivide :: "gofloat \<Rightarrow> gofloat \<Rightarrow> gofloat" where
  "safeDivide num denom = (if denom = 0 then 0 else num / denom)"

text \<open>The diagnostics near saturation only write to the log and are left out.\<close>

definition checkVariantGPSMismatch :: "replica_metrics_v2 list \<Rightarrow> workload_shape \<Rightarrow> itl_model \<Rightarrow> bool" where
  "checkVariantGPSMismatch metrics shape model =
     (if ws_KVreq shape \<le> 0 then False
      else list_ex (\<lambda>m.
        let itlAtK = ITLAt model (rm_KvUsageInstant m);
            nDec = rm_KvUsageInstant m * of_int (rm_TotalKvCapacityTokens m) / ws_KVreq shape;
            muDecModel = nDec / itlAtK
        in if rm_GenerationTokenRate m \<le> 0 \<or> rm_KvUsageInstant m < DefaultGPSMinKForVerification then False
           else if rm_TotalKvCapacityTokens m \<le> 0 then False
           else if itlAtK \<le> 0 then False
           else if muDecModel \<le> 0 then False
           else \<not> \<bar>muDecModel - rm_GenerationTokenRate m\<bar> / rm_GenerationTokenRate m * 100 \<le> DefaultGPSMismatchThresholdPct)
        metrics)"

section \<open>The report of a model\<close>

text \<open>Demand is split evenly over the roles that decode; \<^const>\<open>None\<close> is the nil map.\<close>

definition distributeDemandByRole :: "gofloat \<Rightarrow> variant_capacity list \<Rightarrow> (string, gofloat) gomap option" where
  "distributeDemandByRole demand vcs =
     (if demand = 0 then None
      else let roles = remdups (filter (\<lambda>role. role \<noteq> RolePrefill) (map (\<lambda>vc. canon_role (vc_Role vc)) vcs)) in
        if roles = [] then None
        else Some (map (\<lambda>role. (role, demand / real (length roles))) roles))"

definition role_share :: "(string, gofloat) gomap option \<Rightarrow> string \<Rightarrow> gofloat" where
  "role_share m role = (case m of None \<Rightarrow> 0 | Some m' \<Rightarrow> mget 0 m' role)"

definition aggregateRoleCapacities :: "variant_capacity list \<Rightarrow> (string, gofloat) gomap option \<Rightarrow> (string, gofloat) gomap option \<Rightarrow>
    (string, role_capacity) gomap option" where
  "aggregateRoleCapacities vcs arrivalDemandByRole queueDemandByRole =
     (let byRole = AggregateByRole vcs in
      if byRole = [] \<or> length byRole = 1 \<and> mhas byRole RoleBoth then None
      else Some (map (\<lambda>(role, t). (role, \<lparr>rc_Role = role, rc_TotalSupply = sct_TotalSupply t,
          rc_TotalDemand = role_share arrivalDemandByRole role + role_share queueDemandByRole role,
          rc_TotalAnticipatedSupply = sct_TotalAnticipatedSupply t, rc_RequiredCapacity = 0, rc_SpareCapacity = 0\<rparr>)) byRole))"

record throughput_acc =
  ta_totalDecodeITLSat :: gofloat
  ta_totalDecodeOL :: gofloat
  ta_totalDecodeKV :: int
  ta_nDecodeVariants :: nat
  ta_variantCapacities :: "variant_capacity list"

definition zero_acc :: throughput_acc where
  "zero_acc = \<lparr>ta_totalDecodeITLSat = 0, ta_totalDecodeOL = 0, ta_totalDecodeKV = 0, ta_nDecodeVariants = 0, ta_variantCapacities = []\<rparr>"

text \<open>A mismatch between the model and the observed rate that persists clears the window.\<close>

definition note_mismatch :: "bool \<Rightarrow> throughput_variant \<Rightarrow> throughput_variant" where
  "note_mismatch mismatch state =
     (if \<not> mismatch then state\<lparr>tv_consecutiveGPSMismatches := 0\<rparr>
      else let n = tv_consecutiveGPSMismatches state + 1 in
        if n \<ge> DefaultGPSMismatchClearThreshold
        then state\<lparr>tv_observationWindow := ow_Clear (tv_observationWindow state), tv_consecutiveGPSMismatches := 0\<rparr>
        else state\<lparr>tv_consecutiveGPSMismatches := n\<rparr>)"

text \<open>The sizing of a variant that has a usable model and replicas with a cache.\<close>

definition size_variant :: "int \<Rightarrow> string \<times> replica_metrics_v2 list \<Rightarrow> workload_shape \<Rightarrow> itl_model \<Rightarrow> string \<Rightarrow> throughput_acc \<Rightarrow>
    throughput_variant \<Rightarrow> throughput_acc \<times> throughput_variant" where
  "size_variant pending g shape model reason acc state =
     (let variantMetrics = snd g; itlSat = ITLAt model DefaultKSat;
          (supply, perReplicaSupply, nKV) = computeVariantSupply variantMetrics shape itlSat;
          demand0 = fst (computeDemand variantMetrics);
          demand = (if demand0 = 0 then computeLocalDemand variantMetrics shape model else demand0);
          state1 = state\<lparr>tv_lastITLModel := model, tv_lastPerReplicaSupply := perReplicaSupply,
            tv_lastTotalSupply := supply, tv_lastDemand := demand\<rparr>;
          acc1 = (if tv_role state \<noteq> RolePrefill
            then acc\<lparr>ta_totalDecodeITLSat := ta_totalDecodeITLSat acc + itlSat,
                  ta_totalDecodeOL := ta_totalDecodeOL acc + of_int nKV * ws_AvgOutputTokens shape,
                  ta_totalDecodeKV := ta_totalDecodeKV acc + nKV, ta_nDecodeVariants := ta_nDecodeVariants acc + 1\<rparr>
            else acc);
          totalCapacity = of_int nKV * perReplicaSupply;
          vc = zero_capacity\<lparr>vc_VariantName := fst g, vc_Role := tv_role state, vc_ReplicaCount := nKV, vc_PendingReplicas := pending,
            vc_PerReplicaCapacity := perReplicaSupply, vc_TotalCapacity := totalCapacity, vc_TotalDemand := demand,
            vc_Utilization := safeDivide demand totalCapacity, vc_Reason := reason\<rparr>
      in (acc1\<lparr>ta_variantCapacities := ta_variantCapacities acc1 @ [vc]\<rparr>,
          note_mismatch (checkVariantGPSMismatch (filterHealthyForShape variantMetrics) shape model) state1))"

definition analyze_variant :: "analyzer_input \<Rightarrow> (string, int) gomap \<Rightarrow> string \<times> replica_metrics_v2 list \<Rightarrow> throughput_acc \<times> throughput_state \<Rightarrow>
    throughput_acc \<times> throughput_state" where
  "analyze_variant inp pendingByVariant g x =
     (let (acc, sts) = x; key = variantKey (in_Namespace inp) (in_ModelID inp) (fst g) in
      case map_of sts key of
        None \<Rightarrow> (acc, sts)
      | Some state \<Rightarrow>
          (let (shape, hasShape) = sh_Current (tv_shapeTracker state) in
           if \<not> hasShape \<or> ws_KVreq shape \<le> 0 then (acc, sts)
           else (case resolveITLModel state (filterHealthyForShape (snd g)) of
               (None, state1) \<Rightarrow> (acc, mput key state1 sts)
             | (Some (model, reason), state1) \<Rightarrow>
                 if ITLAt model DefaultKSat \<le> 0 then (acc, mput key state1 sts)
                 else if fst (computeVariantSupply (snd g) shape (ITLAt model DefaultKSat)) = 0 then (acc, mput key state1 sts)
                 else let (acc', state2) = size_variant (mget 0 pendingByVariant (fst g)) g shape model reason acc state1
                      in (acc', mput key state2 sts))))"

text \<open>A variant without replicas that was sized before stays selectable at its last capacity.\<close>

definition from_zero :: "analyzer_input \<Rightarrow> (string, replica_metrics_v2 list) gomap \<Rightarrow> throughput_state \<Rightarrow> variant_replica_state \<Rightarrow>
    variant_capacity option" where
  "from_zero inp byVariant sts vs =
     (if mhas byVariant (st_VariantName vs) then None
      else case map_of sts (variantKey (in_Namespace inp) (in_ModelID inp) (st_VariantName vs)) of
        None \<Rightarrow> None
      | Some st \<Rightarrow> if tv_lastPerReplicaSupply st \<le> 0 then None
          else Some (zero_capacity\<lparr>vc_VariantName := st_VariantName vs, vc_Role := tv_role st,
            vc_PerReplicaCapacity := tv_lastPerReplicaSupply st, vc_Reason := itlReasonScaleFromZero\<rparr>))"

definition throughput_result :: "analyzer_input \<Rightarrow> throughput_acc \<Rightarrow> variant_capacity list \<Rightarrow> analyzer_result" where
  "throughput_result inp acc vcs =
     (let decode = ta_nDecodeVariants acc > 0;
          avgOL = ta_totalDecodeOL acc / of_int (ta_totalDecodeKV acc);
          arrival = (if decode then in_ArrivalRate inp * avgOL else 0);
          queue = (if decode then estimateQueueDemand (in_SchedulerQueue inp)
             (ta_totalDecodeITLSat acc / real (ta_nDecodeVariants acc)) DefaultQueueDrainFactor else 0);
          arrivalByRole = (if decode then distributeDemandByRole arrival vcs else None);
          queueByRole = (if decode then distributeDemandByRole queue vcs else None)
      in \<lparr>ar_AnalyzerName = ThroughputAnalyzerName, ar_ModelID = in_ModelID inp, ar_Namespace = in_Namespace inp,
          ar_VariantCapacities = vcs, ar_TotalSupply = SumTotalSupply vcs, ar_TotalDemand = arrival + queue,
          ar_Utilization = safeDivide (arrival + queue) (SumTotalSupply vcs),
          ar_TotalAnticipatedSupply = SumTotalAnticipatedSupply vcs, ar_RequiredCapacity = 0, ar_SpareCapacity = 0,
          ar_RoleCapacities = aggregateRoleCapacities vcs arrivalByRole queueByRole\<rparr>)"

definition set_roles :: "analyzer_input \<Rightarrow> throughput_state \<Rightarrow> throughput_state" where
  "set_roles inp sts = fold (\<lambda>vs sts. let key = variantKey (in_Namespace inp) (in_ModelID inp) (st_VariantName vs) in
     mput key ((getOrCreateVariantState key sts)\<lparr>tv_role := st_Role vs\<rparr>) sts) (in_VariantStates inp) sts"

definition pending_by_variant :: "variant_replica_state list \<Rightarrow> (string, int) gomap" where
  "pending_by_variant states = fold (\<lambda>vs. mput (st_VariantName vs) (st_PendingReplicas vs)) states []"

definition ta_Analyze :: "int \<Rightarrow> (nat \<Rightarrow> bool) \<Rightarrow> analyzer_input \<Rightarrow> throughput_state \<Rightarrow> (analysis_error + analyzer_result) \<times> throughput_state" where
  "ta_Analyze now cancelled inp sts =
     (if cancelled 0 then (Inl ContextDone, sts)
      else let observed = snd (ta_Observe (cancelled 1) now (in_ModelID inp) (in_Namespace inp) (in_ReplicaMetrics inp) (set_roles inp sts));
               byVariant = groupByVariant (in_ReplicaMetrics inp);
               (acc, sts') = fold (analyze_variant inp (pending_by_variant (in_VariantStates inp))) byVariant (zero_acc, observed);
               vcs = ta_variantCapacities acc @ List.map_filter (from_zero inp byVariant sts') (in_VariantStates inp)
           in (Inr (throughput_result inp acc vcs), sts'))"

section \<open>The snapshot of a variant\<close>

record throughput_snapshot =
  tvs_Shape :: workload_shape
  tvs_ObservationReady :: bool
  tvs_KSpread :: gofloat
  tvs_SampleCount :: nat
  tvs_LastSanityReport :: sanity_report
  tvs_ITLModel :: itl_model
  tvs_PerReplicaSupply :: gofloat
  tvs_TotalSupply :: gofloat
  tvs_Demand :: gofloat
  tvs_Role :: string
  tvs_LastFittedB :: gofloat
  tvs_HasFittedB :: bool

definition ta_VariantState :: "string \<Rightarrow> string \<Rightarrow> string \<Rightarrow> throughput_state \<Rightarrow> throughput_snapshot option" where
  "ta_VariantState modelID namespace variantName sts =
     map_option (\<lambda>state. \<lparr>tvs_Shape = fst (sh_Current (tv_shapeTracker state)),
       tvs_ObservationReady = ow_Ready (tv_observationWindow state), tvs_KSpread = ow_KSpread (tv_observationWindow state),
       tvs_SampleCount = length (ow_observations (tv_observationWindow state)), tvs_LastSanityReport = tv_lastSanityReport state,
       tvs_ITLModel = tv_lastITLModel state, tvs_PerReplicaSupply = tv_lastPerReplicaSupply state,
       tvs_TotalSupply = tv_lastTotalSupply state, tvs_Demand = tv_lastDemand state, tvs_Role = tv_role state,
       tvs_LastFittedB = tv_lastFittedB state, tvs_HasFittedB = tv_hasFittedB state\<rparr>)
     (map_of sts (variantKey namespace modelID variantName))"

section \<open>The calibration state is kept\<close>

text \<open>What holds of every variant the analyzer knows at a time: its window keeps the contract of windows, a
  shape that was seen has a positive footprint, the mismatch counter stays below the limit that clears
  the window, and the remembered supply is not negative.\<close>

definition variant_ok :: "int \<Rightarrow> throughput_variant \<Rightarrow> bool" where
  "variant_ok now s \<longleftrightarrow> obs_window_ok default_window now (tv_observationWindow s) \<and>
     (sh_hasShape (tv_shapeTracker s) \<longrightarrow> 0 < ws_AvgOutputTokens (sh_current (tv_shapeTracker s)) \<and> 0 < ws_KVreq (sh_current (tv_shapeTracker s))) \<and>
     0 \<le> tv_consecutiveGPSMismatches s \<and> tv_consecutiveGPSMismatches s < DefaultGPSMismatchClearThreshold \<and>
     0 \<le> tv_lastPerReplicaSupply s"

definition states_ok :: "int \<Rightarrow> throughput_state \<Rightarrow> bool" where
  "states_ok now sts \<longleftrightarrow> (\<forall>s\<in>snd ` set sts. variant_ok now s)"

lemma obs_window_ok_later: "obs_window_ok w0 t w \<Longrightarrow> t \<le> now \<Longrightarrow> obs_window_ok w0 now w"
  by (fastforce simp: obs_window_ok_def observation_ok_def)

lemma states_ok_later: "states_ok t sts \<Longrightarrow> t \<le> now \<Longrightarrow> states_ok now sts"
  unfolding states_ok_def variant_ok_def using obs_window_ok_later by blast

lemma states_ok_put: "states_ok now sts \<Longrightarrow> variant_ok now s \<Longrightarrow> states_ok now (mput k s sts)"
  unfolding states_ok_def by (rule ball_mput [of "variant_ok now"])

lemma new_variant_ok: "variant_ok now new_variant"
  by (simp add: variant_ok_def new_variant_def obs_window_ok_start default_window_def newObservationWindow_def newShapeTracker_def
      DefaultGPSMismatchClearThreshold_def)

lemma states_ok_get: "states_ok now sts \<Longrightarrow> variant_ok now (getOrCreateVariantState k sts)"
  using mget_cases [of new_variant sts k] new_variant_ok [of now] by (auto simp: states_ok_def getOrCreateVariantState_def)

lemma states_ok_map_of: "states_ok now sts \<Longrightarrow> map_of sts k = Some s \<Longrightarrow> variant_ok now s"
  by (force simp: states_ok_def dest: map_of_SomeD)

lemma set_roles_ok: "states_ok now sts \<Longrightarrow> states_ok now (set_roles inp sts)"
proof -
  have "states_ok now (fold (\<lambda>vs sts. let key = variantKey ns m (st_VariantName vs) in
      mput key ((getOrCreateVariantState key sts)\<lparr>tv_role := st_Role vs\<rparr>) sts) vss sts)" if "states_ok now sts" for ns m vss sts
    using that
  proof (induction vss arbitrary: sts)
    case (Cons vs vss)
    let ?key = "variantKey ns m (st_VariantName vs)"
    have "variant_ok now ((getOrCreateVariantState ?key sts)\<lparr>tv_role := st_Role vs\<rparr>)"
      using states_ok_get [OF Cons.prems, of ?key] by (simp add: variant_ok_def)
    then show ?case using Cons.IH states_ok_put [OF Cons.prems] by (simp add: Let_def)
  qed simp
  then show "states_ok now sts \<Longrightarrow> states_ok now (set_roles inp sts)" unfolding set_roles_def by blast
qed

lemma healthy_facts:
  assumes "m \<in> set (filterHealthyForShape ms)"
  shows "1 < rm_AvgInputTokens m" "1 < rm_AvgOutputTokens m" "0 < rm_AvgITL m" "0 < rm_TotalKvCapacityTokens m"
    "0 \<le> rm_KvUsageInstant m" "rm_KvUsageInstant m \<le> 1"
  using assms by (auto simp: filterHealthyForShape_def checkReplicaMetrics_def DefaultMinTokensPerRequest_def split: if_splits)

lemma mean_positive:
  fixes f w :: "'a \<Rightarrow> real"
  assumes "xs \<noteq> []" and "\<forall>x\<in>set xs. 0 < f x \<and> 0 < w x"
  shows "0 < (\<Sum>x\<leftarrow>xs. w x * f x)" and "0 < (\<Sum>x\<leftarrow>xs. w x)"
proof -
  have "0 < (\<Sum>x\<leftarrow>ys. g x)" if "ys \<noteq> []" "\<forall>x\<in>set ys. 0 < g x" for ys :: "'a list" and g :: "'a \<Rightarrow> real"
    using that
  proof (induction ys)
    case (Cons y ys)
    then show ?case by (cases "ys = []") auto
  qed simp
  then show "0 < (\<Sum>x\<leftarrow>xs. w x * f x)" "0 < (\<Sum>x\<leftarrow>xs. w x)" using assms by simp_all
qed

lemma shape_average_positive:
  assumes "filterHealthyForShape ms \<noteq> []" and "averageShapeMetrics (filterHealthyForShape ms) = (il, ol, h)"
  shows "0 < il" and "0 < ol"
proof -
  let ?hs = "filterHealthyForShape ms"
  let ?busy = "filter (\<lambda>m. 0 < rm_RequestRate m) ?hs"
  have tokens: "1 < rm_AvgInputTokens m \<and> 1 < rm_AvgOutputTokens m" if "m \<in> set ?hs" for m
    using healthy_facts(1,2) [OF that] by (rule conjI)
  have e: "filter (\<lambda>m. \<not> (rm_AvgInputTokens m \<le> DefaultMinTokensPerRequest \<or> rm_AvgOutputTokens m \<le> DefaultMinTokensPerRequest)) ?hs = ?hs"
  proof (rule filter_True, rule ballI)
    fix m assume "m \<in> set ?hs"
    from tokens [OF this]
    show "\<not> (rm_AvgInputTokens m \<le> DefaultMinTokensPerRequest \<or> rm_AvgOutputTokens m \<le> DefaultMinTokensPerRequest)"
      by (simp add: DefaultMinTokensPerRequest_def)
  qed
  have pos: "\<forall>m\<in>set ?hs. 0 < rm_AvgInputTokens m \<and> 0 < rm_AvgOutputTokens m"
  proof
    fix m assume "m \<in> set ?hs"
    from tokens [OF this] show "0 < rm_AvgInputTokens m \<and> 0 < rm_AvgOutputTokens m" by auto
  qed
  have plain: "0 < (\<Sum>m\<leftarrow>?hs. f m)" if "\<forall>m\<in>set ?hs. 0 < f m" for f :: "replica_metrics_v2 \<Rightarrow> real"
    using mean_positive(1) [of ?hs f "\<lambda>_. 1"] assms(1) that by simp
  have busy: "0 < (\<Sum>m\<leftarrow>?busy. rm_RequestRate m * f m) \<and> 0 < (\<Sum>m\<leftarrow>?busy. rm_RequestRate m)"
    if "?busy \<noteq> []" "\<forall>m\<in>set ?hs. 0 < f m" for f :: "replica_metrics_v2 \<Rightarrow> real"
  proof -
    have "\<forall>m\<in>set ?busy. 0 < f m \<and> 0 < rm_RequestRate m" using that(2) by simp
    from mean_positive [OF that(1) this] show ?thesis by (rule conjI)
  qed
  have "0 < il \<and> 0 < ol"
  proof (cases "?busy = []")
    case True
    have "0 < (\<Sum>m\<leftarrow>?hs. rm_AvgInputTokens m)" "0 < (\<Sum>m\<leftarrow>?hs. rm_AvgOutputTokens m)" using plain pos by blast+
    then show ?thesis using assms unfolding averageShapeMetrics_def e Let_def True by auto
  next
    case False
    have "0 < (\<Sum>m\<leftarrow>?busy. rm_RequestRate m * rm_AvgInputTokens m) \<and> 0 < (\<Sum>m\<leftarrow>?busy. rm_RequestRate m)"
      "0 < (\<Sum>m\<leftarrow>?busy. rm_RequestRate m * rm_AvgOutputTokens m) \<and> 0 < (\<Sum>m\<leftarrow>?busy. rm_RequestRate m)"
      using pos by (intro busy [OF False] ballI; blast)+
    then show ?thesis using assms unfolding averageShapeMetrics_def e Let_def by auto
  qed
  then show "0 < il" "0 < ol" by auto
qed

lemma new_shape_positive:
  "0 < il \<Longrightarrow> 0 < ol \<Longrightarrow> 0 < ws_AvgOutputTokens (newWorkloadShape il ol h) \<and> 0 < ws_KVreq (newWorkloadShape il ol h)"
  by (auto simp: newWorkloadShape_def Let_def add_nonneg_pos)

lemma tracker_observed:
  "sh_current (snd (sh_Observe il ol h t)) = newWorkloadShape il ol h" "sh_hasShape (snd (sh_Observe il ol h t))"
  by (auto simp: sh_Observe_def Let_def)

lemma window_fold_ok:
  "obs_window_ok w0 now w \<Longrightarrow> obs_window_ok w0 now (fold (\<lambda>m w. snd (ow_Add (f m) (g m) now w)) ms w)"
  by (induction ms arbitrary: w) (simp_all add: obs_window_ok_add)

lemma observe_variant_ok:
  assumes "variant_ok now s"
  shows "variant_ok now (observe_variant now ms s)"
proof (cases "sr_Has (CheckModelMetrics ms) SanityIssueNoReplicas \<or> filterHealthyForShape ms = []")
  case True
  then show ?thesis using assms by (auto simp: observe_variant_def Let_def variant_ok_def)
next
  case False
  obtain il ol h where avg: "averageShapeMetrics (filterHealthyForShape ms) = (il, ol, h)"
    by (cases "averageShapeMetrics (filterHealthyForShape ms)")
  have pos: "0 < il" "0 < ol" using shape_average_positive [OF _ avg] False by auto
  note shape = new_shape_positive [OF pos, of h]
  have "obs_window_ok default_window now (if c then ow_Clear (tv_observationWindow s) else tv_observationWindow s)" for c
    using assms by (simp add: variant_ok_def obs_window_ok_clear)
  then have win: "obs_window_ok default_window now (ow_Prune now (fold (\<lambda>m w. snd (ow_Add (rm_KvUsageInstant m) (rm_AvgITL m) now w))
      (filterHealthyForShape ms) (if c then ow_Clear (tv_observationWindow s) else tv_observationWindow s)))" for c
    by (rule obs_window_ok_prune [OF window_fold_ok]) simp_all
  show ?thesis using False assms shape win [of True] win [of False]
    by (simp add: observe_variant_def Let_def avg case_prod_beta variant_ok_def tracker_observed
        DefaultGPSMismatchClearThreshold_def)
qed

lemma ta_Observe_ok:
  assumes "states_ok now sts"
  shows "states_ok now (snd (ta_Observe cancelled now m ns ms sts))"
proof -
  have "states_ok now (fold (observe_group now m ns) gs sts)" if "states_ok now sts" for gs sts
    using that
    by (induction gs arbitrary: sts) (simp_all add: observe_group_def observe_variant_ok states_ok_get states_ok_put)
  from this [OF assms, of "groupByVariant ms"] show ?thesis
    using assms by (auto simp: ta_Observe_def Let_def states_ok_def)
qed

text \<open>What a model resolved for a variant has in common with one fitted to its window.\<close>

lemma resolve_valid:
  assumes "resolveITLModel s ms = (Some (model, reason), s')"
  shows "validITLModel (im_A model) (im_B model)"
  using assms FitITLModel_Some(3) by (auto simp: resolveITLModel_def Let_def split: option.splits if_splits)

lemma resolve_frame:
  "snd (resolveITLModel s ms) = s \<or> (\<exists>b. snd (resolveITLModel s ms) = s\<lparr>tv_lastFittedB := b, tv_hasFittedB := True\<rparr>)"
  by (auto simp: resolveITLModel_def Let_def split: option.splits)

lemma resolve_ok: "variant_ok now s \<Longrightarrow> resolveITLModel s ms = (r, s') \<Longrightarrow> variant_ok now s'"
  using resolve_frame [of s ms] by (auto simp: variant_ok_def)

lemma supply_facts:
  assumes "0 < ws_KVreq shape" and "0 < itlSat" and "computeVariantSupply ms shape itlSat = (supply, per, n)"
  shows "0 \<le> per" and "supply \<noteq> 0 \<Longrightarrow> 0 < per \<and> 0 < n" and "of_int n * per = supply"
proof -
  let ?kv = "filter (\<lambda>m. \<not> rm_TotalKvCapacityTokens m \<le> 0) ms"
  have "0 < (\<Sum>m\<leftarrow>?kv. DefaultKSat * of_int (rm_TotalKvCapacityTokens m) / ws_KVreq shape / itlSat)" if "?kv \<noteq> []"
    using mean_positive(1) [of ?kv "\<lambda>m. DefaultKSat * of_int (rm_TotalKvCapacityTokens m) / ws_KVreq shape / itlSat" "\<lambda>_. 1"] that assms(1,2)
    by (simp add: DefaultKSat_def)
  then show "0 \<le> per" "supply \<noteq> 0 \<Longrightarrow> 0 < per \<and> 0 < n" "of_int n * per = supply"
    using assms(3) by (auto simp: computeVariantSupply_def Let_def split: if_splits)
qed

lemma note_mismatch_ok: "variant_ok now s \<Longrightarrow> variant_ok now (note_mismatch b s)"
  by (auto simp: note_mismatch_def variant_ok_def Let_def DefaultGPSMismatchClearThreshold_def obs_window_ok_clear)

lemma note_mismatch_frame [simp]:
  "tv_lastPerReplicaSupply (note_mismatch b s) = tv_lastPerReplicaSupply s" "tv_lastObservedAt (note_mismatch b s) = tv_lastObservedAt s"
  "tv_role (note_mismatch b s) = tv_role s"
  by (simp_all add: note_mismatch_def Let_def)

text \<open>One variant: either nothing is reported and at most its state is rewritten, or it is sized with a
  positive supply.\<close>

lemma analyze_variant_cases:
  assumes "analyze_variant inp pend g (acc, sts) = (acc', sts')"
  obtains (skip) s s' where "acc' = acc" "sts' = sts \<or> map_of sts (variantKey (in_Namespace inp) (in_ModelID inp) (fst g)) = Some s \<and>
      s' = snd (resolveITLModel s (filterHealthyForShape (snd g))) \<and> sts' = mput (variantKey (in_Namespace inp) (in_ModelID inp) (fst g)) s' sts"
  | (sized) s shape model reason s1 s2 where
      "map_of sts (variantKey (in_Namespace inp) (in_ModelID inp) (fst g)) = Some s"
      "shape = sh_current (tv_shapeTracker s)" "0 < ws_KVreq shape" "sh_hasShape (tv_shapeTracker s)"
      "resolveITLModel s (filterHealthyForShape (snd g)) = (Some (model, reason), s1)"
      "0 < ITLAt model DefaultKSat" "fst (computeVariantSupply (snd g) shape (ITLAt model DefaultKSat)) \<noteq> 0"
      "size_variant (mget 0 pend (fst g)) g shape model reason acc s1 = (acc', s2)"
      "sts' = mput (variantKey (in_Namespace inp) (in_ModelID inp) (fst g)) s2 sts"
proof (cases "map_of sts (variantKey (in_Namespace inp) (in_ModelID inp) (fst g))")
  case None
  then show thesis using assms skip by (simp add: analyze_variant_def Let_def)
next
  case (Some s)
  let ?shape = "sh_current (tv_shapeTracker s)"
  obtain r s1 where r: "resolveITLModel s (filterHealthyForShape (snd g)) = (r, s1)" by fastforce
  show thesis
  proof (cases "\<not> sh_hasShape (tv_shapeTracker s) \<or> ws_KVreq ?shape \<le> 0")
    case True
    then show thesis using assms Some skip by (auto simp: analyze_variant_def Let_def sh_Current_def)
  next
    case shape: False
    show thesis
    proof (cases "\<exists>model reason. r = Some (model, reason) \<and> 0 < ITLAt model DefaultKSat \<and>
        fst (computeVariantSupply (snd g) ?shape (ITLAt model DefaultKSat)) \<noteq> 0")
      case True
      then obtain model reason where m: "r = Some (model, reason)" "0 < ITLAt model DefaultKSat"
        "fst (computeVariantSupply (snd g) ?shape (ITLAt model DefaultKSat)) \<noteq> 0" by blast
      obtain acc2 s2 where z: "size_variant (mget 0 pend (fst g)) g ?shape model reason acc s1 = (acc2, s2)" by fastforce
      have "acc' = acc2" "sts' = mput (variantKey (in_Namespace inp) (in_ModelID inp) (fst g)) s2 sts"
        using assms Some shape r m z by (simp_all add: analyze_variant_def Let_def sh_Current_def)
      then show thesis using sized [OF Some refl] shape r m z by (simp add: not_le)
    next
      case False
      have "acc' = acc \<and> sts' = mput (variantKey (in_Namespace inp) (in_ModelID inp) (fst g)) s1 sts"
        using assms Some shape r False
        by (auto simp: analyze_variant_def Let_def sh_Current_def not_le split: option.splits prod.splits if_splits)
      then show thesis using skip [of s s1] Some r by simp
    qed
  qed
qed

lemma size_variant_state:
  assumes "size_variant pending g shape model reason acc s = (acc', s')"
    and "computeVariantSupply (snd g) shape (ITLAt model DefaultKSat) = (sm, per, n)"
  shows "variant_ok now s \<and> 0 \<le> per \<longrightarrow> variant_ok now s'" and "tv_lastPerReplicaSupply s' = per"
    and "tv_lastObservedAt s' = tv_lastObservedAt s" and "tv_role s' = tv_role s"
proof -
  let ?d = "if fst (computeDemand (snd g)) = 0 then computeLocalDemand (snd g) shape model else fst (computeDemand (snd g))"
  let ?s = "s\<lparr>tv_lastITLModel := model, tv_lastPerReplicaSupply := per, tv_lastTotalSupply := sm, tv_lastDemand := ?d\<rparr>"
  have s': "s' = note_mismatch (checkVariantGPSMismatch (filterHealthyForShape (snd g)) shape model) ?s"
    using assms by (simp add: size_variant_def Let_def)
  have "variant_ok now s \<and> 0 \<le> per \<longrightarrow> variant_ok now ?s" by (simp add: variant_ok_def)
  then show "variant_ok now s \<and> 0 \<le> per \<longrightarrow> variant_ok now s'" unfolding s' using note_mismatch_ok by blast
  show "tv_lastPerReplicaSupply s' = per" "tv_lastObservedAt s' = tv_lastObservedAt s" "tv_role s' = tv_role s" by (simp_all add: s')
qed

lemma analyze_variant_ok:
  assumes "states_ok now sts" and "analyze_variant inp pend g (acc, sts) = (acc', sts')"
  shows "states_ok now sts'"
  using assms(2)
proof (cases rule: analyze_variant_cases)
  case (skip s s')
  then show ?thesis using assms(1) resolve_ok [OF states_ok_map_of [OF assms(1)]] states_ok_put [OF assms(1)]
    by (metis prod.collapse)
next
  case (sized s shape model reason s1 s2)
  obtain sm per n where c: "computeVariantSupply (snd g) shape (ITLAt model DefaultKSat) = (sm, per, n)"
    by (cases "computeVariantSupply (snd g) shape (ITLAt model DefaultKSat)")
  have "variant_ok now s1" using resolve_ok [OF states_ok_map_of [OF assms(1) sized(1)] sized(5)] .
  moreover have "0 \<le> per" using supply_facts(1) [OF sized(3,6) c] .
  ultimately have "variant_ok now s2" using size_variant_state(1) [OF sized(8) c] by blast
  then show ?thesis unfolding sized(9) by (rule states_ok_put [OF assms(1)])
qed

lemma analyze_all_ok:
  "states_ok now sts \<Longrightarrow> states_ok now (snd (fold (analyze_variant inp pend) gs (acc, sts)))"
proof (induction gs arbitrary: acc sts)
  case (Cons g gs)
  obtain acc' sts' where a: "analyze_variant inp pend g (acc, sts) = (acc', sts')" by fastforce
  show ?case using Cons.IH [OF analyze_variant_ok [OF Cons.prems a]] a by simp
qed simp

lemma ta_Analyze_ok:
  assumes "states_ok t sts" and "t \<le> now"
  shows "states_ok now (snd (ta_Analyze now cancelled inp sts))"
proof -
  have s: "states_ok now sts" by (rule states_ok_later [OF assms])
  have "states_ok now (snd (ta_Observe (cancelled 1) now (in_ModelID inp) (in_Namespace inp) (in_ReplicaMetrics inp) (set_roles inp sts)))"
    by (intro ta_Observe_ok set_roles_ok s)
  from analyze_all_ok [OF this] show ?thesis using s by (simp add: ta_Analyze_def Let_def case_prod_beta)
qed

text \<open>The states the analyzer can be in: it starts empty and analyzes models at non-decreasing times.\<close>

inductive throughput_run :: "int \<Rightarrow> throughput_state \<Rightarrow> bool" where
  start: "throughput_run t []"
| analyze: "throughput_run t sts \<Longrightarrow> t \<le> now \<Longrightarrow> throughput_run now (snd (ta_Analyze now cancelled inp sts))"

inductive_cases throughput_runE: "throughput_run t sts"

lemma throughput_run_ok: "throughput_run now sts \<Longrightarrow> states_ok now sts"
  by (induction rule: throughput_run.induct) (auto simp: states_ok_def [of _ "[]"] intro: ta_Analyze_ok)

text \<open>C19. Through any sequence of analyses the calibration state of every variant stays sound: the window
  holds at most twenty observations, all made by then, with loads in the observable range and positive
  latencies; a shape that was seen has a positive footprint, so no later division fails; and the
  counter of mismatches never reaches the limit that clears the window.\<close>

theorem calibration_state_sound:
  assumes "throughput_run now sts" and "map_of sts key = Some s"
  shows "length (ow_observations (tv_observationWindow s)) \<le> 20 \<and>
    (\<forall>x\<in>set (ow_observations (tv_observationWindow s)). 15/100 \<le> io_K x \<and> io_K x \<le> 85/100 \<and> 0 < io_ITLSec x \<and> io_Timestamp x \<le> now) \<and>
    (sh_hasShape (tv_shapeTracker s) \<longrightarrow> 0 < ws_KVreq (sh_current (tv_shapeTracker s))) \<and>
    0 \<le> tv_consecutiveGPSMismatches s \<and> tv_consecutiveGPSMismatches s < 3 \<and> 0 \<le> tv_lastPerReplicaSupply s"
proof -
  have "variant_ok now s" by (rule states_ok_map_of [OF throughput_run_ok [OF assms(1)] assms(2)])
  then show ?thesis
    by (simp add: variant_ok_def obs_window_ok_def observation_ok_def default_window_def newObservationWindow_def
        DefaultWindowMaxSize_def DefaultMinObservableK_def DefaultMaxObservableK_def DefaultGPSMismatchClearThreshold_def)
qed

text \<open>A replica of the variant \<open>v\<close> at half load, with prompts of 100 and answers of 200 tokens.\<close>

definition example_replica :: replica_metrics_v2 where
  "example_replica = example_metrics\<lparr>rm_TotalKvCapacityTokens := 100000, rm_AvgOutputTokens := 200, rm_AvgInputTokens := 100,
     rm_AvgITL := 16/1000, rm_KvUsageInstant := 1/2, rm_RequestRate := 1\<rparr>"

definition example_ta_input :: analyzer_input where
  "example_ta_input = example_input\<lparr>in_ReplicaMetrics := [example_replica], in_ArrivalRate := 2\<rparr>"

section \<open>The report is sound\<close>

definition acc_ok :: "throughput_acc \<Rightarrow> bool" where
  "acc_ok acc \<longleftrightarrow> (\<forall>vc\<in>set (ta_variantCapacities acc). 0 < vc_PerReplicaCapacity vc \<and> 0 < vc_ReplicaCount vc \<and> 0 \<le> vc_PendingReplicas vc) \<and>
     0 \<le> ta_totalDecodeOL acc \<and> 0 \<le> ta_totalDecodeKV acc \<and> 0 \<le> ta_totalDecodeITLSat acc \<and>
     (0 < ta_nDecodeVariants acc \<longrightarrow> 0 < ta_totalDecodeKV acc \<and> 0 < ta_totalDecodeITLSat acc \<and>
        (\<exists>vc\<in>set (ta_variantCapacities acc). vc_Role vc \<noteq> RolePrefill))"

lemma size_variant_acc:
  assumes "size_variant pending g shape model reason acc s = (acc', s')" and "acc_ok acc" and "0 \<le> pending"
    and "0 < ws_AvgOutputTokens shape" and "0 < ITLAt model DefaultKSat"
    and "computeVariantSupply (snd g) shape (ITLAt model DefaultKSat) = (sm, per, n)" and "0 < per" and "0 < n"
  shows "acc_ok acc'"
proof -
  have "0 \<le> of_int n * ws_AvgOutputTokens shape" using assms(4,8) by simp
  then show ?thesis using assms
    by (cases "tv_role s = RolePrefill") (auto simp: size_variant_def Let_def acc_ok_def zero_capacity_def add_nonneg_pos)
qed

lemma analyze_variant_acc:
  assumes "states_ok now sts" and "acc_ok acc" and "\<forall>v. 0 \<le> mget 0 pend v"
    and "analyze_variant inp pend g (acc, sts) = (acc', sts')"
  shows "acc_ok acc'"
  using assms(4)
proof (cases rule: analyze_variant_cases)
  case (skip s s')
  then show ?thesis using assms(2) by simp
next
  case (sized s shape model reason s1 s2)
  obtain sm per n where c: "computeVariantSupply (snd g) shape (ITLAt model DefaultKSat) = (sm, per, n)"
    by (cases "computeVariantSupply (snd g) shape (ITLAt model DefaultKSat)")
  have ol: "0 < ws_AvgOutputTokens shape" using states_ok_map_of [OF assms(1) sized(1)] sized(2,4) by (simp add: variant_ok_def)
  have per: "0 < per" "0 < n" using supply_facts(2) [OF sized(3,6) c] sized(7) c by simp_all
  show ?thesis using assms(3) by (intro size_variant_acc [OF sized(8) assms(2) _ ol sized(6) c per]) simp
qed

lemma analyze_all_acc:
  assumes "\<forall>v. 0 \<le> mget 0 pend v"
  shows "states_ok now sts \<Longrightarrow> acc_ok acc \<Longrightarrow> acc_ok (fst (fold (analyze_variant inp pend) gs (acc, sts)))"
proof (induction gs arbitrary: acc sts)
  case (Cons g gs)
  obtain acc' sts' where a: "analyze_variant inp pend g (acc, sts) = (acc', sts')" by fastforce
  show ?case
    using Cons.IH [OF analyze_variant_ok [OF Cons.prems(1) a] analyze_variant_acc [OF Cons.prems(1,2) assms a]] a by simp
qed simp

lemma pending_nonneg:
  assumes "\<forall>vs\<in>set states. 0 \<le> st_PendingReplicas vs"
  shows "0 \<le> mget 0 (pending_by_variant states) v"
proof -
  have "0 \<le> mget 0 (fold (\<lambda>vs. mput (st_VariantName vs) (st_PendingReplicas vs)) states m) v"
    if "\<forall>v. 0 \<le> mget 0 m v" for m
    using assms that by (induction states arbitrary: m) auto
  then show ?thesis by (simp add: pending_by_variant_def)
qed

text \<open>What a successful analysis is made of.\<close>

lemma ta_Analyze_report:
  assumes "fst (ta_Analyze now cancelled inp sts) = Inr r" and "states_ok t sts" and "t \<le> now"
    and "\<forall>vs\<in>set (in_VariantStates inp). 0 \<le> st_PendingReplicas vs"
  obtains acc vcs where "r = throughput_result inp acc (ta_variantCapacities acc @ vcs)" and "acc_ok acc"
    and "\<forall>vc\<in>set vcs. 0 < vc_PerReplicaCapacity vc \<and> vc_ReplicaCount vc = 0 \<and> vc_PendingReplicas vc = 0"
proof -
  let ?obs = "snd (ta_Observe (cancelled 1) now (in_ModelID inp) (in_Namespace inp) (in_ReplicaMetrics inp) (set_roles inp sts))"
  let ?run = "fold (analyze_variant inp (pending_by_variant (in_VariantStates inp))) (groupByVariant (in_ReplicaMetrics inp)) (zero_acc, ?obs)"
  let ?vcs = "List.map_filter (from_zero inp (groupByVariant (in_ReplicaMetrics inp)) (snd ?run)) (in_VariantStates inp)"
  have r: "r = throughput_result inp (fst ?run) (ta_variantCapacities (fst ?run) @ ?vcs)"
    using assms(1) by (simp add: ta_Analyze_def Let_def case_prod_beta split: if_splits)
  have "states_ok now ?obs" by (intro ta_Observe_ok set_roles_ok states_ok_later [OF assms(2,3)])
  moreover have "acc_ok zero_acc" by (simp add: acc_ok_def zero_acc_def)
  ultimately have "acc_ok (fst ?run)" using pending_nonneg [OF assms(4)] by (intro analyze_all_acc) auto
  moreover have "\<forall>vc\<in>set ?vcs. 0 < vc_PerReplicaCapacity vc \<and> vc_ReplicaCount vc = 0 \<and> vc_PendingReplicas vc = 0"
    by (auto simp: map_filter_def from_zero_def zero_capacity_def split: option.splits if_splits)
  ultimately show thesis using that r by blast
qed

lemma sum_over_keys:
  fixes f :: "string \<Rightarrow> real"
  shows "wf_map m \<Longrightarrow> (\<Sum>(role, _)\<leftarrow>m. f role) = (\<Sum>role\<in>set (mkeys m). f role)"
  by (induction m) auto

text \<open>The shares of the roles add up to what was distributed, and the prefill role gets none.\<close>

lemma distribute_sums:
  assumes "list_ex (\<lambda>vc. canon_role (vc_Role vc) \<noteq> RolePrefill) vcs"
  shows "(\<Sum>role\<in>(\<lambda>vc. canon_role (vc_Role vc)) ` set vcs. role_share (distributeDemandByRole d vcs) role) = d"
    and "role_share (distributeDemandByRole d vcs) RolePrefill = 0"
proof -
  define roles where "roles = remdups (filter (\<lambda>role. role \<noteq> RolePrefill) (map (\<lambda>vc. canon_role (vc_Role vc)) vcs))"
  have ne: "roles \<noteq> []" using assms by (auto simp: roles_def filter_empty_conv list_ex_iff)
  have share: "role_share (distributeDemandByRole d vcs) role = (if role \<in> set roles then d / real (length roles) else 0)" for role
  proof (cases "d = 0")
    case False
    have "mget 0 (map (\<lambda>role. (role, c)) rs) role = (if role \<in> set rs then c else 0)" for rs and c :: real by (induction rs) auto
    then show ?thesis using False ne by (simp add: distributeDemandByRole_def roles_def [symmetric] role_share_def Let_def)
  qed (simp add: distributeDemandByRole_def role_share_def)
  have sub: "set roles \<subseteq> (\<lambda>vc. canon_role (vc_Role vc)) ` set vcs" by (auto simp: roles_def)
  have "(\<Sum>role\<in>(\<lambda>vc. canon_role (vc_Role vc)) ` set vcs. role_share (distributeDemandByRole d vcs) role) =
      (\<Sum>role\<in>set roles. d / real (length roles))"
    unfolding share by (rule sum.mono_neutral_cong_right) (use sub in auto)
  also have "\<dots> = d" using ne distinct_card [of roles] by (simp add: roles_def [THEN arg_cong, of distinct])
  finally show "(\<Sum>role\<in>(\<lambda>vc. canon_role (vc_Role vc)) ` set vcs. role_share (distributeDemandByRole d vcs) role) = d" .
  show "role_share (distributeDemandByRole d vcs) RolePrefill = 0" by (simp add: share roles_def)
qed

lemma role_keys: "set (mkeys (AggregateByRole vcs)) = (\<lambda>vc. canon_role (vc_Role vc)) ` set vcs"
proof -
  have "role \<in> set (mkeys (AggregateByRole vcs)) \<longleftrightarrow> role_vcs role vcs \<noteq> []" for role
    using conjunct2 [OF AggregateByRole_facts [of vcs]] unfolding mhas_iff [symmetric] mhas_def by simp
  then show ?thesis unfolding set_eq_iff image_iff role_vcs_def filter_empty_conv by (metis (full_types))
qed

lemma totals_nonneg:
  assumes "\<forall>vc\<in>set vcs. 0 \<le> vc_PerReplicaCapacity vc \<and> 0 \<le> vc_ReplicaCount vc \<and> 0 \<le> vc_PendingReplicas vc"
  shows "0 \<le> SumTotalSupply vcs" and "SumTotalSupply vcs \<le> SumTotalAnticipatedSupply vcs"
  using assms by (auto simp: sum_totals intro!: sum_list_nonneg sum_list_mono mult_right_mono)

text \<open>The demand of a report and how it is split over the roles.\<close>

lemma throughput_demand:
  assumes "acc_ok acc" and "set (ta_variantCapacities acc) \<subseteq> set vcs" and "0 \<le> in_ArrivalRate inp"
  obtains a q where "0 \<le> a" "0 \<le> q" "ar_TotalDemand (throughput_result inp acc vcs) = a + q"
    and "ar_RoleCapacities (throughput_result inp acc vcs) = aggregateRoleCapacities vcs (distributeDemandByRole a vcs) (distributeDemandByRole q vcs)"
    and "list_ex (\<lambda>vc. canon_role (vc_Role vc) \<noteq> RolePrefill) vcs \<or> a = 0 \<and> q = 0"
proof (cases "0 < ta_nDecodeVariants acc")
  case True
  let ?a = "in_ArrivalRate inp * (ta_totalDecodeOL acc / of_int (ta_totalDecodeKV acc))"
  let ?q = "estimateQueueDemand (in_SchedulerQueue inp) (ta_totalDecodeITLSat acc / real (ta_nDecodeVariants acc)) DefaultQueueDrainFactor"
  have "0 \<le> ?a" using assms True by (simp add: acc_ok_def)
  moreover have "0 \<le> ?q" using assms(1) unfolding estimateQueueDemand_def acc_ok_def
    by (auto split: option.split intro!: divide_nonneg_nonneg mult_nonneg_nonneg)
  moreover have "list_ex (\<lambda>vc. canon_role (vc_Role vc) \<noteq> RolePrefill) vcs"
    using assms(1,2) True by (auto simp: acc_ok_def list_ex_iff canon_role_def RoleBoth_def RolePrefill_def)
  ultimately show thesis using that [of ?a ?q] True by (simp add: throughput_result_def Let_def)
next
  case False
  have "distributeDemandByRole 0 vcs = None" by (simp add: distributeDemandByRole_def)
  then show thesis using that [of 0 0] False by (simp add: throughput_result_def Let_def)
qed

lemma share_nonneg: "0 \<le> d \<Longrightarrow> 0 \<le> role_share (distributeDemandByRole d vcs) role"
proof -
  have "0 \<le> c \<Longrightarrow> 0 \<le> mget 0 (map (\<lambda>role. (role, c)) rs) role" for rs and c :: real by (induction rs) auto
  then show "0 \<le> d \<Longrightarrow> 0 \<le> role_share (distributeDemandByRole d vcs) role"
    by (auto simp: role_share_def distributeDemandByRole_def Let_def)
qed

lemma throughput_roles:
  assumes "aggregateRoleCapacities vcs (distributeDemandByRole a vcs) (distributeDemandByRole q vcs) = Some m"
    and "0 \<le> a" and "0 \<le> q" and "list_ex (\<lambda>vc. canon_role (vc_Role vc) \<noteq> RolePrefill) vcs \<or> a = 0 \<and> q = 0"
    and "\<forall>vc\<in>set vcs. 0 < vc_PerReplicaCapacity vc \<and> 0 \<le> vc_ReplicaCount vc \<and> 0 \<le> vc_PendingReplicas vc"
  shows "(\<Sum>(_, c)\<leftarrow>m. rc_TotalSupply c) = SumTotalSupply vcs" and "(\<Sum>(_, c)\<leftarrow>m. rc_TotalDemand c) = a + q"
    and "\<forall>role c. map_of m role = Some c \<longrightarrow> 0 \<le> rc_TotalDemand c \<and> rc_TotalSupply c \<le> rc_TotalAnticipatedSupply c \<and>
          (role = RolePrefill \<longrightarrow> rc_TotalDemand c = 0)"
proof -
  let ?A = "role_share (distributeDemandByRole a vcs)" and ?Q = "role_share (distributeDemandByRole q vcs)"
  let ?f = "\<lambda>role t. \<lparr>rc_Role = role, rc_TotalSupply = sct_TotalSupply t, rc_TotalDemand = ?A role + ?Q role,
     rc_TotalAnticipatedSupply = sct_TotalAnticipatedSupply t, rc_RequiredCapacity = 0, rc_SpareCapacity = 0\<rparr>"
  have m: "m = map (\<lambda>(role, t). (role, ?f role t)) (AggregateByRole vcs)"
    using assms(1) by (simp add: aggregateRoleCapacities_def Let_def split: if_splits)
  have none: "distributeDemandByRole 0 vcs = None" by (simp add: distributeDemandByRole_def)
  have split: "(\<Sum>role\<in>(\<lambda>vc. canon_role (vc_Role vc)) ` set vcs. ?A role) = a"
    "(\<Sum>role\<in>(\<lambda>vc. canon_role (vc_Role vc)) ` set vcs. ?Q role) = q" "?A RolePrefill = 0" "?Q RolePrefill = 0"
    using assms(4) distribute_sums [of vcs] by (auto simp: none role_share_def)
  show "(\<Sum>(_, c)\<leftarrow>m. rc_TotalSupply c) = SumTotalSupply vcs"
    using roles_partition(1) [of vcs] by (simp add: m comp_def case_prod_unfold)
  have "(\<Sum>(_, c)\<leftarrow>m. rc_TotalDemand c) = (\<Sum>(role, _)\<leftarrow>AggregateByRole vcs. ?A role + ?Q role)"
    by (simp add: m comp_def case_prod_unfold)
  also have "\<dots> = a + q" unfolding sum_over_keys [OF conjunct1 [OF AggregateByRole_facts]] role_keys sum.distrib split(1,2) ..
  finally show "(\<Sum>(_, c)\<leftarrow>m. rc_TotalDemand c) = a + q" .
  show "\<forall>role c. map_of m role = Some c \<longrightarrow> 0 \<le> rc_TotalDemand c \<and> rc_TotalSupply c \<le> rc_TotalAnticipatedSupply c \<and>
      (role = RolePrefill \<longrightarrow> rc_TotalDemand c = 0)"
  proof (intro allI impI)
    fix role c assume "map_of m role = Some c"
    then have c: "c = ?f role (totals_of (role_vcs role vcs))"
      using AggregateByRole_facts [of vcs] by (auto simp: m map_of_map_key split: if_splits)
    have "SumTotalSupply (role_vcs role vcs) \<le> SumTotalAnticipatedSupply (role_vcs role vcs)"
      using assms(5) by (intro totals_nonneg) (auto simp: role_vcs_def less_imp_le)
    then show "0 \<le> rc_TotalDemand c \<and> rc_TotalSupply c \<le> rc_TotalAnticipatedSupply c \<and> (role = RolePrefill \<longrightarrow> rc_TotalDemand c = 0)"
      using split(3,4) share_nonneg [OF assms(2)] share_nonneg [OF assms(3)] by (auto simp: c totals_of_def)
  qed
qed

text \<open>C18. The report of the throughput analyzer is one the engine can rely on.  In every reachable state, with
  sane inputs: no amount is negative, every reported variant has a positive capacity, anticipated
  supply covers supply; and for a model with roles the supplies and the demands of the roles add up to
  those of the model, with no decode demand on the prefill role.  The analysis fails only when it was
  cancelled beforehand.\<close>

theorem throughput_report_sound:
  assumes "throughput_run t sts" and "t \<le> now" and "\<forall>vs\<in>set (in_VariantStates inp). 0 \<le> st_PendingReplicas vs"
    and "0 \<le> in_ArrivalRate inp" and "\<not> cancelled 0"
  shows "\<exists>r. fst (ta_Analyze now cancelled inp sts) = Inr r \<and>
    0 \<le> ar_TotalDemand r \<and> 0 \<le> ar_TotalSupply r \<and> ar_TotalSupply r \<le> ar_TotalAnticipatedSupply r \<and>
    (\<forall>vc\<in>set (ar_VariantCapacities r). 0 < vc_PerReplicaCapacity vc) \<and>
    (\<forall>m. ar_RoleCapacities r = Some m \<longrightarrow>
       (\<Sum>(_, c)\<leftarrow>m. rc_TotalSupply c) = ar_TotalSupply r \<and> (\<Sum>(_, c)\<leftarrow>m. rc_TotalDemand c) = ar_TotalDemand r \<and>
       (\<forall>role c. map_of m role = Some c \<longrightarrow> 0 \<le> rc_TotalDemand c \<and> rc_TotalSupply c \<le> rc_TotalAnticipatedSupply c \<and>
          (role = RolePrefill \<longrightarrow> rc_TotalDemand c = 0)))"
proof -
  obtain r where r: "fst (ta_Analyze now cancelled inp sts) = Inr r"
    using assms(5) by (simp add: ta_Analyze_def Let_def case_prod_beta)
  obtain acc vcs0 where acc: "r = throughput_result inp acc (ta_variantCapacities acc @ vcs0)" "acc_ok acc"
    and zero: "\<forall>vc\<in>set vcs0. 0 < vc_PerReplicaCapacity vc \<and> vc_ReplicaCount vc = 0 \<and> vc_PendingReplicas vc = 0"
    using ta_Analyze_report [OF r throughput_run_ok [OF assms(1)] assms(2,3)] by blast
  define vcs where "vcs = ta_variantCapacities acc @ vcs0"
  have pos: "\<forall>vc\<in>set vcs. 0 < vc_PerReplicaCapacity vc \<and> 0 \<le> vc_ReplicaCount vc \<and> 0 \<le> vc_PendingReplicas vc"
    using acc(2) zero unfolding vcs_def acc_ok_def by auto
  obtain a q where d: "0 \<le> a" "0 \<le> q" "ar_TotalDemand r = a + q"
    "ar_RoleCapacities r = aggregateRoleCapacities vcs (distributeDemandByRole a vcs) (distributeDemandByRole q vcs)"
    "list_ex (\<lambda>vc. canon_role (vc_Role vc) \<noteq> RolePrefill) vcs \<or> a = 0 \<and> q = 0"
    using throughput_demand [OF acc(2), of vcs inp] assms(4) unfolding acc(1) vcs_def by auto
  have f: "ar_VariantCapacities r = vcs" "ar_TotalSupply r = SumTotalSupply vcs" "ar_TotalAnticipatedSupply r = SumTotalAnticipatedSupply vcs"
    by (simp_all add: acc(1) vcs_def throughput_result_def Let_def)
  have "0 \<le> SumTotalSupply vcs \<and> SumTotalSupply vcs \<le> SumTotalAnticipatedSupply vcs"
    using totals_nonneg [of vcs] pos by force
  moreover have "(\<Sum>(_, c)\<leftarrow>m. rc_TotalSupply c) = ar_TotalSupply r \<and> (\<Sum>(_, c)\<leftarrow>m. rc_TotalDemand c) = ar_TotalDemand r \<and>
       (\<forall>role c. map_of m role = Some c \<longrightarrow> 0 \<le> rc_TotalDemand c \<and> rc_TotalSupply c \<le> rc_TotalAnticipatedSupply c \<and>
          (role = RolePrefill \<longrightarrow> rc_TotalDemand c = 0))" if m: "ar_RoleCapacities r = Some m" for m
    using throughput_roles [OF m [unfolded d(4)] d(1,2,5)] pos d(3) f(2) by simp
  ultimately show ?thesis using r d f pos by auto
qed

section \<open>A variant scaled to zero stays selectable\<close>

lemma variantKey_inj [simp]: "variantKey ns m v = variantKey ns m v' \<longleftrightarrow> v = v'"
  by (simp add: variantKey_def)

lemma fold_put_wf: "wf_map m \<Longrightarrow> wf_map (fold (\<lambda>x m. mput (k x) (f x m) m) xs m)"
  by (induction xs arbitrary: m) auto

lemma group_wf: "wf_map (groupByVariant ms)"
  unfolding groupByVariant_def by (rule fold_put_wf) simp

lemma group_keys: "set (mkeys (groupByVariant ms)) = rm_VariantName ` set ms"
proof -
  have "set (mkeys (fold (\<lambda>m groups. mput (rm_VariantName m) (mget [] groups (rm_VariantName m) @ [m]) groups) ms g)) =
      set (mkeys g) \<union> rm_VariantName ` set ms" for g
  proof (induction ms arbitrary: g)
    case (Cons m ms)
    show ?case unfolding fold_simps Cons set_mkeys_mput by auto
  qed simp
  from this [of "[]"] show ?thesis by (simp add: groupByVariant_def)
qed

lemma set_roles_wf: "wf_map sts \<Longrightarrow> wf_map (set_roles inp sts)"
  unfolding set_roles_def Let_def by (rule fold_put_wf)

lemma wf_filter: "wf_map m \<Longrightarrow> wf_map (filter P m)"
  by (simp add: distinct_map_filter)

lemma observe_fold_wf: "wf_map sts \<Longrightarrow> wf_map (fold (observe_group now m ns) gs sts)"
  by (induction gs arbitrary: sts) (auto simp: observe_group_def)

lemma ta_Observe_wf: "wf_map sts \<Longrightarrow> wf_map (snd (ta_Observe c now m ns ms sts))"
  by (simp add: ta_Observe_def Let_def wf_filter observe_fold_wf)

lemma analyze_variant_wf: "wf_map sts \<Longrightarrow> analyze_variant inp pend g (acc, sts) = (acc', sts') \<Longrightarrow> wf_map sts'"
  by (erule analyze_variant_cases) auto

lemma analyze_all_wf: "wf_map sts \<Longrightarrow> wf_map (snd (fold (analyze_variant inp pend) gs (acc, sts)))"
proof (induction gs arbitrary: acc sts)
  case (Cons g gs)
  obtain acc' sts' where a: "analyze_variant inp pend g (acc, sts) = (acc', sts')" by fastforce
  show ?case using Cons.IH [OF analyze_variant_wf [OF Cons.prems a]] a by simp
qed simp

lemma ta_Analyze_wf: "wf_map sts \<Longrightarrow> wf_map (snd (ta_Analyze now c inp sts))"
  by (simp add: ta_Analyze_def Let_def case_prod_beta analyze_all_wf ta_Observe_wf set_roles_wf)

lemma throughput_run_wf: "throughput_run now sts \<Longrightarrow> wf_map sts"
  by (induction rule: throughput_run.induct) (simp_all add: ta_Analyze_wf)

lemma observe_variant_frame [simp]:
  "tv_lastObservedAt (observe_variant now ms s) = Some now"
  "tv_lastPerReplicaSupply (observe_variant now ms s) = tv_lastPerReplicaSupply s"
  by (simp_all add: observe_variant_def Let_def case_prod_beta)

lemma map_of_filter_values: "wf_map m \<Longrightarrow> map_of (filter (\<lambda>(_, s). P s) m) k = (case map_of m k of None \<Rightarrow> None | Some s \<Rightarrow> if P s then Some s else None)"
proof (induction m)
  case (Cons p m)
  then show ?case by (cases p) (auto simp: map_of_eq_None_iff split: option.splits)
qed simp

lemma observe_fold:
  assumes "wf_map gs"
  shows "map_of (fold (observe_group now m ns) gs sts) (variantKey ns m v) =
    (case map_of gs v of Some ms \<Rightarrow> Some (observe_variant now ms (getOrCreateVariantState (variantKey ns m v) sts))
     | None \<Rightarrow> map_of sts (variantKey ns m v))"
  using assms
proof (induction gs arbitrary: sts)
  case (Cons g gs)
  have get: "getOrCreateVariantState (variantKey ns m v) (observe_group now m ns g sts) = getOrCreateVariantState (variantKey ns m v) sts"
    "map_of (observe_group now m ns g sts) (variantKey ns m v) = map_of sts (variantKey ns m v)" if "fst g \<noteq> v"
    using that by (auto simp: observe_group_def getOrCreateVariantState_def update_conv)
  show ?case
  proof (cases "fst g = v")
    case True
    then have "map_of gs v = None" using Cons.prems by (auto simp: map_of_eq_None_iff)
    then show ?thesis using Cons True by (cases g) (simp add: observe_group_def update_conv)
  next
    case False
    have "map_of (g # gs) v = map_of gs v" using False by (cases g) simp
    then show ?thesis using Cons.IH [of "observe_group now m ns g sts"] Cons.prems get [OF False] by (cases "map_of gs v") simp_all
  qed
qed simp

lemma ta_Observe_state:
  assumes "wf_map sts"
  shows "map_of (snd (ta_Observe False now m ns ms sts)) (variantKey ns m v) =
    (if v \<in> rm_VariantName ` set ms
     then Some (observe_variant now (mget [] (groupByVariant ms) v) (getOrCreateVariantState (variantKey ns m v) sts))
     else case map_of sts (variantKey ns m v) of None \<Rightarrow> None | Some s \<Rightarrow> if expired now s then None else Some s)"
proof -
  have "v \<in> rm_VariantName ` set ms \<longleftrightarrow> map_of (groupByVariant ms) v \<noteq> None"
    unfolding group_keys [symmetric] mhas_iff [symmetric] mhas_def ..
  moreover have "\<not> expired now (observe_variant now ms' s)" for ms' s
    by (simp add: expired_def DefaultObservationMaxAge_def time_Minute_def time_Second_def)
  ultimately show ?thesis
    unfolding ta_Observe_def Let_def by (cases "map_of (groupByVariant ms) v")
      (simp_all add: map_of_filter_values observe_fold_wf assms observe_fold group_wf mget_def split: option.split)
qed

text \<open>A capacity that was reported live is remembered with the time of its observation.\<close>

definition remembered :: "analyzer_input \<Rightarrow> int \<Rightarrow> throughput_state \<Rightarrow> variant_capacity \<Rightarrow> bool" where
  "remembered inp now sts vc \<longleftrightarrow> (\<exists>s. map_of sts (variantKey (in_Namespace inp) (in_ModelID inp) (vc_VariantName vc)) = Some s \<and>
     tv_lastPerReplicaSupply s = vc_PerReplicaCapacity vc \<and> tv_lastObservedAt s = Some now)"

definition observed_at :: "analyzer_input \<Rightarrow> int \<Rightarrow> throughput_state \<Rightarrow> string \<Rightarrow> bool" where
  "observed_at inp now sts v \<longleftrightarrow> (\<exists>s. map_of sts (variantKey (in_Namespace inp) (in_ModelID inp) v) = Some s \<and> tv_lastObservedAt s = Some now)"

lemma analyze_variant_other:
  assumes "analyze_variant inp pend g (acc, sts) = (acc', sts')" and "fst g \<noteq> v"
  shows "map_of sts' (variantKey (in_Namespace inp) (in_ModelID inp) v) = map_of sts (variantKey (in_Namespace inp) (in_ModelID inp) v)"
  using assms(1) by (cases rule: analyze_variant_cases) (use assms(2) in \<open>auto simp: update_conv\<close>)

lemma analyze_all_other:
  "v \<notin> set (mkeys gs) \<Longrightarrow> map_of (snd (fold (analyze_variant inp pend) gs (acc, sts))) (variantKey (in_Namespace inp) (in_ModelID inp) v) =
     map_of sts (variantKey (in_Namespace inp) (in_ModelID inp) v)"
proof (induction gs arbitrary: acc sts)
  case (Cons g gs)
  obtain acc' sts' where a: "analyze_variant inp pend g (acc, sts) = (acc', sts')" by fastforce
  show ?case using Cons.IH [of acc' sts'] analyze_variant_other [OF a] Cons.prems a by auto
qed simp

lemma analyze_variant_remembers:
  assumes "analyze_variant inp pend g (acc, sts) = (acc', sts')" and "observed_at inp now sts (fst g)" and "vc \<in> set (ta_variantCapacities acc')"
  shows "vc \<in> set (ta_variantCapacities acc) \<or> vc_VariantName vc = fst g \<and> remembered inp now sts' vc"
  using assms(1)
proof (cases rule: analyze_variant_cases)
  case (skip s s')
  then show ?thesis using assms(3) by simp
next
  case (sized s shape model reason s1 s2)
  obtain sm per n where c: "computeVariantSupply (snd g) shape (ITLAt model DefaultKSat) = (sm, per, n)"
    by (cases "computeVariantSupply (snd g) shape (ITLAt model DefaultKSat)")
  have "tv_lastObservedAt s = Some now" using assms(2) sized(1) by (simp add: observed_at_def)
  then have "tv_lastObservedAt s1 = Some now" using resolve_frame [of s "filterHealthyForShape (snd g)"] sized(5) by auto
  then have s2: "tv_lastObservedAt s2 = Some now" "tv_lastPerReplicaSupply s2 = per"
    using size_variant_state(2,3) [OF sized(8) c] by simp_all
  have "vc \<in> set (ta_variantCapacities acc) \<or> vc_VariantName vc = fst g \<and> vc_PerReplicaCapacity vc = per"
    using sized(8) assms(3) by (cases "tv_role s1 = RolePrefill") (auto simp: size_variant_def c Let_def)
  then show ?thesis using s2 by (auto simp: remembered_def sized(9) update_conv)
qed

lemma analyze_all_remembers:
  assumes "wf_map gs" and "\<forall>v\<in>set (mkeys gs). observed_at inp now sts v"
    and "\<forall>vc\<in>set (ta_variantCapacities acc). vc_VariantName vc \<notin> set (mkeys gs) \<and> remembered inp now sts vc"
    and "vc \<in> set (ta_variantCapacities (fst (fold (analyze_variant inp pend) gs (acc, sts))))"
  shows "remembered inp now (snd (fold (analyze_variant inp pend) gs (acc, sts))) vc"
  using assms
proof (induction gs arbitrary: acc sts)
  case (Cons g gs)
  obtain acc' sts' where a: "analyze_variant inp pend g (acc, sts) = (acc', sts')" by fastforce
  note other = analyze_variant_other [OF a]
  have "\<forall>v\<in>set (mkeys gs). observed_at inp now sts' v"
    using Cons.prems(1,2) other unfolding observed_at_def by (metis distinct.simps(2) list.map(2) list.set_intros(2))
  moreover have "\<forall>vc\<in>set (ta_variantCapacities acc'). vc_VariantName vc \<notin> set (mkeys gs) \<and> remembered inp now sts' vc"
  proof
    fix vc assume vc: "vc \<in> set (ta_variantCapacities acc')"
    have "observed_at inp now sts (fst g)" using Cons.prems(2) by simp
    from analyze_variant_remembers [OF a this vc]
    show "vc_VariantName vc \<notin> set (mkeys gs) \<and> remembered inp now sts' vc"
    proof
      assume old: "vc \<in> set (ta_variantCapacities acc)"
      then have "fst g \<noteq> vc_VariantName vc" using Cons.prems(3) by auto
      then show ?thesis using Cons.prems(3) old other by (simp add: remembered_def)
    qed (use Cons.prems(1) in auto)
  qed
  moreover have "vc \<in> set (ta_variantCapacities (fst (fold (analyze_variant inp pend) gs (acc', sts'))))"
    using Cons.prems(4) a by simp
  ultimately show ?case using Cons.IH [of sts' acc'] Cons.prems(1) a by simp
qed simp

lemma live_capacity_remembered:
  assumes "wf_map sts" and "ta_Analyze now (\<lambda>_. False) inp sts = (Inr r, sts')" and "vc \<in> set (ar_VariantCapacities r)"
    and "0 < vc_ReplicaCount vc"
  shows "remembered inp now sts' vc"
proof -
  let ?gs = "groupByVariant (in_ReplicaMetrics inp)" and ?pend = "pending_by_variant (in_VariantStates inp)"
  let ?obs = "snd (ta_Observe False now (in_ModelID inp) (in_Namespace inp) (in_ReplicaMetrics inp) (set_roles inp sts))"
  let ?run = "fold (analyze_variant inp ?pend) ?gs (zero_acc, ?obs)"
  have run: "sts' = snd ?run" "ar_VariantCapacities r =
      ta_variantCapacities (fst ?run) @ List.map_filter (from_zero inp ?gs (snd ?run)) (in_VariantStates inp)"
    using assms(2) by (auto simp: ta_Analyze_def Let_def case_prod_beta throughput_result_def)
  have "vc \<notin> set (List.map_filter (from_zero inp ?gs (snd ?run)) (in_VariantStates inp))"
    using assms(4) by (auto simp: map_filter_def from_zero_def zero_capacity_def split: option.splits if_splits)
  then have live: "vc \<in> set (ta_variantCapacities (fst ?run))" using assms(3) run(2) by simp
  have "\<forall>v\<in>set (mkeys ?gs). observed_at inp now ?obs v"
    using ta_Observe_state [OF set_roles_wf [OF assms(1)]] unfolding group_keys observed_at_def by auto
  then show ?thesis unfolding run(1)
    by (rule analyze_all_remembers [OF group_wf _ _ live]) (simp add: zero_acc_def)
qed

lemma set_roles_remembers:
  assumes "map_of sts key = Some s"
  shows "\<exists>role. map_of (set_roles inp sts) key = Some (s\<lparr>tv_role := role\<rparr>)"
proof -
  have "\<exists>role. map_of (fold (\<lambda>vs sts. let key = variantKey ns m (st_VariantName vs) in
      mput key ((getOrCreateVariantState key sts)\<lparr>tv_role := st_Role vs\<rparr>) sts) vss sts) key = Some (s\<lparr>tv_role := role\<rparr>)"
    if "\<exists>role. map_of sts key = Some (s\<lparr>tv_role := role\<rparr>)" for ns m vss sts
    using that
  proof (induction vss arbitrary: sts)
    case (Cons vs vss)
    have "\<exists>role. map_of (mput (variantKey ns m (st_VariantName vs))
        ((getOrCreateVariantState (variantKey ns m (st_VariantName vs)) sts)\<lparr>tv_role := st_Role vs\<rparr>) sts) key = Some (s\<lparr>tv_role := role\<rparr>)"
      using Cons.prems by (auto simp: update_conv getOrCreateVariantState_def mget_def)
    from Cons.IH [OF this] show ?case by (simp add: Let_def)
  qed simp
  moreover have "\<exists>role. map_of sts key = Some (s\<lparr>tv_role := role\<rparr>)" using assms by (intro exI [of _ "tv_role s"]) simp
  ultimately show ?thesis unfolding set_roles_def by blast
qed

text \<open>A variant that was sized live and then loses all its replicas stays selectable: for an hour after
  its last observation every analysis of the model that lists it reports it without replicas at the
  capacity last measured, so that it can be chosen for a scale-up from zero.\<close>

theorem scaled_to_zero_stays_selectable:
  assumes "throughput_run t sts" and "ta_Analyze now (\<lambda>_. False) inp sts = (Inr r, sts')"
    and "vc \<in> set (ar_VariantCapacities r)" and "0 < vc_ReplicaCount vc" and "0 < vc_PerReplicaCapacity vc"
    and "in_ModelID inp' = in_ModelID inp" and "in_Namespace inp' = in_Namespace inp"
    and "vc_VariantName vc \<in> st_VariantName ` set (in_VariantStates inp')"
    and "vc_VariantName vc \<notin> rm_VariantName ` set (in_ReplicaMetrics inp')" and "now' - now \<le> 60 * time_Minute"
  shows "\<exists>r' vc'. fst (ta_Analyze now' (\<lambda>_. False) inp' sts') = Inr r' \<and> vc' \<in> set (ar_VariantCapacities r') \<and>
    vc_VariantName vc' = vc_VariantName vc \<and> vc_PerReplicaCapacity vc' = vc_PerReplicaCapacity vc \<and> vc_ReplicaCount vc' = 0"
proof -
  let ?v = "vc_VariantName vc" and ?key = "variantKey (in_Namespace inp') (in_ModelID inp') (vc_VariantName vc)"
  let ?gs = "groupByVariant (in_ReplicaMetrics inp')"
  let ?obs = "snd (ta_Observe False now' (in_ModelID inp') (in_Namespace inp') (in_ReplicaMetrics inp') (set_roles inp' sts'))"
  let ?run = "fold (analyze_variant inp' (pending_by_variant (in_VariantStates inp'))) ?gs (zero_acc, ?obs)"
  have wf: "wf_map sts'" using ta_Analyze_wf [OF throughput_run_wf [OF assms(1)], of now "\<lambda>_. False" inp] assms(2) by simp
  obtain s where s: "map_of sts' ?key = Some s" "tv_lastPerReplicaSupply s = vc_PerReplicaCapacity vc" "tv_lastObservedAt s = Some now"
    using live_capacity_remembered [OF throughput_run_wf [OF assms(1)] assms(2-4)] assms(6,7) by (auto simp: remembered_def)
  obtain role where "map_of (set_roles inp' sts') ?key = Some (s\<lparr>tv_role := role\<rparr>)" using set_roles_remembers [OF s(1)] by blast
  moreover have "\<not> expired now' (s\<lparr>tv_role := role\<rparr>)" using s(3) assms(10) by (simp add: expired_def DefaultObservationMaxAge_def)
  ultimately have "map_of ?obs ?key = Some (s\<lparr>tv_role := role\<rparr>)" using assms(9) ta_Observe_state [OF set_roles_wf [OF wf]] by simp
  moreover have gs: "?v \<notin> set (mkeys ?gs)" using assms(9) by (simp only: group_keys not_False_eq_True)
  ultimately have state: "map_of (snd ?run) ?key = Some (s\<lparr>tv_role := role\<rparr>)" using analyze_all_other [OF gs] by simp
  obtain vs where vs: "vs \<in> set (in_VariantStates inp')" "st_VariantName vs = ?v" using assms(8) by auto
  define vc' where "vc' = zero_capacity\<lparr>vc_VariantName := ?v, vc_Role := role,
      vc_PerReplicaCapacity := vc_PerReplicaCapacity vc, vc_Reason := itlReasonScaleFromZero\<rparr>"
  have "from_zero inp' ?gs (snd ?run) vs = Some vc'"
    using gs state s(2) assms(5) vs(2) unfolding mhas_iff [symmetric] vc'_def by (simp add: from_zero_def)
  then have mem: "vc' \<in> set (List.map_filter (from_zero inp' ?gs (snd ?run)) (in_VariantStates inp'))"
    using vs(1) by (force simp: map_filter_def)
  obtain r' where "fst (ta_Analyze now' (\<lambda>_. False) inp' sts') = Inr r'" "ar_VariantCapacities r' =
      ta_variantCapacities (fst ?run) @ List.map_filter (from_zero inp' ?gs (snd ?run)) (in_VariantStates inp')"
    by (simp add: ta_Analyze_def Let_def case_prod_beta throughput_result_def)
  then show ?thesis using mem by (intro exI [of _ r'] exI [of _ vc']) (simp add: vc'_def zero_capacity_def)
qed

lemma example_live:
  "case fst (ta_Analyze 0 (\<lambda>_. False) example_ta_input []) of Inl _ \<Rightarrow> False
   | Inr r \<Rightarrow> (case ar_VariantCapacities r of [] \<Rightarrow> False
       | vc # _ \<Rightarrow> vc_VariantName vc = ''v'' \<and> vc_ReplicaCount vc = 1 \<and> 0 < vc_PerReplicaCapacity vc)"
  by code_simp

lemma example_known: "map_of (snd (ta_Analyze 0 (\<lambda>_. False) example_ta_input [])) (variantKey ''ns'' ''m'' ''v'') \<noteq> None"
  by code_simp

lemma scaled_to_zero_stays_selectable_witness:
  "\<exists>r vc. fst (ta_Analyze (30 * time_Minute) (\<lambda>_. False) example_input (snd (ta_Analyze 0 (\<lambda>_. False) example_ta_input []))) = Inr r \<and>
     vc \<in> set (ar_VariantCapacities r) \<and> vc_VariantName vc = ''v'' \<and> 0 < vc_PerReplicaCapacity vc \<and> vc_ReplicaCount vc = 0"
proof -
  obtain r sts' where run: "ta_Analyze 0 (\<lambda>_. False) example_ta_input [] = (Inr r, sts')"
    using example_live by (cases "ta_Analyze 0 (\<lambda>_. False) example_ta_input []") (auto split: sum.splits)
  then obtain vc vcs where vc: "ar_VariantCapacities r = vc # vcs" "vc_VariantName vc = ''v''" "vc_ReplicaCount vc = 1" "0 < vc_PerReplicaCapacity vc"
    using example_live by (auto split: list.splits)
  have "vc \<in> set (ar_VariantCapacities r)" by (simp add: vc(1))
  then obtain r' vc' where "fst (ta_Analyze (30 * time_Minute) (\<lambda>_. False) example_input sts') = Inr r'" "vc' \<in> set (ar_VariantCapacities r')"
    "vc_VariantName vc' = vc_VariantName vc" "vc_PerReplicaCapacity vc' = vc_PerReplicaCapacity vc" "vc_ReplicaCount vc' = 0"
    using scaled_to_zero_stays_selectable [OF throughput_run.start [of 0] run, of vc example_input "30 * time_Minute"] vc(2-4)
    by (auto simp: example_ta_input_def example_input_def zero_state_def time_Minute_def time_Second_def)
  then show ?thesis unfolding run snd_conv vc(2) using vc(4) by auto
qed

lemma example_run: "throughput_run 0 (snd (ta_Analyze 0 (\<lambda>_. False) example_ta_input []))"
  by (rule throughput_run.analyze [OF throughput_run.start order_refl])

lemma calibration_state_sound_witness:
  "\<exists>s. map_of (snd (ta_Analyze 0 (\<lambda>_. False) example_ta_input [])) (variantKey ''ns'' ''m'' ''v'') = Some s \<and>
     length (ow_observations (tv_observationWindow s)) \<le> 20 \<and> tv_consecutiveGPSMismatches s < 3"
  using example_known calibration_state_sound [OF example_run] by blast

lemma throughput_report_sound_witness:
  "\<exists>r. fst (ta_Analyze 0 (\<lambda>_. False) example_ta_input []) = Inr r \<and> 0 \<le> ar_TotalDemand r \<and> ar_TotalSupply r \<le> ar_TotalAnticipatedSupply r"
  using throughput_report_sound [OF throughput_run.start [of 0], of 0 example_ta_input "\<lambda>_. False"]
  by (auto simp: example_ta_input_def example_input_def zero_state_def)

section \<open>The resolved model fits best\<close>

definition as_observation :: "replica_metrics_v2 \<Rightarrow> itl_observation" where
  "as_observation m = \<lparr>io_K = rm_KvUsageInstant m, io_ITLSec = rm_AvgITL m, io_Timestamp = 0\<rparr>"

definition used_replicas :: "replica_metrics_v2 list \<Rightarrow> itl_observation list" where
  "used_replicas ms = map as_observation (filter (\<lambda>m. rm_KvUsageInstant m > 0 \<and> rm_AvgITL m > 0) ms)"

lemma pinned_slope_best:
  assumes "pinned_slope b ms = Some a" and "im_B m' = b"
  shows "squared_error (used_replicas ms) \<lparr>im_A = a, im_B = b\<rparr> \<le> squared_error (used_replicas ms) m'"
proof (rule normal_equations_minimal)
  let ?us = "filter (\<lambda>m. rm_KvUsageInstant m > 0 \<and> rm_AvgITL m > 0) ms"
  let ?k2 = "\<Sum>m\<leftarrow>?us. rm_KvUsageInstant m * rm_KvUsageInstant m" and ?num = "\<Sum>m\<leftarrow>?us. (rm_AvgITL m - b) * rm_KvUsageInstant m"
  have a: "a = ?num / ?k2" "0 < ?k2" using assms(1) by (auto simp: pinned_slope_def Let_def split: if_splits)
  have sums: "(\<Sum>m\<leftarrow>xs. (rm_AvgITL m - (a * rm_KvUsageInstant m + b)) * rm_KvUsageInstant m) =
      (\<Sum>m\<leftarrow>xs. (rm_AvgITL m - b) * rm_KvUsageInstant m) - a * (\<Sum>m\<leftarrow>xs. rm_KvUsageInstant m * rm_KvUsageInstant m)" for xs
    by (induction xs) (simp_all add: algebra_simps)
  have "?num - a * ?k2 = 0" using a by simp
  then show "(\<Sum>x\<leftarrow>used_replicas ms. (io_ITLSec x - ITLAt \<lparr>im_A = a, im_B = b\<rparr> (io_K x)) * io_K x) = 0"
    using sums [of ?us] by (simp add: used_replicas_def as_observation_def ITLAt_def comp_def)
qed (simp add: assms(2))

text \<open>The latency line an analysis works with is usable and the best of its kind.  From a window that is
  ready it is the line with the least squared error over the observations; otherwise it is the line
  through the known or default baseline with the least squared error over the busy replicas of this
  cycle.  Latency rises with the load and is positive from the saturation point on.\<close>

theorem resolved_model_is_best:
  assumes "resolveITLModel s ms = (Some (model, reason), s')"
  shows "(if reason = itlReasonT1OLS
      then ow_Ready (tv_observationWindow s) \<and>
        (\<forall>m'. squared_error (ow_observations (tv_observationWindow s)) model \<le> squared_error (ow_observations (tv_observationWindow s)) m')
      else im_B model = (if tv_hasFittedB s then tv_lastFittedB s else DefaultBaselineITLSec) \<and>
        (\<forall>m'. im_B m' = im_B model \<longrightarrow> squared_error (used_replicas ms) model \<le> squared_error (used_replicas ms) m')) \<and>
    0 < im_A model \<and> (\<forall>k\<ge>DefaultKSat. 0 < ITLAt model k)"
proof -
  have valid: "0 < im_A model \<and> (\<forall>k\<ge>DefaultKSat. 0 < ITLAt model k)" by (rule valid_model_positive [OF resolve_valid [OF assms]])
  have labels: "itlReasonT2Pinned \<noteq> itlReasonT1OLS" "itlReasonT2Default \<noteq> itlReasonT1OLS"
    by (simp_all add: itlReasonT2Pinned_def itlReasonT2Default_def itlReasonT1OLS_def)
  show ?thesis
  proof (cases "if ow_Ready (tv_observationWindow s) then FitITLModel (ow_observations (tv_observationWindow s)) else None")
    case (Some m)
    then have "ow_Ready (tv_observationWindow s)" "FitITLModel (ow_observations (tv_observationWindow s)) = Some model" "reason = itlReasonT1OLS"
      using assms by (auto simp: resolveITLModel_def split: if_splits)
    then show ?thesis using valid normal_equations_minimal fit_normal_equations by simp
  next
    case None
    then show ?thesis using assms valid labels pinned_slope_best
      by (auto simp: resolveITLModel_def Let_def split: option.splits if_splits)
  qed
qed

lemma resolved_model_is_best_witness:
  "\<exists>model. fst (resolveITLModel new_variant [example_replica]) = Some (model, itlReasonT2Default) \<and> 0 < im_A model"
proof -
  have "resolveITLModel new_variant [example_replica] = (Some (\<lparr>im_A = 2 / 100, im_B = 6 / 1000\<rparr>, itlReasonT2Default), new_variant)"
    by code_simp
  from resolved_model_is_best [OF this] show ?thesis by (simp add: \<open>resolveITLModel new_variant [example_replica] = _\<close>)
qed

end
