(* ===== verification/Variants.thy ===== *)
theory Variants
  imports Role_Totals Engine_Args
begin

text \<open>
  The variants the autoscaler works on: how they are read off annotated HPAs and ScaledObjects
  (\<open>annotations\<close>, \<open>utils/variant.go\<close>), the scale targets behind them
  (\<open>utils/scaletarget\<close>, \<open>resources\<close>), the accelerator named by a target
  (\<open>accelerator.go\<close>), and the replica states handed to the engine (\<open>BuildVariantStates\<close> in
  \<open>engine.go\<close>).  What the Kubernetes API returns (listed objects, fetched targets) and the float
  parser are arguments; retries and logging are left out.
\<close>

section \<open>Pod templates and scale targets\<close>

record match_expression =
  me_Key :: string
  me_Operator :: string
  me_Values :: "string list"

type_synonym selector_term = "match_expression list"

record node_affinity =
  na_Required :: "selector_term list option"
  na_Preferred :: "selector_term list option"

text \<open>What is read of a pod template: labels, node selection, and its containers, with their resource
  requests beside them.\<close>

record pod_spec =
  ps_Labels :: "(string, string) gomap option"
  ps_NodeSelector :: "(string, string) gomap option"
  ps_NodeAffinity :: "node_affinity option"
  ps_Requests :: "(string, int) gomap list"
  ps_Containers :: "container list"

record target_meta =
  tm_Name :: string
  tm_Namespace :: string
  tm_Replicas :: "int option"
  tm_StatusReplicas :: int
  tm_ReadyReplicas :: int
  tm_Deleted :: bool

text \<open>A Deployment with its template, or a LeaderWorkerSet with its size, leader and worker templates.\<close>

datatype scale_target =
    DeploymentTarget target_meta pod_spec
  | LWSTarget target_meta "int option" "pod_spec option" pod_spec

primrec target_meta_of :: "scale_target \<Rightarrow> target_meta" where
  "target_meta_of (DeploymentTarget m _) = m"
| "target_meta_of (LWSTarget m _ _ _) = m"

abbreviation GetReplicas :: "scale_target \<Rightarrow> int option" where "GetReplicas t \<equiv> tm_Replicas (target_meta_of t)"
abbreviation GetStatusReplicas :: "scale_target \<Rightarrow> int" where "GetStatusReplicas t \<equiv> tm_StatusReplicas (target_meta_of t)"

definition gpu_resources :: "string list" where
  "gpu_resources = [''nvidia.com/gpu'', ''amd.com/gpu'', ''habana.ai/gaudi'', ''gpu.intel.com/i915'', ''gpu.intel.com/xe'']"

definition GetContainersGPUs :: "(string, int) gomap list \<Rightarrow> int" where
  "GetContainersGPUs containers = (\<Sum>requests\<leftarrow>containers. \<Sum>r\<leftarrow>gpu_resources. mget 0 requests r)"

definition GetGroupSize :: "scale_target \<Rightarrow> int" where
  "GetGroupSize t = (case t of DeploymentTarget _ _ \<Rightarrow> 1 | LWSTarget _ sz _ _ \<Rightarrow> (case sz of None \<Rightarrow> 1 | Some n \<Rightarrow> n))"

definition GetWorkerPodTemplateSpec :: "scale_target \<Rightarrow> pod_spec" where
  "GetWorkerPodTemplateSpec t = (case t of DeploymentTarget _ p \<Rightarrow> p | LWSTarget _ _ _ w \<Rightarrow> w)"

definition GetLeaderPodTemplateSpec :: "scale_target \<Rightarrow> pod_spec" where
  "GetLeaderPodTemplateSpec t = (case t of DeploymentTarget _ p \<Rightarrow> p
     | LWSTarget _ _ leader _ \<Rightarrow> (case leader of None \<Rightarrow> GetWorkerPodTemplateSpec t | Some p \<Rightarrow> p))"

definition GetTotalGPUsPerReplica :: "scale_target \<Rightarrow> int" where
  "GetTotalGPUsPerReplica t =
     (let gpus = (case t of
        DeploymentTarget _ p \<Rightarrow> GetContainersGPUs (ps_Requests p)
      | LWSTarget _ _ leader worker \<Rightarrow>
          (case leader of None \<Rightarrow> 0 | Some p \<Rightarrow> GetContainersGPUs (ps_Requests p)) +
          (GetGroupSize t - 1) * GetContainersGPUs (ps_Requests worker))
      in if gpus = 0 then 1 else gpus)"

definition GetDesiredReplicas :: "scale_target \<Rightarrow> int" where
  "GetDesiredReplicas t = (case GetReplicas t of None \<Rightarrow> 1 | Some n \<Rightarrow> n)"

datatype fetch_error = NotFound | FetchFailed string | InvalidKind string

record api_client =
  ac_Deployment :: "string \<Rightarrow> string \<Rightarrow> fetch_error + target_meta \<times> pod_spec"
  ac_LWS :: "string \<Rightarrow> string \<Rightarrow> fetch_error + target_meta \<times> int option \<times> pod_spec option \<times> pod_spec"

definition DeploymentKind :: string where "DeploymentKind = ''Deployment''"
definition LeaderWorkerSetKind :: string where "LeaderWorkerSetKind = ''LeaderWorkerSet''"

definition FetchScaleTarget :: "api_client \<Rightarrow> string \<Rightarrow> string \<Rightarrow> string \<Rightarrow> fetch_error + scale_target" where
  "FetchScaleTarget c kind name namespace =
     (if kind = DeploymentKind \<or> kind = [] then
        (case ac_Deployment c namespace name of Inl e \<Rightarrow> Inl e | Inr (m, p) \<Rightarrow> Inr (DeploymentTarget m p))
      else if kind = LeaderWorkerSetKind then
        (case ac_LWS c namespace name of Inl e \<Rightarrow> Inl e | Inr (m, sz, l, w) \<Rightarrow> Inr (LWSTarget m sz l w))
      else Inl (InvalidKind kind))"

section \<open>Variants from annotations\<close>

record variant_autoscaling =
  va_Name :: string
  va_Namespace :: string
  va_Labels :: "(string, string) gomap"
  va_Annotations :: "(string, string) gomap"
  va_APIVersion :: string
  va_Kind :: string
  va_TargetName :: string
  va_ModelID :: string
  va_MinReplicas :: "int option"
  va_MaxReplicas :: int
  va_VariantCost :: string
  va_NumReplicas :: "int option"
  va_Accelerator :: string

definition Managed :: string where "Managed = ''llm-d.ai/managed''"
definition ModelID_key :: string where "ModelID_key = ''llm-d.ai/model-id''"
definition VariantCost_key :: string where "VariantCost_key = ''llm-d.ai/variant-cost''"
definition Synthetic :: string where "Synthetic = ''llm-d.ai/synthetic''"
definition enabledValue :: string where "enabledValue = ''true''"
definition defaultVariantCost :: string where "defaultVariantCost = ''10.0''"

datatype annotation_error = NotManaged | ModelIDMissing | CostNotNumeric string | CostNegative | NoScaleTargetRef string string

record parsed_annotations =
  pa_ModelID :: string
  pa_VariantCost :: string

definition IsManaged :: "(string, string) gomap \<Rightarrow> bool" where
  "IsManaged ann \<longleftrightarrow> mget [] ann Managed = enabledValue"

definition Parse_annotations :: "(string \<Rightarrow> gofloat option) \<Rightarrow> (string, string) gomap \<Rightarrow> annotation_error + parsed_annotations" where
  "Parse_annotations pf ann =
     (if mget [] ann Managed \<noteq> enabledValue then Inl NotManaged
      else let modelID = mget [] ann ModelID_key in
        if modelID = [] then Inl ModelIDMissing
        else let cost = (if mget [] ann VariantCost_key = [] then defaultVariantCost else mget [] ann VariantCost_key) in
          case pf cost of
            None \<Rightarrow> Inl (CostNotNumeric cost)
          | Some v \<Rightarrow> if v < 0 then Inl CostNegative else Inr \<lparr>pa_ModelID = modelID, pa_VariantCost = cost\<rparr>)"

record target_ref =
  tr_APIVersion :: string
  tr_Kind :: string
  tr_Name :: string

text \<open>An HPA or ScaledObject as the API lists it.  The reference of an HPA is always there.  The
  maximum of a ScaledObject is the one KEDA computes for its HPA.\<close>

record autoscaler =
  as_Name :: string
  as_Namespace :: string
  as_Labels :: "(string, string) gomap"
  as_Annotations :: "(string, string) gomap"
  as_Deleted :: bool
  as_TargetRef :: "target_ref option"
  as_MinReplicas :: "int option"
  as_MaxReplicas :: int

definition variant_of_autoscaler :: "autoscaler \<Rightarrow> target_ref \<Rightarrow> parsed_annotations \<Rightarrow> int option \<Rightarrow> variant_autoscaling" where
  "variant_of_autoscaler x ref prs minReplicas =
     \<lparr>va_Name = as_Name x, va_Namespace = as_Namespace x, va_Labels = as_Labels x,
      va_Annotations = [(Synthetic, enabledValue)],
      va_APIVersion = (if tr_APIVersion ref = [] then ''apps/v1'' else tr_APIVersion ref),
      va_Kind = (if tr_Kind ref = [] then DeploymentKind else tr_Kind ref), va_TargetName = tr_Name ref,
      va_ModelID = pa_ModelID prs, va_MinReplicas = minReplicas, va_MaxReplicas = as_MaxReplicas x,
      va_VariantCost = pa_VariantCost prs, va_NumReplicas = None, va_Accelerator = []\<rparr>"

definition VariantAutoscalingFromScaledObject :: "(string \<Rightarrow> gofloat option) \<Rightarrow> autoscaler \<Rightarrow> annotation_error + variant_autoscaling" where
  "VariantAutoscalingFromScaledObject pf so = (case Parse_annotations pf (as_Annotations so) of
     Inl e \<Rightarrow> Inl e
   | Inr prs \<Rightarrow> (case as_TargetRef so of
       None \<Rightarrow> Inl (NoScaleTargetRef (as_Namespace so) (as_Name so))
     | Some ref \<Rightarrow> if tr_Name ref = [] then Inl (NoScaleTargetRef (as_Namespace so) (as_Name so))
         else Inr (variant_of_autoscaler so ref prs (as_MinReplicas so))))"

definition VariantAutoscalingFromHPA :: "(string \<Rightarrow> gofloat option) \<Rightarrow> autoscaler \<Rightarrow> annotation_error + variant_autoscaling" where
  "VariantAutoscalingFromHPA pf hpa = (case Parse_annotations pf (as_Annotations hpa) of
     Inl e \<Rightarrow> Inl e
   | Inr prs \<Rightarrow> (case as_TargetRef hpa of
       None \<Rightarrow> Inl (NoScaleTargetRef (as_Namespace hpa) (as_Name hpa))
     | Some ref \<Rightarrow> if tr_Name ref = [] then Inl (NoScaleTargetRef (as_Namespace hpa) (as_Name hpa))
         else Inr (variant_of_autoscaler hpa ref prs (case as_MinReplicas hpa of None \<Rightarrow> Some 1 | Some m \<Rightarrow> Some m))))"

definition IsSynthetic :: "variant_autoscaling \<Rightarrow> bool" where
  "IsSynthetic va \<longleftrightarrow> mget [] (va_Annotations va) Synthetic = enabledValue"

section \<open>Discovery\<close>

definition target_key :: "variant_autoscaling \<Rightarrow> string" where
  "target_key va = va_Namespace va @ ''/'' @ va_Kind va @ ''/'' @ va_TargetName va"

definition add_variants :: "(autoscaler \<Rightarrow> annotation_error + variant_autoscaling) \<Rightarrow> autoscaler list \<Rightarrow>
    (string, variant_autoscaling) gomap \<Rightarrow> (string, variant_autoscaling) gomap" where
  "add_variants build xs m = fold (\<lambda>x m.
     if \<not> IsManaged (as_Annotations x) \<or> as_Deleted x then m
     else case build x of Inl _ \<Rightarrow> m | Inr va \<Rightarrow> mput (target_key va) va m) xs m"

text \<open>Listing ScaledObjects can find that KEDA is not installed, which is not an error.\<close>

datatype 'a list_result = Listed 'a | NoMatch | ListFailed string

definition annotationSourcedVariants :: "(string \<Rightarrow> gofloat option) \<Rightarrow> string + autoscaler list \<Rightarrow> autoscaler list list_result \<Rightarrow>
    variant_autoscaling list \<times> string option" where
  "annotationSourcedVariants pf hpas sos = (case hpas of
     Inl e \<Rightarrow> ([], Some (''listing HPAs: '' @ e))
   | Inr hs \<Rightarrow>
      (let byTarget = add_variants (VariantAutoscalingFromHPA pf) hs [] in
       case sos of
         NoMatch \<Rightarrow> (map snd byTarget, None)
       | ListFailed e \<Rightarrow> (map snd byTarget, Some (''listing ScaledObjects: '' @ e))
       | Listed ss \<Rightarrow> (map snd (add_variants (VariantAutoscalingFromScaledObject pf) ss byTarget), None)))"

definition ControllerInstanceLabelKey :: string where "ControllerInstanceLabelKey = ''wva.llmd.ai/controller-instance''"

definition readyVariantAutoscalings :: "(string \<Rightarrow> gofloat option) \<Rightarrow> string + autoscaler list \<Rightarrow> autoscaler list list_result \<Rightarrow>
    string \<Rightarrow> variant_autoscaling list" where
  "readyVariantAutoscalings pf hpas sos controllerInstance =
     filter (\<lambda>va. \<not> (controllerInstance \<noteq> [] \<and> mget [] (va_Labels va) ControllerInstanceLabelKey \<noteq> controllerInstance))
       (fst (annotationSourcedVariants pf hpas sos))"

definition GetNamespacedKey :: "string \<Rightarrow> string \<Rightarrow> string" where
  "GetNamespacedKey namespace name = namespace @ ''/'' @ name"

text \<open>The loop over the ready variants; \<open>cancelled i\<close> tells whether the context is found cancelled
  before the \<open>i\<close>-th.\<close>

fun filter_variants :: "api_client \<Rightarrow> (scale_target \<Rightarrow> bool) \<Rightarrow> (nat \<Rightarrow> bool) \<Rightarrow> nat \<Rightarrow> variant_autoscaling list \<Rightarrow>
    (variant_autoscaling \<times> scale_target) list option" where
  "filter_variants c keep cancelled i [] = Some []"
| "filter_variants c keep cancelled i (va # vas) =
     (if cancelled i then None
      else case filter_variants c keep cancelled (Suc i) vas of
        None \<Rightarrow> None
      | Some rest \<Rightarrow> Some (
          if va_TargetName va = [] then rest
          else case FetchScaleTarget c (va_Kind va) (va_TargetName va) (va_Namespace va) of
            Inl _ \<Rightarrow> rest
          | Inr t \<Rightarrow> if tm_Deleted (target_meta_of t) then rest else if keep t then (va, t) # rest else rest))"

definition isActive :: "scale_target \<Rightarrow> bool" where "isActive t \<longleftrightarrow> GetDesiredReplicas t > 0"
definition isInactive :: "scale_target \<Rightarrow> bool" where "isInactive t \<longleftrightarrow> GetDesiredReplicas t = 0"

definition filterVariantsByScaleTargetAccessor :: "api_client \<Rightarrow> (scale_target \<Rightarrow> bool) \<Rightarrow> (nat \<Rightarrow> bool) \<Rightarrow> variant_autoscaling list \<Rightarrow>
    (variant_autoscaling list \<times> (string, scale_target) gomap) option" where
  "filterVariantsByScaleTargetAccessor c keep cancelled ready = map_option (\<lambda>found.
     (map fst found, fold (\<lambda>(va, t). mput (GetNamespacedKey (va_Namespace va) (va_TargetName va)) t) found []))
     (filter_variants c keep cancelled 0 ready)"

definition ActiveVariantAutoscaling :: "api_client \<Rightarrow> (nat \<Rightarrow> bool) \<Rightarrow> variant_autoscaling list \<Rightarrow>
    (variant_autoscaling list \<times> (string, scale_target) gomap) option" where
  "ActiveVariantAutoscaling c = filterVariantsByScaleTargetAccessor c isActive"

definition InactiveVariantAutoscaling :: "api_client \<Rightarrow> (nat \<Rightarrow> bool) \<Rightarrow> variant_autoscaling list \<Rightarrow>
    (variant_autoscaling list \<times> (string, scale_target) gomap) option" where
  "InactiveVariantAutoscaling c = filterVariantsByScaleTargetAccessor c isInactive"

definition model_key :: "variant_autoscaling \<Rightarrow> string" where
  "model_key va = va_ModelID va @ ''|'' @ va_Namespace va"

definition GroupVariantAutoscalingByModel :: "variant_autoscaling list \<Rightarrow> (string, variant_autoscaling list) gomap" where
  "GroupVariantAutoscalingByModel vas = fold (\<lambda>va groups. mput (model_key va) (mget [] groups (model_key va) @ [va]) groups) vas []"

section \<open>The accelerator and the role of a target\<close>

text \<open>\<open>GetProductKeys\<close>: the product labels of all vendors with their aliases, sorted.\<close>

definition product_labels :: "string list" where
  "product_labels = [''nvidia.com/gpu.product'', ''cloud.google.com/gke-accelerator'', ''amd.com/gpu.product-name'',
     ''habana.ai/product.name'', ''gpu.intel.com/product'', ''gpu.intel.com/product'']"

definition GetProductKeys :: "string list" where
  "GetProductKeys = sort (remdups product_labels)"

fun first_nonempty :: "('a \<Rightarrow> string) \<Rightarrow> 'a list \<Rightarrow> string" where
  "first_nonempty f [] = []"
| "first_nonempty f (x # xs) = (if f x \<noteq> [] then f x else first_nonempty f xs)"

text \<open>The first expression on one of the keys that lists values; an empty first value ends the search, too.\<close>

definition extractGPUFromNodeSelectorTerm :: "string list \<Rightarrow> selector_term \<Rightarrow> string" where
  "extractGPUFromNodeSelectorTerm gpuKeys expressions =
     (case find (\<lambda>expr. me_Key expr \<in> set gpuKeys \<and> me_Operator expr = ''In'' \<and> me_Values expr \<noteq> []) expressions of
        Some expr \<Rightarrow> hd (me_Values expr) | None \<Rightarrow> [])"

definition extractGPUFromNodeAffinity :: "node_affinity \<Rightarrow> string list \<Rightarrow> string" where
  "extractGPUFromNodeAffinity a gpuKeys =
     (let required = first_nonempty (extractGPUFromNodeSelectorTerm gpuKeys) (case na_Required a of None \<Rightarrow> [] | Some ts \<Rightarrow> ts) in
      if required \<noteq> [] then required
      else first_nonempty (extractGPUFromNodeSelectorTerm gpuKeys) (case na_Preferred a of None \<Rightarrow> [] | Some ts \<Rightarrow> ts))"

definition AcceleratorNameLabel :: string where "AcceleratorNameLabel = ''inference.optimization/acceleratorName''"

definition label_accelerator :: "variant_autoscaling option \<Rightarrow> string" where
  "label_accelerator va = (case va of
     None \<Rightarrow> DefaultAcceleratorName
   | Some v \<Rightarrow> (case map_of (va_Labels v) AcceleratorNameLabel of Some name \<Rightarrow> name | None \<Rightarrow> DefaultAcceleratorName))"

definition GetAcceleratorNameFromScaleTarget :: "variant_autoscaling option \<Rightarrow> scale_target option \<Rightarrow> string" where
  "GetAcceleratorNameFromScaleTarget va target = (case target of
     None \<Rightarrow> label_accelerator va
   | Some t \<Rightarrow>
      (let p = GetLeaderPodTemplateSpec t;
           selected = (case ps_NodeSelector p of None \<Rightarrow> None | Some sel \<Rightarrow> find (mhas sel) GetProductKeys);
           affine = (case ps_NodeAffinity p of None \<Rightarrow> [] | Some a \<Rightarrow> extractGPUFromNodeAffinity a GetProductKeys)
       in case selected of
            Some key \<Rightarrow> mget [] (the (ps_NodeSelector p)) key
          | None \<Rightarrow> if affine \<noteq> [] then affine else label_accelerator va))"

definition getRoleFromScaleTarget :: "scale_target \<Rightarrow> string" where
  "getRoleFromScaleTarget t = (case ps_Labels (GetLeaderPodTemplateSpec t) of
     None \<Rightarrow> RoleBoth
   | Some labels \<Rightarrow> (case map_of labels ''llm-d.ai/role'' of
       None \<Rightarrow> RoleBoth
     | Some val \<Rightarrow> if val = ''prefill'' then ''prefill'' else if val = ''decode'' then ''decode'' else RoleBoth))"

section \<open>Replica states\<close>

definition state_of_target :: "variant_autoscaling \<Rightarrow> scale_target \<Rightarrow> variant_replica_state" where
  "state_of_target va t =
     (let current = (if GetStatusReplicas t = 0 then (case GetReplicas t of Some n \<Rightarrow> n | None \<Rightarrow> GetStatusReplicas t) else GetStatusReplicas t);
          pending = current - tm_ReadyReplicas (target_meta_of t)
      in \<lparr>st_VariantName = va_Name va, st_CurrentReplicas = current,
          st_DesiredReplicas = (case va_NumReplicas va of None \<Rightarrow> 0 | Some n \<Rightarrow> n),
          st_PendingReplicas = (if pending < 0 then 0 else pending), st_GPUsPerReplica = GetTotalGPUsPerReplica t,
          st_Role = getRoleFromScaleTarget t, st_MinReplicas = va_MinReplicas va,
          st_MaxReplicas = (if va_MaxReplicas va > 0 then Some (va_MaxReplicas va) else None)\<rparr>)"

definition lookup_target :: "api_client \<Rightarrow> (string, scale_target) gomap \<Rightarrow> variant_autoscaling \<Rightarrow> scale_target option" where
  "lookup_target c targets va = (case map_of targets (GetNamespacedKey (va_Namespace va) (va_TargetName va)) of
     Some t \<Rightarrow> Some t
   | None \<Rightarrow> (case FetchScaleTarget c (va_Kind va) (va_TargetName va) (va_Namespace va) of Inl _ \<Rightarrow> None | Inr t \<Rightarrow> Some t))"

definition BuildVariantStates :: "api_client \<Rightarrow> variant_autoscaling list \<Rightarrow> (string, scale_target) gomap \<Rightarrow> variant_replica_state list" where
  "BuildVariantStates c vas targets =
     List.map_filter (\<lambda>va. map_option (state_of_target va) (lookup_target c targets va)) vas"

section \<open>Discovery keeps one variant per target\<close>

text \<open>The variants a list of autoscalers gives: managed, not being deleted, with valid annotations.\<close>

definition discovered :: "(autoscaler \<Rightarrow> annotation_error + variant_autoscaling) \<Rightarrow> autoscaler list \<Rightarrow> variant_autoscaling list" where
  "discovered build xs = List.map_filter (\<lambda>x.
     if IsManaged (as_Annotations x) \<and> \<not> as_Deleted x then (case build x of Inl _ \<Rightarrow> None | Inr va \<Rightarrow> Some va) else None) xs"

text \<open>The abstract view: each target holds the latest variant listed for it.\<close>

definition by_target :: "variant_autoscaling list \<Rightarrow> string \<Rightarrow> variant_autoscaling option" where
  "by_target vas k = find (\<lambda>va. target_key va = k) (rev vas)"

lemma add_variants_discovered:
  "add_variants build xs m = fold (\<lambda>va. mput (target_key va) va) (discovered build xs) m"
  by (induction xs arbitrary: m) (auto simp: add_variants_def discovered_def List.map_filter_def split: sum.splits)

lemma fold_put_view:
  "map_of (fold (\<lambda>va. mput (target_key va) va) vas m) k = (case by_target vas k of Some va \<Rightarrow> Some va | None \<Rightarrow> map_of m k)"
  by (induction vas rule: rev_induct) (simp_all add: by_target_def update_conv)

lemma by_target_key: "by_target vas k = Some va \<Longrightarrow> target_key va = k"
  by (auto simp: by_target_def find_Some_iff)

definition keyed :: "(string, variant_autoscaling) gomap \<Rightarrow> bool" where
  "keyed m \<longleftrightarrow> wf_map m \<and> (\<forall>k va. map_of m k = Some va \<longrightarrow> k = target_key va)"

lemma keyed_add_variants:
  assumes "keyed m"
  shows "keyed (add_variants build xs m)"
proof -
  have "wf_map (fold (\<lambda>va. mput (target_key va) va) vas m')" if "wf_map m'" for vas m'
    using that by (induction vas arbitrary: m') auto
  then show ?thesis using assms
    by (auto simp: keyed_def add_variants_discovered fold_put_view by_target_key split: option.splits)
qed

lemma find_distinct:
  assumes "distinct (map f xs)"
  shows "find (\<lambda>x. f x = k) xs = Some y \<longleftrightarrow> y \<in> set xs \<and> f y = k"
  using assms by (induction xs) auto

lemma keyed_values:
  assumes "keyed m"
  shows "distinct (map target_key (map snd m))" and "by_target (map snd m) = map_of m"
proof -
  have key: "\<forall>(k, va) \<in> set m. target_key va = k" using assms by (auto simp: keyed_def)
  then have keys: "map target_key (map snd m) = map fst m" by auto
  then show "distinct (map target_key (map snd m))" using assms by (simp only: keyed_def)
  show "by_target (map snd m) = map_of m"
  proof
    fix k
    have "distinct (map target_key (rev (map snd m)))" using keys assms by (simp only: keyed_def rev_map [symmetric] distinct_rev)
    then have "by_target (map snd m) k = Some va \<longleftrightarrow> va \<in> set (map snd m) \<and> target_key va = k" for va
      by (simp add: by_target_def find_distinct del: map_map)
    moreover have "va \<in> set (map snd m) \<and> target_key va = k \<longleftrightarrow> (k, va) \<in> set m" for va
      using key by (auto intro: rev_image_eqI)
    ultimately have "by_target (map snd m) k = Some va \<longleftrightarrow> map_of m k = Some va" for va
      using assms by (simp add: keyed_def)
    then show "by_target (map snd m) k = map_of m k" by (metis not_Some_eq)
  qed
qed

text \<open>C5. Discovery refines a right-biased union: viewed by target, the variants found in the listed HPAs and
  ScaledObjects are those of the HPAs overridden by those of the ScaledObjects, the latest entry
  winning within each list.  No two variants of one controller instance share a target, and without an
  instance every variant found is ready.\<close>

theorem discovery_refines_override:
  "by_target (fst (annotationSourcedVariants pf (Inr hs) (Listed ss))) =
     by_target (discovered (VariantAutoscalingFromHPA pf) hs) ++ by_target (discovered (VariantAutoscalingFromScaledObject pf) ss) \<and>
   distinct (map target_key (readyVariantAutoscalings pf (Inr hs) (Listed ss) inst)) \<and>
   readyVariantAutoscalings pf (Inr hs) (Listed ss) [] = fst (annotationSourcedVariants pf (Inr hs) (Listed ss))"
proof -
  let ?m = "add_variants (VariantAutoscalingFromScaledObject pf) ss (add_variants (VariantAutoscalingFromHPA pf) hs [])"
  have "keyed ?m" by (intro keyed_add_variants) (simp add: keyed_def)
  note vals = keyed_values [OF this]
  have "map_of ?m = by_target (discovered (VariantAutoscalingFromHPA pf) hs) ++ by_target (discovered (VariantAutoscalingFromScaledObject pf) ss)"
    by (auto simp: add_variants_discovered fold_put_view map_add_def split: option.splits)
  moreover have "fst (annotationSourcedVariants pf (Inr hs) (Listed ss)) = map snd ?m"
    by (simp add: annotationSourcedVariants_def)
  ultimately show ?thesis using vals
    by (simp add: readyVariantAutoscalings_def) (metis distinct_map_filter map_map)
qed

section \<open>Active and inactive variants\<close>

text \<open>The targets that discovery can read: named, found, and not being deleted.\<close>

definition readable_target :: "api_client \<Rightarrow> variant_autoscaling \<Rightarrow> scale_target option" where
  "readable_target c va = (if va_TargetName va = [] then None
     else case FetchScaleTarget c (va_Kind va) (va_TargetName va) (va_Namespace va) of
       Inl _ \<Rightarrow> None | Inr t \<Rightarrow> if tm_Deleted (target_meta_of t) then None else Some t)"

lemma filter_variants_readable:
  "(\<And>i. \<not> cancelled i) \<Longrightarrow> filter_variants c keep cancelled i vas =
     Some (List.map_filter (\<lambda>va. case readable_target c va of Some t \<Rightarrow> if keep t then Some (va, t) else None | None \<Rightarrow> None) vas)"
  by (induction vas arbitrary: i) (auto simp: readable_target_def List.map_filter_def split: option.splits sum.splits)

lemma filtered_variants:
  assumes "\<And>i. \<not> cancelled i"
  shows "map_option fst (filterVariantsByScaleTargetAccessor c keep cancelled vas) =
    Some (filter (\<lambda>va. case readable_target c va of Some t \<Rightarrow> keep t | None \<Rightarrow> False) vas)"
proof -
  have "map fst (List.map_filter (\<lambda>va. case readable_target c va of Some t \<Rightarrow> if keep t then Some (va, t) else None | None \<Rightarrow> None) vas) =
    filter (\<lambda>va. case readable_target c va of Some t \<Rightarrow> keep t | None \<Rightarrow> False) vas"
    by (induction vas) (auto simp: List.map_filter_def split: option.splits)
  then show ?thesis by (simp add: filterVariantsByScaleTargetAccessor_def filter_variants_readable [OF assms])
qed

lemma filter_split: "(\<And>x. x \<in> set xs \<Longrightarrow> R x = (P x \<noteq> Q x)) \<Longrightarrow> (\<And>x. x \<in> set xs \<Longrightarrow> P x \<Longrightarrow> R x) \<Longrightarrow>
  mset (filter P xs) + mset (filter Q xs) = mset (filter R xs)"
  by (induction xs) auto

text \<open>The engine loop and the scale-from-zero loop share the variants out: when the context lives and no
  target asks for a negative count, each variant whose target can be read is in exactly one of the
  active and the inactive variants, with its target not being deleted.\<close>

theorem active_inactive_partition:
  assumes "\<And>i. \<not> cancelled i"
    and "\<And>va t. va \<in> set vas \<Longrightarrow> readable_target c va = Some t \<Longrightarrow> 0 \<le> GetDesiredReplicas t"
  shows "\<exists>act acts inact inacts. ActiveVariantAutoscaling c cancelled vas = Some (act, acts) \<and>
    InactiveVariantAutoscaling c cancelled vas = Some (inact, inacts) \<and>
    mset act + mset inact = mset (filter (\<lambda>va. readable_target c va \<noteq> None) vas) \<and> set act \<inter> set inact = {}"
proof -
  let ?in = "\<lambda>keep va. case readable_target c va of Some t \<Rightarrow> keep t | None \<Rightarrow> False"
  have "map_option fst (ActiveVariantAutoscaling c cancelled vas) = Some (filter (?in isActive) vas)"
    and "map_option fst (InactiveVariantAutoscaling c cancelled vas) = Some (filter (?in isInactive) vas)"
    by (simp_all add: ActiveVariantAutoscaling_def InactiveVariantAutoscaling_def filtered_variants [OF assms(1)])
  moreover have "mset (filter (?in isActive) vas) + mset (filter (?in isInactive) vas) = mset (filter (\<lambda>va. readable_target c va \<noteq> None) vas)"
    using assms(2) by (intro filter_split) (fastforce simp: isActive_def isInactive_def split: option.splits)+
  moreover have "set (filter (?in isActive) vas) \<inter> set (filter (?in isInactive) vas) = {}"
    by (auto simp: isActive_def isInactive_def split: option.splits)
  ultimately show ?thesis by fastforce
qed

section \<open>Groups are models\<close>

lemma group_snoc:
  "GroupVariantAutoscalingByModel (vas @ [va]) = mput (model_key va)
     (mget [] (GroupVariantAutoscalingByModel vas) (model_key va) @ [va]) (GroupVariantAutoscalingByModel vas)"
  by (simp add: GroupVariantAutoscalingByModel_def)

lemma group_members:
  "wf_map (GroupVariantAutoscalingByModel vas) \<and>
   (\<forall>k. map_of (GroupVariantAutoscalingByModel vas) k =
     (let g = filter (\<lambda>va. model_key va = k) vas in if g = [] then None else Some g))"
proof (induction vas rule: rev_induct)
  case (snoc va vas)
  then have "mget [] (GroupVariantAutoscalingByModel vas) k = filter (\<lambda>va. model_key va = k) vas" for k
    by (simp add: mget_def Let_def)
  with snoc show ?case by (auto simp: group_snoc update_conv Let_def)
qed (simp add: GroupVariantAutoscalingByModel_def)

lemma split_last_sep: "xs @ c # ys = xs' @ c # ys' \<Longrightarrow> c \<notin> set ys \<Longrightarrow> c \<notin> set ys' \<Longrightarrow> xs = xs' \<and> ys = ys'"
  by (auto simp: append_eq_append_conv2 Cons_eq_append_conv append_eq_Cons_conv)

lemma concat_snoc_at:
  "mset (concat (map snd (mput k (mget [] m k @ [x]) m))) = add_mset x (mset (concat (map snd m)))"
  by (induction m) auto

lemma groups_hold_all: "mset (concat (map snd (GroupVariantAutoscalingByModel vas))) = mset vas"
  by (induction vas rule: rev_induct) (simp_all add: group_snoc concat_snoc_at, simp add: GroupVariantAutoscalingByModel_def)

text \<open>The model and namespace the engine reads off a group: those of its first variant.\<close>

definition group_model :: "string \<times> variant_autoscaling list \<Rightarrow> string \<times> string" where
  "group_model g = (va_ModelID (hd (snd g)), va_Namespace (hd (snd g)))"

lemma model_key_eq:
  "CHR ''|'' \<notin> set (va_Namespace va) \<Longrightarrow> CHR ''|'' \<notin> set (va_Namespace va') \<Longrightarrow>
   model_key va = model_key va' \<longleftrightarrow> va_ModelID va = va_ModelID va' \<and> va_Namespace va = va_Namespace va'"
  by (auto simp: model_key_def dest: split_last_sep)

lemma group_is_filter:
  assumes "g \<in> set (GroupVariantAutoscalingByModel vas)"
  shows "snd g \<noteq> [] \<and> snd g = filter (\<lambda>va. model_key va = fst g) vas"
proof -
  have "map_of (GroupVariantAutoscalingByModel vas) (fst g) = Some (snd g)" using conjunct1 [OF group_members] assms by simp
  then show ?thesis using group_members [of vas] by (auto simp: Let_def split: if_splits)
qed

lemma group_first:
  assumes "g \<in> set (GroupVariantAutoscalingByModel vas)"
  shows "hd (snd g) \<in> set vas \<and> model_key (hd (snd g)) = fst g"
proof -
  have "hd (snd g) \<in> set (filter (\<lambda>va. model_key va = fst g) vas)" using group_is_filter [OF assms] hd_in_set by metis
  then show ?thesis by simp
qed

lemma group_key:
  assumes "\<forall>va\<in>set vas. CHR ''|'' \<notin> set (va_Namespace va)" and "g \<in> set (GroupVariantAutoscalingByModel vas)" and "va \<in> set vas"
  shows "model_key va = fst g \<longleftrightarrow> (va_ModelID va, va_Namespace va) = group_model g"
  using model_key_eq [of va "hd (snd g)"] group_first [OF assms(2)] assms by (auto simp: group_model_def)

lemma group_models_distinct:
  assumes "\<forall>va\<in>set vas. CHR ''|'' \<notin> set (va_Namespace va)"
  shows "distinct (map group_model (GroupVariantAutoscalingByModel vas))"
proof -
  let ?gs = "GroupVariantAutoscalingByModel vas"
  have wf: "wf_map ?gs" using group_members by blast
  have "inj_on group_model (set ?gs)"
  proof (rule inj_onI)
    fix g g' assume gs: "g \<in> set ?gs" "g' \<in> set ?gs" and eq: "group_model g = group_model g'"
    then have "fst g = fst g'" using group_first group_key [OF assms] by (metis group_model_def)
    with wf gs show "g = g'" by (metis eq_key_imp_eq_value prod.collapse)
  qed
  moreover have "distinct ?gs" using wf by (simp add: distinct_map)
  ultimately show ?thesis by (simp add: distinct_map)
qed

text \<open>C7. Groups are models: as long as namespaces hold no bar, every group is exactly the variants of one model
  in one namespace, in order and never empty, the groups are of distinct models, and together they hold
  every variant once.\<close>

theorem groups_are_models:
  assumes "\<forall>va\<in>set vas. CHR ''|'' \<notin> set (va_Namespace va)"
  shows "(\<forall>g\<in>set (GroupVariantAutoscalingByModel vas). snd g \<noteq> [] \<and>
      snd g = filter (\<lambda>va. (va_ModelID va, va_Namespace va) = group_model g) vas) \<and>
    distinct (map group_model (GroupVariantAutoscalingByModel vas)) \<and>
    mset (concat (map snd (GroupVariantAutoscalingByModel vas))) = mset vas"
proof (intro conjI groups_hold_all group_models_distinct [OF assms] ballI)
  fix g assume g: "g \<in> set (GroupVariantAutoscalingByModel vas)"
  show "snd g \<noteq> []" using group_is_filter [OF g] ..
  have "filter (\<lambda>va. model_key va = fst g) vas = filter (\<lambda>va. (va_ModelID va, va_Namespace va) = group_model g) vas"
    by (rule filter_cong [OF refl group_key [OF assms g]])
  then show "snd g = filter (\<lambda>va. (va_ModelID va, va_Namespace va) = group_model g) vas" using group_is_filter [OF g] by simp
qed

section \<open>Replica states are well formed\<close>

text \<open>What the API server guarantees of a target: counts and requests are not negative, a group has at least
  one pod.\<close>

definition target_ok :: "scale_target \<Rightarrow> bool" where
  "target_ok t \<longleftrightarrow> 0 \<le> GetStatusReplicas t \<and> 0 \<le> tm_ReadyReplicas (target_meta_of t) \<and> 0 \<le> GetDesiredReplicas t \<and> 1 \<le> GetGroupSize t \<and>
     (\<forall>p\<in>{GetLeaderPodTemplateSpec t, GetWorkerPodTemplateSpec t}. \<forall>r\<in>set (ps_Requests p). \<forall>q\<in>set r. 0 \<le> snd q)"

text \<open>The type of a replica state.\<close>

definition replica_state_ok :: "variant_replica_state \<Rightarrow> bool" where
  "replica_state_ok s \<longleftrightarrow> 0 \<le> st_PendingReplicas s \<and> st_PendingReplicas s \<le> st_CurrentReplicas s \<and> 1 \<le> st_GPUsPerReplica s \<and>
     st_Role s \<in> {RolePrefill, RoleDecode, RoleBoth} \<and> (case st_MaxReplicas s of None \<Rightarrow> True | Some m \<Rightarrow> 0 < m)"

lemma GetContainersGPUs_nonneg:
  assumes "\<forall>r\<in>set requests. \<forall>q\<in>set r. 0 \<le> snd q"
  shows "0 \<le> GetContainersGPUs requests"
proof -
  have "0 \<le> mget 0 r k" if "r \<in> set requests" for r k
    using assms that by (fastforce simp: mget_def dest: map_of_SomeD split: option.split)
  then show ?thesis unfolding GetContainersGPUs_def by (intro sum_list_nonneg) (auto intro!: sum_list_nonneg)
qed

lemma GetTotalGPUsPerReplica_pos:
  assumes "target_ok t"
  shows "1 \<le> GetTotalGPUsPerReplica t"
proof -
  have leader: "0 \<le> GetContainersGPUs (ps_Requests (GetLeaderPodTemplateSpec t))"
    and worker: "0 \<le> GetContainersGPUs (ps_Requests (GetWorkerPodTemplateSpec t))"
    using assms by (auto simp: target_ok_def intro!: GetContainersGPUs_nonneg)
  show ?thesis
  proof (cases t)
    case (LWSTarget m sz l w)
    have "0 \<le> (GetGroupSize t - 1) * GetContainersGPUs (ps_Requests w)"
      using assms worker LWSTarget by (simp add: target_ok_def GetWorkerPodTemplateSpec_def)
    moreover have "0 \<le> (case l of None \<Rightarrow> 0 | Some p \<Rightarrow> GetContainersGPUs (ps_Requests p))"
      using leader LWSTarget by (simp add: GetLeaderPodTemplateSpec_def split: option.splits)
    ultimately show ?thesis using LWSTarget by (simp add: GetTotalGPUsPerReplica_def Let_def)
  qed (use leader in \<open>simp add: GetTotalGPUsPerReplica_def GetLeaderPodTemplateSpec_def Let_def\<close>)
qed

lemma role_of_target: "getRoleFromScaleTarget t \<in> {RolePrefill, RoleDecode, RoleBoth}"
  by (simp add: getRoleFromScaleTarget_def domain_consts split: option.split)

lemma state_of_target_ok: "target_ok t \<Longrightarrow> replica_state_ok (state_of_target va t)"
  using role_of_target [of t] GetTotalGPUsPerReplica_pos [of t]
  by (auto simp: replica_state_ok_def state_of_target_def target_ok_def GetDesiredReplicas_def Let_def split: option.splits)

lemma map_map_filter: "(\<And>x y. f x = Some y \<Longrightarrow> g y = h x) \<Longrightarrow> map g (List.map_filter f xs) = map h (filter (\<lambda>x. f x \<noteq> None) xs)"
  by (induction xs) (auto simp: List.map_filter_def)

lemma states_names:
  "map st_VariantName (BuildVariantStates c vas targets) = map va_Name (filter (\<lambda>va. lookup_target c targets va \<noteq> None) vas)"
  unfolding BuildVariantStates_def
  by (subst map_map_filter [where h = va_Name]) (auto simp: state_of_target_def Let_def)

text \<open>C6. The states handed to the analyzers are well formed: for targets the API server admits, every state has
  between none and all of its replicas pending, at least one GPU per replica, one of the three roles, and
  a maximum, if any, that is positive; the states are those of the variants whose target is found, in order.\<close>

theorem variant_states_well_formed:
  assumes "\<forall>va\<in>set vas. \<forall>t. lookup_target c targets va = Some t \<longrightarrow> target_ok t"
  shows "(\<forall>s\<in>set (BuildVariantStates c vas targets). replica_state_ok s) \<and>
    map st_VariantName (BuildVariantStates c vas targets) = map va_Name (filter (\<lambda>va. lookup_target c targets va \<noteq> None) vas)"
proof
  show "\<forall>s\<in>set (BuildVariantStates c vas targets). replica_state_ok s"
    using assms state_of_target_ok by (auto simp: BuildVariantStates_def List.map_filter_def)
qed (rule states_names)

section \<open>An example: a Deployment and a LeaderWorkerSet of the same name\<close>

definition example_pod :: "int \<Rightarrow> pod_spec" where
  "example_pod gpus = \<lparr>ps_Labels = Some [(''llm-d.ai/role'', ''decode'')], ps_NodeSelector = Some [(''nvidia.com/gpu.product'', ''H100'')],
     ps_NodeAffinity = None, ps_Requests = [[(''nvidia.com/gpu'', gpus)]], ps_Containers = []\<rparr>"

definition example_meta :: "int \<Rightarrow> target_meta" where
  "example_meta n = \<lparr>tm_Name = ''llm'', tm_Namespace = ''ns'', tm_Replicas = Some n, tm_StatusReplicas = n, tm_ReadyReplicas = n, tm_Deleted = False\<rparr>"

definition example_client :: api_client where
  "example_client = \<lparr>ac_Deployment = \<lambda>_ _. Inr (example_meta 3, example_pod 1),
     ac_LWS = \<lambda>_ _. Inr (example_meta 1, Some 4, Some (example_pod 8), example_pod 8)\<rparr>"

definition example_va :: "string \<Rightarrow> string \<Rightarrow> variant_autoscaling" where
  "example_va name kind = \<lparr>va_Name = name, va_Namespace = ''ns'', va_Labels = [], va_Annotations = [(Synthetic, enabledValue)],
     va_APIVersion = ''apps/v1'', va_Kind = kind, va_TargetName = ''llm'', va_ModelID = ''m'', va_MinReplicas = Some 1,
     va_MaxReplicas = 5, va_VariantCost = defaultVariantCost, va_NumReplicas = None, va_Accelerator = []\<rparr>"

lemmas example_variant_defs = example_pod_def example_meta_def example_client_def example_va_def readable_target_def
  FetchScaleTarget_def DeploymentKind_def LeaderWorkerSetKind_def GetDesiredReplicas_def

lemma example_targets_ok: "readable_target example_client (example_va v k) = Some t \<Longrightarrow> target_ok t"
  by (auto simp: example_variant_defs target_ok_def GetGroupSize_def GetLeaderPodTemplateSpec_def GetWorkerPodTemplateSpec_def split: if_splits)

lemma active_inactive_partition_witness:
  "\<exists>act acts inact inacts.
    ActiveVariantAutoscaling example_client (\<lambda>_. False) [example_va ''a'' DeploymentKind, example_va ''b'' ''StatefulSet''] = Some (act, acts) \<and>
    InactiveVariantAutoscaling example_client (\<lambda>_. False) [example_va ''a'' DeploymentKind, example_va ''b'' ''StatefulSet''] = Some (inact, inacts) \<and>
    mset act + mset inact = mset (filter (\<lambda>va. readable_target example_client va \<noteq> None) [example_va ''a'' DeploymentKind, example_va ''b'' ''StatefulSet'']) \<and>
    set act \<inter> set inact = {}"
  by (rule active_inactive_partition) (auto simp: example_variant_defs split: if_splits)

lemma groups_are_models_witness:
  "list_all (\<lambda>g. snd g \<noteq> [] \<and>
      snd g = filter (\<lambda>va. (va_ModelID va, va_Namespace va) = group_model g) [example_va ''a'' DeploymentKind, example_va ''b'' LeaderWorkerSetKind])
      (GroupVariantAutoscalingByModel [example_va ''a'' DeploymentKind, example_va ''b'' LeaderWorkerSetKind]) \<and>
    distinct (map group_model (GroupVariantAutoscalingByModel [example_va ''a'' DeploymentKind, example_va ''b'' LeaderWorkerSetKind])) \<and>
    mset (concat (map snd (GroupVariantAutoscalingByModel [example_va ''a'' DeploymentKind, example_va ''b'' LeaderWorkerSetKind]))) =
      mset [example_va ''a'' DeploymentKind, example_va ''b'' LeaderWorkerSetKind]"
  unfolding list_all_iff by (rule groups_are_models) (simp add: example_va_def)

lemma variant_states_well_formed_witness:
  "list_all replica_state_ok (BuildVariantStates example_client [example_va ''a'' DeploymentKind, example_va ''b'' ''StatefulSet''] []) \<and>
    map st_VariantName (BuildVariantStates example_client [example_va ''a'' DeploymentKind, example_va ''b'' ''StatefulSet''] []) =
      map va_Name (filter (\<lambda>va. lookup_target example_client [] va \<noteq> None) [example_va ''a'' DeploymentKind, example_va ''b'' ''StatefulSet''])"
  unfolding list_all_iff
  by (rule variant_states_well_formed)
    (auto simp: lookup_target_def example_variant_defs target_ok_def GetGroupSize_def GetLeaderPodTemplateSpec_def GetWorkerPodTemplateSpec_def split: if_splits)


end
