(* ===== verification/Engine_V2.thy ===== *)
theory Engine_V2
  imports Rescale Throughput Variants
begin

text \<open>
  The engine of the token-based path (\<open>engine_v2.go\<close> and its callers in
  \<open>engine.go\<close>): it feeds the capacity store, runs the analyzers, turns their totals into
  required and spare capacity, keeps track of which analyzers are live, chooses the optimizer and its
  GPU constraints, and runs one optimization cycle.  Registered analyzers are arguments: a function
  from the input to a report with its time stamp, or nothing when it fails or panics.  Collected data
  (metrics, replica states, scale targets) are arguments too.  Logging and events are left out.
\<close>

section \<open>Configuration of an analyzer\<close>

definition config_entry :: "string \<Rightarrow> saturation_scaling_config \<Rightarrow> analyzer_score_config option" where
  "config_entry name cfg = find (\<lambda>aw. EffectiveType aw = name) (sc_Analyzers cfg)"

definition scoreForAnalyzer :: "string \<Rightarrow> saturation_scaling_config \<Rightarrow> gofloat" where
  "scoreForAnalyzer name cfg = (case config_entry name cfg of
     Some aw \<Rightarrow> if an_Score aw > 0 then an_Score aw else 1 | None \<Rightarrow> 1)"

definition resolveThresholds :: "string \<Rightarrow> saturation_scaling_config \<Rightarrow> gofloat \<times> gofloat" where
  "resolveThresholds name cfg = (case config_entry name cfg of
     Some aw \<Rightarrow> (EffectiveScaleUpThreshold aw (sc_ScaleUpThreshold cfg), EffectiveScaleDownBoundary aw (sc_ScaleDownBoundary cfg))
   | None \<Rightarrow> (sc_ScaleUpThreshold cfg, sc_ScaleDownBoundary cfg))"

definition effectiveEnabled :: "string \<Rightarrow> saturation_scaling_config \<Rightarrow> bool" where
  "effectiveEnabled name cfg = (case config_entry name cfg of
     Some aw \<Rightarrow> (case an_Enabled aw of Some b \<Rightarrow> b | None \<Rightarrow> True) | None \<Rightarrow> False)"

section \<open>From totals to signals\<close>

definition required_signal :: "gofloat \<Rightarrow> gofloat \<Rightarrow> gofloat \<Rightarrow> gofloat" where
  "required_signal scaleUp demand anticipated =
     (let rc = demand / scaleUp - anticipated in if rc < 0 then 0 else rc)"

definition spare_signal :: "gofloat \<Rightarrow> gofloat \<Rightarrow> gofloat \<Rightarrow> gofloat" where
  "spare_signal scaleDown demand supply =
     (let sc = supply - demand / scaleDown in if sc < 0 then 0 else sc)"

definition threshold_role :: "gofloat \<Rightarrow> gofloat \<Rightarrow> role_capacity \<Rightarrow> role_capacity" where
  "threshold_role scaleUp scaleDown rc = rc\<lparr>
     rc_RequiredCapacity := (if scaleUp > 0 then required_signal scaleUp (rc_TotalDemand rc) (rc_TotalAnticipatedSupply rc)
       else rc_RequiredCapacity rc),
     rc_SpareCapacity := (if scaleDown > 0 then spare_signal scaleDown (rc_TotalDemand rc) (rc_TotalSupply rc)
       else rc_SpareCapacity rc)\<rparr>"

definition applyUniversalThreshold :: "analyzer_result \<Rightarrow> gofloat \<Rightarrow> gofloat \<Rightarrow> analyzer_result" where
  "applyUniversalThreshold r scaleUp scaleDown = r\<lparr>
     ar_RequiredCapacity := (if scaleUp > 0 then required_signal scaleUp (ar_TotalDemand r) (ar_TotalAnticipatedSupply r)
       else ar_RequiredCapacity r),
     ar_SpareCapacity := (if scaleDown > 0 then spare_signal scaleDown (ar_TotalDemand r) (ar_TotalSupply r)
       else ar_SpareCapacity r),
     ar_RoleCapacities := map_option (map (\<lambda>(role, rc). (role, threshold_role scaleUp scaleDown rc))) (ar_RoleCapacities r)\<rparr>"

section \<open>Liveness\<close>

text \<open>A named result with the time stamp of its report; zero is the unset time.\<close>

type_synonym stamped = "named_result \<times> int"
type_synonym last_good = "(string, (string, int) gomap) gomap"

definition analyzerLivenessStaleCycles :: int where "analyzerLivenessStaleCycles = 3"

definition liveness_threshold :: "int option \<Rightarrow> int" where
  "liveness_threshold interval = analyzerLivenessStaleCycles *
     (case interval of Some i \<Rightarrow> if i > 0 then i else 30 * time_Second | None \<Rightarrow> 30 * time_Second)"

definition demandLatchSuffix :: string where "demandLatchSuffix = CHR 0x00 # ''demand''"

definition mark_live :: "int \<Rightarrow> int \<Rightarrow> stamped \<Rightarrow> (string, int) gomap \<Rightarrow> named_result \<times> (string, int) gomap" where
  "mark_live now threshold e perAnalyzer =
     (let p = (if ResultIsInformative (fst e) then mput (nr_Name (fst e)) (if snd e = 0 then now else snd e) perAnalyzer else perAnalyzer)
      in ((fst e)\<lparr>nr_Live := (case map_of p (nr_Name (fst e)) of Some t \<Rightarrow> now - t \<le> threshold | None \<Rightarrow> False)\<rparr>, p))"

fun mark_all :: "int \<Rightarrow> int \<Rightarrow> stamped list \<Rightarrow> (string, int) gomap \<Rightarrow> named_result list \<times> (string, int) gomap" where
  "mark_all now threshold [] p = ([], p)"
| "mark_all now threshold (e # es) p =
     (let (nr, p1) = mark_live now threshold e p; (nrs, p2) = mark_all now threshold es p1 in (nr # nrs, p2))"

text \<open>The flag tells whether the warning about missing demand is logged.\<close>

definition detectDemandLiveness :: "int \<Rightarrow> int \<Rightarrow> stamped list \<Rightarrow> (string, int) gomap \<Rightarrow> bool \<times> (string, int) gomap" where
  "detectDemandLiveness now threshold es perAnalyzer =
     (case find (\<lambda>e. nr_Name (fst e) = ThroughputAnalyzerName) es of
        None \<Rightarrow> (False, perAnalyzer)
      | Some tp \<Rightarrow>
         let key = ThroughputAnalyzerName @ demandLatchSuffix;
             p = (case nr_Result (fst tp) of
                    Some r \<Rightarrow> if ar_TotalDemand r > 0 then mput key (snd tp) perAnalyzer else perAnalyzer
                  | None \<Rightarrow> perAnalyzer)
         in case map_of p ThroughputAnalyzerName of
              None \<Rightarrow> (False, p)
            | Some supplyTS \<Rightarrow>
                if now - supplyTS > threshold then (False, p)
                else (case map_of p key of
                        None \<Rightarrow> (False, mput key supplyTS p)
                      | Some demandTS \<Rightarrow> (supplyTS - demandTS \<ge> threshold, p)))"

definition updateLivenessAndSetLive :: "int option \<Rightarrow> int \<Rightarrow> string \<Rightarrow> string \<Rightarrow> stamped list \<Rightarrow> last_good \<Rightarrow> named_result list \<times> last_good" where
  "updateLivenessAndSetLive interval now namespace modelID es lastGood =
     (let key = GetNamespacedKey namespace modelID;
          threshold = liveness_threshold interval;
          (nrs, p) = mark_all now threshold es (mget [] lastGood key);
          (_, p') = detectDemandLiveness now threshold es p
      in (nrs, mput key p' lastGood))"

definition pruneLastGoodAnalysis :: "string set \<Rightarrow> last_good \<Rightarrow> last_good" where
  "pruneLastGoodAnalysis activeKeys lastGood =
     (if activeKeys = {} then lastGood else filter (\<lambda>p. fst p \<in> activeKeys) lastGood)"

section \<open>Running the analyzers\<close>

record analyzer_entry =
  ae_name :: string
  ae_analyze :: "analyzer_input \<Rightarrow> (analyzer_result \<times> int) option"

text \<open>A variant with its scale target, if one was found, and the accelerator and GPUs read off it.\<close>

record variant_target =
  vt_Name :: string
  vt_Accelerator :: string
  vt_GpuCount :: int
  vt_Target :: "pod_template option"

record engine_state =
  es_sat :: sat_state
  es_lastGood :: last_good

definition load_target :: "(string \<Rightarrow> gofloat option) \<Rightarrow> int \<Rightarrow> string \<Rightarrow> string \<Rightarrow> variant_target \<Rightarrow> capacity_store \<Rightarrow> capacity_store" where
  "load_target pf now namespace modelID vt =
     LoadFromScaleTarget pf now namespace modelID (vt_Name vt) (vt_Accelerator vt) (vt_GpuCount vt) (vt_Target vt)"

definition runV2AnalysisOnly :: "(string \<Rightarrow> gofloat option) \<Rightarrow> int \<Rightarrow> (nat \<Rightarrow> bool) \<Rightarrow> variant_target list \<Rightarrow> analyzer_input \<Rightarrow>
    sat_state \<Rightarrow> (analysis_error + analyzer_result) \<times> sat_state" where
  "runV2AnalysisOnly pf now ctx_done targets inp st =
     sat_Analyze now ctx_done inp
       (st\<lparr>ss_store := fold (load_target pf now (in_Namespace inp) (in_ModelID inp)) targets (ss_store st)\<rparr>)"

definition name_result :: "string \<Rightarrow> saturation_scaling_config \<Rightarrow> bool \<Rightarrow> analyzer_result \<Rightarrow> named_result" where
  "name_result name cfg enabled result =
     (let (up, down) = resolveThresholds name cfg; r = applyUniversalThreshold result up down in
      \<lparr>nr_Name = name, nr_Result = Some r, nr_Score = scoreForAnalyzer name cfg, nr_Remaining = ar_RequiredCapacity r,
       nr_Spare = ar_SpareCapacity r, nr_RoleSpare = None, nr_ScaleUpThreshold = up, nr_ScaleDownBoundary = down,
       nr_Live = False, nr_Enabled = enabled\<rparr>)"

definition sat_votes :: "saturation_scaling_config \<Rightarrow> bool" where
  "sat_votes cfg \<longleftrightarrow> sc_Analyzers cfg = [] \<or> effectiveEnabled SaturationAnalyzerName cfg"

definition registered_result :: "saturation_scaling_config \<Rightarrow> analyzer_input \<Rightarrow> analyzer_entry \<Rightarrow> stamped option" where
  "registered_result cfg inp entry =
     (if ae_name entry = SaturationAnalyzerName \<or> \<not> effectiveEnabled (ae_name entry) cfg then None
      else map_option (\<lambda>(r, ts). (name_result (ae_name entry) cfg True r, ts)) (ae_analyze entry inp))"

definition runAnalyzersAndScore :: "(string \<Rightarrow> gofloat option) \<Rightarrow> int option \<Rightarrow> int \<Rightarrow> (nat \<Rightarrow> bool) \<Rightarrow> analyzer_entry list \<Rightarrow>
    saturation_scaling_config \<Rightarrow> variant_target list \<Rightarrow> analyzer_input \<Rightarrow> engine_state \<Rightarrow>
    (analysis_error + named_result list) \<times> engine_state" where
  "runAnalyzersAndScore pf interval now ctx_done entries cfg targets inp0 st =
     (let inp = inp0\<lparr>in_Config := Some cfg\<rparr> in
      case runV2AnalysisOnly pf now ctx_done targets inp (es_sat st) of
        (Inl e, sat') \<Rightarrow> (Inl e, st\<lparr>es_sat := sat'\<rparr>)
      | (Inr base, sat') \<Rightarrow>
         let stamped = (name_result SaturationAnalyzerName cfg (sat_votes cfg) base, now) #
               List.map_filter (registered_result cfg inp) entries;
             (nrs, lastGood') = updateLivenessAndSetLive interval now (in_Namespace inp) (in_ModelID inp) stamped (es_lastGood st)
         in (Inr nrs, st\<lparr>es_sat := sat', es_lastGood := lastGood'\<rparr>))"

definition is_disaggregated :: "variant_replica_state list \<Rightarrow> bool" where
  "is_disaggregated states \<longleftrightarrow> list_ex (\<lambda>vs. st_Role vs \<noteq> [] \<and> st_Role vs \<noteq> RoleBoth) states"

definition collectV2ModelRequest :: "(string \<Rightarrow> gofloat option) \<Rightarrow> int option \<Rightarrow> int \<Rightarrow> (nat \<Rightarrow> bool) \<Rightarrow> analyzer_entry list \<Rightarrow>
    saturation_scaling_config \<Rightarrow> variant_target list \<Rightarrow> analyzer_input \<Rightarrow> engine_state \<Rightarrow>
    (analysis_error + model_request) \<times> engine_state" where
  "collectV2ModelRequest pf interval now ctx_done entries cfg targets inp st =
     (case runAnalyzersAndScore pf interval now ctx_done entries cfg targets inp st of
        (Inl e, st') \<Rightarrow> (Inl e, st')
      | (Inr nrs, st') \<Rightarrow> (Inr \<lparr>mr_ModelID = in_ModelID inp, mr_Namespace = in_Namespace inp, mr_AnalyzerResults = nrs,
          mr_VariantStates = in_VariantStates inp, mr_Priority = sc_Priority cfg,
          mr_Disaggregated = is_disaggregated (in_VariantStates inp)\<rparr>, st'))"

section \<open>GPU usage and constraints\<close>

definition sat_carrier :: "model_request \<Rightarrow> analyzer_result option" where
  "sat_carrier req = (case find (\<lambda>e. nr_Name e = SaturationAnalyzerName) (mr_AnalyzerResults req) of
     Some e \<Rightarrow> nr_Result e | None \<Rightarrow> None)"

definition usage_of_request :: "model_request \<Rightarrow> (string, int) gomap \<Rightarrow> (string, int) gomap" where
  "usage_of_request req usage = (case sat_carrier req of
     None \<Rightarrow> usage
   | Some r \<Rightarrow> fold (\<lambda>vc. let state = mget zero_state (buildStateMap (mr_VariantStates req)) (vc_VariantName vc) in
        madd (vc_AcceleratorName vc)
          (st_CurrentReplicas state * (if st_GPUsPerReplica state \<le> 0 then 1 else st_GPUsPerReplica state)))
      (ar_VariantCapacities r) usage)"

definition computeCurrentGPUUsage :: "model_request list \<Rightarrow> (string, int) gomap" where
  "computeCurrentGPUUsage requests = fold usage_of_request requests []"

definition computeCurrentGPUUsageByNamespace :: "model_request list \<Rightarrow> ns_usage" where
  "computeCurrentGPUUsageByNamespace requests = fold (\<lambda>req usage.
     mput (mr_Namespace req) (usage_of_request req (mget [] usage (mr_Namespace req))) usage) requests []"

definition is_provider :: "limiter \<Rightarrow> bool" where
  "is_provider l = (case l of DefaultLimiter _ \<Rightarrow> True | _ \<Rightarrow> False)"

definition gpuConstraintProviders :: "limiter \<Rightarrow> limiter list" where
  "gpuConstraintProviders l = (case l of
     DefaultLimiter d \<Rightarrow> [DefaultLimiter d]
   | CompositeLimiter _ ls \<Rightarrow> filter is_provider ls
   | NoOpLimiter _ \<Rightarrow> [])"

definition provider_constraints :: "string + node_inventory \<Rightarrow> (string, int) gomap \<Rightarrow> ns_usage \<Rightarrow> limiter \<Rightarrow> resource_constraints option" where
  "provider_constraints disc usage usageByNS l = (case l of
     DefaultLimiter d \<Rightarrow> (case fst (ComputeConstraints disc usage usageByNS d) of Inl _ \<Rightarrow> None | Inr rc \<Rightarrow> Some rc)
   | _ \<Rightarrow> None)"

datatype optimizer = CostAwareOptimizer | GreedyByScoreOptimizer

text \<open>Which optimizer runs, and on which constraints.  The providers recompute their inventory on each
  call, so the limiter they leave behind carries nothing over to the next cycle.\<close>

definition selectV2Optimizer :: "optimizer \<Rightarrow> limiter \<Rightarrow> string + node_inventory \<Rightarrow> model_request list \<Rightarrow>
    optimizer \<times> resource_constraints list" where
  "selectV2Optimizer configured gpuLimiter disc requests =
     (if configured \<noteq> GreedyByScoreOptimizer then (configured, [])
      else if gpuConstraintProviders gpuLimiter = [] then (CostAwareOptimizer, [])
      else let constraints = List.map_filter (provider_constraints disc (computeCurrentGPUUsage requests)
                 (computeCurrentGPUUsageByNamespace requests)) (gpuConstraintProviders gpuLimiter)
           in if constraints = [] then (CostAwareOptimizer, []) else (configured, constraints))"

definition resolveRescaleFlags :: "live_config \<Rightarrow> model_request list \<Rightarrow> rescale_flags" where
  "resolveRescaleFlags c requests = \<lparr>rf_Cluster = RescaleEnabledCluster c,
     rf_ByNamespace = map (\<lambda>ns. (ns, True)) (filter (\<lambda>ns. ns \<noteq> [] \<and> RescaleEnabledForNamespaceLocal c ns = (True, True))
       (remdups (map mr_Namespace requests)))\<rparr>"

section \<open>Enforcement and the cycle\<close>

definition scaleToZeroSupportedForEngines :: "(string, pod_template) gomap \<Rightarrow> bool" where
  "scaleToZeroSupportedForEngines targets = list_all (\<lambda>e. e = EngineVLLM) (Present targets)"

definition applyScaleToZeroEnforcement :: "request_count \<Rightarrow> string \<Rightarrow> live_config \<Rightarrow> (string \<Rightarrow> scale_to_zero_data) \<Rightarrow> string \<Rightarrow> string \<Rightarrow>
    string \<Rightarrow> (string, pod_template) gomap \<Rightarrow> variant_replica_state list \<Rightarrow> variant_decision list \<Rightarrow> bool \<times> variant_decision list" where
  "applyScaleToZeroEnforcement requestCount env c stz modelID namespace optimizerName targets states ds =
     (if ds = [] then (False, ds)
      else if \<not> scaleToZeroSupportedForEngines targets then (False, ds)
      else if hasMinReplicasAboveZero states then (False, ds)
      else EnforcePolicyOnDecisions requestCount env modelID namespace (stz namespace)
        (Some (resolveSaturationConfig (live_resolve c namespace) modelID namespace)) optimizerName ds)"

text \<open>One model of the cycle as data collection delivers it: an error, nothing, or its inputs.\<close>

record model_data =
  md_input :: analyzer_input
  md_targets :: "variant_target list"
  md_templates :: "(string, pod_template) gomap"

record model_group =
  mg_ModelID :: string
  mg_Namespace :: string
  mg_data :: "string + model_data option"

record engine_env =
  ee_parseFloat :: "string \<Rightarrow> gofloat option"
  ee_interval :: "int option"
  ee_ctxDone :: "nat \<Rightarrow> bool"
  ee_entries :: "analyzer_entry list"
  ee_config :: live_config
  ee_scaleToZero :: "string \<Rightarrow> scale_to_zero_data"
  ee_requestCount :: request_count
  ee_env :: string
  ee_optimizer :: optimizer
  ee_limiter :: limiter
  ee_discovered :: "string + node_inventory"

definition collect_group :: "engine_env \<Rightarrow> int \<Rightarrow> model_group \<Rightarrow> engine_state \<Rightarrow> (model_request \<times> model_data) option \<times> engine_state" where
  "collect_group env now g st =
     (let configMap = live_resolve (ee_config env) (mg_Namespace g) in
      if configMap = [] then (None, st)
      else case mg_data g of
        Inl _ \<Rightarrow> (None, st)
      | Inr None \<Rightarrow> (None, st)
      | Inr (Some data) \<Rightarrow>
          (case collectV2ModelRequest (ee_parseFloat env) (ee_interval env) now (ee_ctxDone env) (ee_entries env)
             (resolveSaturationConfig configMap (mg_ModelID g) (mg_Namespace g)) (md_targets data)
             ((md_input data)\<lparr>in_ModelID := mg_ModelID g, in_Namespace := mg_Namespace g\<rparr>) st of
             (Inl _, st') \<Rightarrow> (None, st')
           | (Inr req, st') \<Rightarrow> (Some (req, data), st')))"

fun collect_groups :: "engine_env \<Rightarrow> int \<Rightarrow> model_group list \<Rightarrow> engine_state \<Rightarrow> (model_request \<times> model_data) list \<times> engine_state" where
  "collect_groups env now [] st = ([], st)"
| "collect_groups env now (g # gs) st =
     (let (r, st1) = collect_group env now g st; (rs, st2) = collect_groups env now gs st1
      in (case r of Some x \<Rightarrow> x # rs | None \<Rightarrow> rs, st2))"

definition optimizer_name :: "optimizer \<Rightarrow> string" where
  "optimizer_name opt = (case opt of CostAwareOptimizer \<Rightarrow> ''cost-aware'' | GreedyByScoreOptimizer \<Rightarrow> ''greedy-by-score'')"

definition run_optimizer :: "nat \<Rightarrow> live_config \<Rightarrow> optimizer \<times> resource_constraints list \<Rightarrow> model_request list \<Rightarrow> variant_decision list option" where
  "run_optimizer rounds c choice requests = (case fst choice of
     CostAwareOptimizer \<Rightarrow> Some (CostAware_Optimize requests)
   | GreedyByScoreOptimizer \<Rightarrow> Greedy_Optimize rounds (resolveRescaleFlags c requests) requests (map Some (snd choice)))"

definition enforce_request :: "engine_env \<Rightarrow> string \<Rightarrow> model_request \<times> model_data \<Rightarrow> variant_decision list \<Rightarrow> variant_decision list" where
  "enforce_request env optimizerName x ds = snd (applyScaleToZeroEnforcement (ee_requestCount env) (ee_env env) (ee_config env)
     (ee_scaleToZero env) (mr_ModelID (fst x)) (mr_Namespace (fst x)) optimizerName (md_templates (snd x))
     (mr_VariantStates (fst x)) ds)"

text \<open>The fair-share optimizer is run for a given number of rounds; \<^const>\<open>None\<close> tells that they did not
  suffice.\<close>

definition optimizeV2 :: "nat \<Rightarrow> engine_env \<Rightarrow> int \<Rightarrow> model_group list \<Rightarrow> engine_state \<Rightarrow> variant_decision list option \<times> engine_state" where
  "optimizeV2 rounds env now groups st =
     (let active = (\<lambda>g. GetNamespacedKey (mg_Namespace g) (mg_ModelID g)) ` set groups;
          st0 = st\<lparr>es_lastGood := pruneLastGoodAnalysis active (es_lastGood st)\<rparr>;
          (collected, st1) = collect_groups env now groups st0;
          requests = map fst collected
      in if requests = [] then (Some [], st1)
         else let choice = selectV2Optimizer (ee_optimizer env) (ee_limiter env) (ee_discovered env) requests
              in (map_option (fold (enforce_request env (optimizer_name (fst choice))) collected)
                    (run_optimizer rounds (ee_config env) choice requests), st1))"

section \<open>The two signals do not contradict each other\<close>

text \<open>What required and spare capacity mean for a scope with the given totals: capacity is required exactly
  when demand exceeds the upper threshold of the anticipated supply, and the required amount brings it
  back to the threshold; capacity is spare exactly when demand is below the lower threshold of the
  supply, and giving it up brings demand to the threshold; never both.\<close>

definition signals_ok :: "gofloat \<Rightarrow> gofloat \<Rightarrow> gofloat \<Rightarrow> gofloat \<Rightarrow> gofloat \<Rightarrow> gofloat \<Rightarrow> gofloat \<Rightarrow> bool" where
  "signals_ok up down demand supply anticipated rc sc \<longleftrightarrow>
     (0 < rc \<longleftrightarrow> up * anticipated < demand) \<and> demand \<le> up * (anticipated + rc) \<and>
     (0 < rc \<longrightarrow> demand = up * (anticipated + rc)) \<and>
     (0 < sc \<longleftrightarrow> demand < down * supply) \<and> (0 < sc \<longrightarrow> demand = down * (supply - sc)) \<and>
     0 \<le> rc \<and> 0 \<le> sc \<and> (rc = 0 \<or> sc = 0)"

lemma signals_ok:
  assumes "0 < down" and "down < up" and "0 \<le> demand" and "supply \<le> anticipated"
  shows "signals_ok up down demand supply anticipated (required_signal up demand anticipated) (spare_signal down demand supply)"
proof -
  have up: "0 < up" using assms by simp
  have "demand / up \<le> demand / down" using assms by (intro divide_left_mono) auto
  then have "\<not> (anticipated < demand / up \<and> demand / down < supply)" using assms(4) by linarith
  then show ?thesis using up assms
    by (auto simp: signals_ok_def required_signal_def spare_signal_def Let_def field_simps)
qed

definition scopes_ok :: "analyzer_result \<Rightarrow> bool" where
  "scopes_ok r \<longleftrightarrow> 0 \<le> ar_TotalDemand r \<and> ar_TotalSupply r \<le> ar_TotalAnticipatedSupply r \<and>
     (\<forall>m role c. ar_RoleCapacities r = Some m \<and> map_of m role = Some c \<longrightarrow>
        0 \<le> rc_TotalDemand c \<and> rc_TotalSupply c \<le> rc_TotalAnticipatedSupply c)"



section \<open>Usage by namespace adds up\<close>

lemma fold_madd_shift:
  "mget 0 (fold (\<lambda>x. madd (f x) (g x)) xs u) t = mget 0 u t + mget 0 (fold (\<lambda>x. madd (f x) (g x)) xs []) t"
proof (induction xs arbitrary: u)
  case (Cons x xs)
  note a = Cons [of "madd (f x) (g x) u"] and b = Cons [of "madd (f x) (g x) []"]
  show ?case unfolding fold_simps a b mget_madd mget_Nil by simp
qed simp

lemma usage_of_request_shift: "mget 0 (usage_of_request req u) t = mget 0 u t + mget 0 (usage_of_request req []) t"
proof (cases "sat_carrier req")
  case (Some r)
  show ?thesis unfolding usage_of_request_def Some option.case Let_def by (rule fold_madd_shift)
qed (simp add: usage_of_request_def)

lemma usage_fold:
  fixes requests
  defines "all \<equiv> \<lambda>t. (\<Sum>req\<leftarrow>requests. mget 0 (usage_of_request req []) t)"
  shows "mget 0 (fold usage_of_request requests u) t = mget 0 u t + all t"
  unfolding all_def
proof (induction requests arbitrary: u)
  case (Cons req reqs)
  show ?case unfolding fold_simps Cons [of "usage_of_request req u"] usage_of_request_shift [of req u t] by simp
qed simp

lemma usage_by_ns_fold:
  assumes "wf_map u"
  shows "wf_map (fold (\<lambda>req usage. mput (mr_Namespace req) (usage_of_request req (mget [] usage (mr_Namespace req))) usage) requests u) \<and>
    (\<Sum>(_, m)\<leftarrow>fold (\<lambda>req usage. mput (mr_Namespace req) (usage_of_request req (mget [] usage (mr_Namespace req))) usage) requests u. mget 0 m t) =
      (\<Sum>(_, m)\<leftarrow>u. mget 0 m t) + (\<Sum>req\<leftarrow>requests. mget 0 (usage_of_request req []) t) \<and>
    set (mkeys (fold (\<lambda>req usage. mput (mr_Namespace req) (usage_of_request req (mget [] usage (mr_Namespace req))) usage) requests u)) =
      set (mkeys u) \<union> mr_Namespace ` set requests"
  using assms
proof (induction requests arbitrary: u)
  case (Cons req reqs)
  let ?u = "mput (mr_Namespace req) (usage_of_request req (mget [] u (mr_Namespace req))) u"
  have "(\<Sum>(_, m)\<leftarrow>?u. mget 0 m t) = (\<Sum>(_, m)\<leftarrow>u. mget 0 m t) + mget 0 (usage_of_request req []) t"
    using sum_mput [OF Cons.prems, of "\<lambda>m. mget 0 m t" "[]"] usage_of_request_shift [of req "mget [] u (mr_Namespace req)" t] by simp
  moreover have "set (mkeys ?u) = insert (mr_Namespace req) (set (mkeys u))" by (rule set_mkeys_mput)
  ultimately show ?case using Cons.IH [of ?u] Cons.prems by simp
qed simp

text \<open>The two views of GPU usage handed to the constraint providers agree: for every accelerator type the
  usage over all namespaces adds up to the usage of the cluster, and every namespace that has a model
  appears, also one that uses nothing, so that its quota is materialised.\<close>

theorem usage_views_agree:
  "mget 0 (computeCurrentGPUUsage requests) t = (\<Sum>(_, m)\<leftarrow>computeCurrentGPUUsageByNamespace requests. mget 0 m t) \<and>
   set (mkeys (computeCurrentGPUUsageByNamespace requests)) = mr_Namespace ` set requests"
  using usage_fold [of requests "[]" t] usage_by_ns_fold [of "[]" requests t]
  by (simp add: computeCurrentGPUUsage_def computeCurrentGPUUsageByNamespace_def)

section \<open>Liveness follows the last informative report\<close>

definition stamp :: "int \<Rightarrow> stamped \<Rightarrow> int" where
  "stamp now e = (if snd e = 0 then now else snd e)"

definition reports :: "string \<Rightarrow> int \<times> stamped list \<Rightarrow> int list" where
  "reports name c = map (stamp (fst c)) (filter (\<lambda>e. nr_Name (fst e) = name \<and> ResultIsInformative (fst e)) (snd c))"

text \<open>The time stamp of the latest informative report of an analyzer in a sequence of cycles.\<close>

definition last_report :: "string \<Rightarrow> (int \<times> stamped list) list \<Rightarrow> int option" where
  "last_report name cycles =
     (let xs = concat (map (reports name) cycles) in if xs = [] then None else Some (last xs))"

definition run_cycles :: "int option \<Rightarrow> string \<Rightarrow> string \<Rightarrow> (int \<times> stamped list) list \<Rightarrow> last_good" where
  "run_cycles interval namespace modelID cycles =
     fold (\<lambda>c lg. snd (updateLivenessAndSetLive interval (fst c) namespace modelID (snd c) lg)) cycles []"

lemma mark_all_stamps:
  "map_of (snd (mark_all now th es p)) name = (if reports name (now, es) = [] then map_of p name else Some (last (reports name (now, es))))"
proof (induction es arbitrary: p)
  case (Cons e es)
  have m: "map_of (snd (mark_live now th e p)) name =
      (if nr_Name (fst e) = name \<and> ResultIsInformative (fst e) then Some (stamp now e) else map_of p name)"
    by (simp add: mark_live_def Let_def stamp_def update_conv)
  have r: "reports name (now, e # es) =
      (if nr_Name (fst e) = name \<and> ResultIsInformative (fst e) then [stamp now e] else []) @ reports name (now, es)"
    by (simp add: reports_def)
  show ?case using Cons [of "snd (mark_live now th e p)"] m r by (simp add: case_prod_beta)
qed (simp add: reports_def)

lemma mark_all_live:
  "i < length es \<Longrightarrow> nr_Live (fst (mark_all now th es p) ! i) =
     (case map_of (snd (mark_all now th (take (Suc i) es) p)) (nr_Name (fst (es ! i))) of Some t \<Rightarrow> now - t \<le> th | None \<Rightarrow> False)"
proof (induction es arbitrary: p i)
  case (Cons e es)
  show ?case
  proof (cases i)
    case 0
    then show ?thesis by (simp add: case_prod_beta) (simp add: mark_live_def Let_def)
  next
    case (Suc j)
    then show ?thesis using Cons.IH [of j "snd (mark_live now th e p)"] Cons.prems by (simp add: case_prod_beta)
  qed
qed simp

lemma detect_keeps_stamps:
  "name \<noteq> ThroughputAnalyzerName @ demandLatchSuffix \<Longrightarrow> map_of (snd (detectDemandLiveness now th es p)) name = map_of p name"
  by (auto simp: detectDemandLiveness_def Let_def update_conv split: option.split)

lemma last_report_snoc:
  "last_report name (cs @ [c]) = (if reports name c = [] then last_report name cs else Some (last (reports name c)))"
  by (simp add: last_report_def Let_def)

lemma run_cycles_stamps:
  assumes "name \<noteq> ThroughputAnalyzerName @ demandLatchSuffix"
  shows "map_of (mget [] (run_cycles interval ns m cycles) (GetNamespacedKey ns m)) name = last_report name cycles"
proof (induction cycles rule: rev_induct)
  case (snoc c cs)
  let ?lg = "run_cycles interval ns m cs"
  have "mget [] (run_cycles interval ns m (cs @ [c])) (GetNamespacedKey ns m) =
      snd (detectDemandLiveness (fst c) (liveness_threshold interval) (snd c)
        (snd (mark_all (fst c) (liveness_threshold interval) (snd c) (mget [] ?lg (GetNamespacedKey ns m)))))"
    by (simp add: run_cycles_def updateLivenessAndSetLive_def Let_def case_prod_beta)
  then show ?case using snoc detect_keeps_stamps [OF assms] mark_all_stamps [of "fst c" _ "snd c" _ name]
    by (simp add: last_report_snoc)
qed (simp add: run_cycles_def last_report_def)

text \<open>C17. Over any sequence of cycles an analyzer is live exactly when its latest informative report, of
  this or an earlier cycle, is no older than three optimization intervals; a report without a time
  stamp counts as current, and the latch kept for the missing-demand warning never makes or unmakes an
  analyzer live.\<close>

theorem liveness_follows_last_report:
  assumes "i < length es" and "nr_Name (fst (es ! i)) \<noteq> ThroughputAnalyzerName @ demandLatchSuffix"
  shows "nr_Live (fst (updateLivenessAndSetLive interval now ns m es (run_cycles interval ns m cycles)) ! i) =
    (case last_report (nr_Name (fst (es ! i))) (cycles @ [(now, take (Suc i) es)]) of
       Some t \<Rightarrow> now - t \<le> liveness_threshold interval | None \<Rightarrow> False)"
proof -
  let ?p = "mget [] (run_cycles interval ns m cycles) (GetNamespacedKey ns m)"
  have "map_of (snd (mark_all now (liveness_threshold interval) (take (Suc i) es) ?p)) (nr_Name (fst (es ! i))) =
      last_report (nr_Name (fst (es ! i))) (cycles @ [(now, take (Suc i) es)])"
    by (simp add: mark_all_stamps run_cycles_stamps [OF assms(2)] last_report_snoc)
  then show ?thesis using mark_all_live [OF assms(1), of now "liveness_threshold interval" ?p]
    by (simp add: updateLivenessAndSetLive_def Let_def case_prod_beta)
qed

lemma liveness_follows_last_report_witness:
  "nr_Live (fst (updateLivenessAndSetLive None 7 ''ns'' ''m'' [(example_vote 1 0, 0)] (run_cycles None ''ns'' ''m'' [])) ! 0)"
proof -
  have n: "nr_Name (example_vote 1 0) \<noteq> ThroughputAnalyzerName @ demandLatchSuffix"
    by (simp add: example_vote_def SaturationAnalyzerName_def ThroughputAnalyzerName_def demandLatchSuffix_def)
  have "last_report (nr_Name (example_vote 1 0)) [(7, [(example_vote 1 0, 0)])] = Some 7"
    using example_informative by (simp add: last_report_def reports_def stamp_def)
  then show ?thesis using liveness_follows_last_report [of 0 "[(example_vote 1 0, 0)]" None 7 "''ns''" "''m''" "[]"] n
    by (simp add: liveness_threshold_def analyzerLivenessStaleCycles_def time_Second_def)
qed

end
