(* ===== verification/V2_Cycle.thy ===== *)
theory V2_Cycle
  imports Engine_V2
begin

text \<open>
  Properties of a whole cycle of the token-based path, in which the analyzer, the threshold step, the
  optimizer and the enforcer work together: the ballot built for a model, the bounds every decision
  keeps, and the utilization after a scale-up.
\<close>

section \<open>The ballot of a model\<close>

text \<open>Marking liveness touches nothing but the flag.\<close>

lemma mark_all_frame:
  "length (fst (mark_all now th es p)) = length es"
  "i < length es \<Longrightarrow> \<exists>b. fst (mark_all now th es p) ! i = (fst (es ! i))\<lparr>nr_Live := b\<rparr>"
proof (induction es arbitrary: p i)
  case (Cons e es)
  case 1
  then show ?case using Cons.IH(1) by (simp add: case_prod_beta)
next
  case (Cons e es)
  case 2
  then show ?case using Cons.IH(2) [of "i - 1" "snd (mark_live now th e p)"]
    by (cases i) (auto simp: case_prod_beta mark_live_def Let_def)
qed simp_all

lemma ballot_of_request:
  assumes "fst (collectV2ModelRequest pf interval now ctx_done entries cfg targets inp st) = Inr req"
  obtains base rest b where
    "fst (runV2AnalysisOnly pf now ctx_done targets (inp\<lparr>in_Config := Some cfg\<rparr>) (es_sat st)) = Inr base"
    and "mr_AnalyzerResults req = (name_result SaturationAnalyzerName cfg (sat_votes cfg) base)\<lparr>nr_Live := b\<rparr> # rest"
    and "length rest = length (List.map_filter (registered_result cfg (inp\<lparr>in_Config := Some cfg\<rparr>)) entries)"
    and "mr_VariantStates req = in_VariantStates inp" and "mr_ModelID req = in_ModelID inp" and "mr_Namespace req = in_Namespace inp"
proof -
  let ?inp = "inp\<lparr>in_Config := Some cfg\<rparr>"
  obtain base sat' where base: "runV2AnalysisOnly pf now ctx_done targets ?inp (es_sat st) = (Inr base, sat')"
    using assms by (auto simp: collectV2ModelRequest_def runAnalyzersAndScore_def Let_def split: prod.splits sum.splits)
  define es where "es = (name_result SaturationAnalyzerName cfg (sat_votes cfg) base, now) # List.map_filter (registered_result cfg ?inp) entries"
  define nrs where "nrs = fst (mark_all now (liveness_threshold interval) es
    (mget [] (es_lastGood st) (GetNamespacedKey (in_Namespace inp) (in_ModelID inp))))"
  have req: "mr_AnalyzerResults req = nrs" "mr_VariantStates req = in_VariantStates inp" "mr_ModelID req = in_ModelID inp"
    "mr_Namespace req = in_Namespace inp"
    using assms base unfolding nrs_def es_def
    by (auto simp: collectV2ModelRequest_def runAnalyzersAndScore_def updateLivenessAndSetLive_def Let_def case_prod_beta)
  have len: "length nrs = length es" unfolding nrs_def by (rule mark_all_frame)
  then obtain nr rest where n: "nrs = nr # rest" by (cases nrs) (auto simp: es_def)
  have "\<exists>b. nrs ! 0 = (fst (es ! 0))\<lparr>nr_Live := b\<rparr>" unfolding nrs_def by (rule mark_all_frame) (simp add: es_def)
  then obtain b where "nrs ! 0 = (fst (es ! 0))\<lparr>nr_Live := b\<rparr>" by blast
  then have "nr = (name_result SaturationAnalyzerName cfg (sat_votes cfg) base)\<lparr>nr_Live := b\<rparr>"
    unfolding n es_def nth_Cons_0 fst_conv .
  then have ballot: "mr_AnalyzerResults req = (name_result SaturationAnalyzerName cfg (sat_votes cfg) base)\<lparr>nr_Live := b\<rparr> # rest"
    unfolding req(1) n by (rule arg_cong)
  have "length rest = length (List.map_filter (registered_result cfg ?inp) entries)" using len n by (simp add: es_def)
  from that [OF _ ballot this req(2-4)] show ?thesis by (simp only: base fst_conv)
qed

lemma name_result_fields:
  "nr_Name (name_result name cfg en r) = name"
  "nr_Result (name_result name cfg en r) = Some (applyUniversalThreshold r (fst (resolveThresholds name cfg)) (snd (resolveThresholds name cfg)))"
  "nr_Enabled (name_result name cfg en r) = en"
  "nr_Remaining (name_result name cfg en r) = ar_RequiredCapacity (applyUniversalThreshold r (fst (resolveThresholds name cfg)) (snd (resolveThresholds name cfg)))"
  by (simp_all add: name_result_def Let_def case_prod_beta)

lemma threshold_keeps_variants [simp]: "ar_VariantCapacities (applyUniversalThreshold r up down) = ar_VariantCapacities r"
  by (simp add: applyUniversalThreshold_def)

lemma analysis_names:
  assumes "fst (runV2AnalysisOnly pf now ctx_done targets inp st) = Inr r"
  shows "names (ar_VariantCapacities r) = map st_VariantName (in_VariantStates inp)"
  using assms unfolding runV2AnalysisOnly_def
  by (elim sat_Analyze_ok) (simp add: build_result_fields aggregateByVariant_def variant_of_def Let_def case_prod_beta comp_def)

text \<open>Whatever analyzer binds, the anchor of a collected request lists the variants of the model.\<close>

lemma request_anchor_names:
  assumes "fst (collectV2ModelRequest pf interval now ctx_done entries cfg targets inp st) = Inr req"
    and "bindingAnchor (mr_AnalyzerResults req) = Some a"
  shows "names (ar_VariantCapacities a) = map st_VariantName (mr_VariantStates req)"
proof (rule ballot_of_request [OF assms(1)])
  fix base :: analyzer_result and rest b
  assume run: "fst (runV2AnalysisOnly pf now ctx_done targets (inp\<lparr>in_Config := Some cfg\<rparr>) (es_sat st)) = Inr base"
    and ballot: "mr_AnalyzerResults req = (name_result SaturationAnalyzerName cfg (sat_votes cfg) base)\<lparr>nr_Live := b\<rparr> # rest"
    and states: "mr_VariantStates req = in_VariantStates inp"
  let ?sat = "(name_result SaturationAnalyzerName cfg (sat_votes cfg) base)\<lparr>nr_Live := b\<rparr>"
  have sat: "find_saturation (mr_AnalyzerResults req) = Some ?sat"
    by (simp add: ballot find_saturation_def name_result_fields)
  have "map topology (ar_VariantCapacities a) = map topology (ar_VariantCapacities base)"
    using anchor_extends_saturation [OF assms(2) sat] by (simp add: name_result_fields)
  then have "map (fst \<circ> topology) (ar_VariantCapacities a) = map (fst \<circ> topology) (ar_VariantCapacities base)"
    unfolding map_map [symmetric] by (rule arg_cong)
  then show ?thesis using analysis_names [OF run] by (simp add: states topology_def comp_def)
qed
section \<open>Enforcement keeps the bounds\<close>

definition free_minimum :: "variant_decision \<Rightarrow> bool" where
  "free_minimum d \<longleftrightarrow> (case d_MinReplicas d of Some k \<Rightarrow> k \<le> 0 | None \<Rightarrow> True)"

text \<open>What enforcement never changes about a decision.\<close>

definition same_variant :: "variant_decision \<Rightarrow> variant_decision \<Rightarrow> bool" where
  "same_variant d d' \<longleftrightarrow> d_VariantName d' = d_VariantName d \<and> d_ModelID d' = d_ModelID d \<and> d_Namespace d' = d_Namespace d \<and>
     d_MinReplicas d' = d_MinReplicas d \<and> d_MaxReplicas d' = d_MaxReplicas d \<and> d_CurrentReplicas d' = d_CurrentReplicas d"

lemma same_variant_refl [simp]: "same_variant d d"
  by (simp add: same_variant_def)

lemma retarget:
  assumes "free_minimum d" and "t = 0 \<or> t = 1"
  shows "decision_in_bounds (updateDecisionAction opt (d\<lparr>d_TargetReplicas := t\<rparr>))"
    and "same_variant d (updateDecisionAction opt (d\<lparr>d_TargetReplicas := t\<rparr>))"
  using assms
  by (auto simp: decision_in_bounds_def free_minimum_def same_variant_def updateDecisionAction_def SetDecisionReason_def
      Let_def split: option.splits)

lemma cheapest_of_model: "cheapest m ns ds = Some (i, c) \<Longrightarrow> i < length ds \<and> of_model m ns (ds ! i)"
proof -
  have "case fold (cheaper_step m ns ds) is None of None \<Rightarrow> True | Some (i, _) \<Rightarrow> i \<in> set is \<and> of_model m ns (ds ! i)" for "is"
    by (induction "is" rule: rev_induct) (auto simp: cheaper_step_def Let_def split: option.splits prod.splits if_splits)
  from this [of "[0..<length ds]"] show "cheapest m ns ds = Some (i, c) \<Longrightarrow> i < length ds \<and> of_model m ns (ds ! i)"
    by (simp add: cheapest_def)
qed

lemma enforce_step:
  assumes "\<forall>d\<in>set ds. decision_in_bounds d" and "\<forall>d\<in>set ds. of_model m ns d \<longrightarrow> free_minimum d"
    and "d' \<in> set (snd (EnforcePolicyOnDecisions rc env m ns cd sat opt ds))"
  shows "decision_in_bounds d' \<and> (\<exists>d\<in>set ds. same_variant d d')"
proof -
  let ?out = "snd (EnforcePolicyOnDecisions rc env m ns cd sat opt ds)"
  have "?out = ds \<or> ?out = map (\<lambda>d. if of_model m ns d then updateDecisionAction opt (d\<lparr>d_TargetReplicas := 0\<rparr>) else d) ds \<or>
      (\<exists>i<length ds. of_model m ns (ds ! i) \<and> ?out = ds[i := updateDecisionAction opt ((ds ! i)\<lparr>d_TargetReplicas := 1\<rparr>)])"
    using cheapest_of_model [of m ns ds]
    by (auto simp: EnforcePolicyOnDecisions_def applyScaleToZeroOnDecisions_def ensureMinimumReplicasOnDecisions_def
        split: sum.split option.split)
  then consider (same) "d' \<in> set ds" | (zero) d where "d \<in> set ds" "of_model m ns d" "d' = updateDecisionAction opt (d\<lparr>d_TargetReplicas := 0\<rparr>)"
    | (one) d where "d \<in> set ds" "of_model m ns d" "d' = updateDecisionAction opt (d\<lparr>d_TargetReplicas := 1\<rparr>)"
  proof (elim disjE exE conjE)
    fix i assume "i < length ds" "of_model m ns (ds ! i)" "?out = ds[i := updateDecisionAction opt ((ds ! i)\<lparr>d_TargetReplicas := 1\<rparr>)]"
    then have "d' = updateDecisionAction opt ((ds ! i)\<lparr>d_TargetReplicas := 1\<rparr>) \<or> d' \<in> set ds"
      using assms(3) set_update_subset_insert by fastforce
    then show ?thesis using \<open>i < length ds\<close> \<open>of_model m ns (ds ! i)\<close> same one [of "ds ! i"] nth_mem by blast
  qed (use assms(3) same zero in \<open>auto split: if_splits\<close>)
  then show ?thesis
  proof cases
    case same
    then show ?thesis using assms(1) same_variant_refl by blast
  qed (use assms(2) retarget in blast)+
qed

section \<open>Every decision of a cycle is within bounds\<close>

text \<open>A decision is for a variant that has a state, and carries the replica count and the bounds of it.\<close>

definition of_state :: "variant_replica_state list \<Rightarrow> variant_decision \<Rightarrow> bool" where
  "of_state states d \<longleftrightarrow> d_VariantName d \<in> st_VariantName ` set states \<and> (let s = mget zero_state (buildStateMap states) (d_VariantName d) in
     d_CurrentReplicas d = st_CurrentReplicas s \<and> d_MinReplicas d = st_MinReplicas s \<and> d_MaxReplicas d = st_MaxReplicas s)"

text \<open>The decisions in flight: within bounds, each for a variant of a collected model, and with no positive
  minimum unless the model has one.\<close>

definition cycle_ok :: "(model_request \<times> model_data) list \<Rightarrow> variant_decision list \<Rightarrow> bool" where
  "cycle_ok collected ds \<longleftrightarrow> (\<forall>d\<in>set ds. decision_in_bounds d \<and>
     (\<exists>x\<in>set collected. of_model (mr_ModelID (fst x)) (mr_Namespace (fst x)) d \<and> of_state (mr_VariantStates (fst x)) d) \<and>
     (\<forall>x\<in>set collected. of_model (mr_ModelID (fst x)) (mr_Namespace (fst x)) d \<and>
        \<not> hasMinReplicasAboveZero (mr_VariantStates (fst x)) \<longrightarrow> free_minimum d))"

lemma enforce_request_ok:
  assumes "cycle_ok collected ds" and "x \<in> set collected"
  shows "cycle_ok collected (enforce_request env opt x ds)"
proof (cases "hasMinReplicasAboveZero (mr_VariantStates (fst x))")
  case True
  then have "enforce_request env opt x ds = ds" by (simp add: enforce_request_def applyScaleToZeroEnforcement_def)
  then show ?thesis using assms(1) by (simp only:)
next
  case False
  show ?thesis unfolding cycle_ok_def
  proof (intro ballI)
    fix d' assume d': "d' \<in> set (enforce_request env opt x ds)"
    show "decision_in_bounds d' \<and>
      (\<exists>y\<in>set collected. of_model (mr_ModelID (fst y)) (mr_Namespace (fst y)) d' \<and> of_state (mr_VariantStates (fst y)) d') \<and>
      (\<forall>y\<in>set collected. of_model (mr_ModelID (fst y)) (mr_Namespace (fst y)) d' \<and>
        \<not> hasMinReplicasAboveZero (mr_VariantStates (fst y)) \<longrightarrow> free_minimum d')"
    proof (cases "d' \<in> set ds")
      case True
      then show ?thesis using assms(1) by (simp add: cycle_ok_def)
    next
      case new: False
      have within: "\<forall>d\<in>set ds. decision_in_bounds d"
        and free: "\<forall>d\<in>set ds. of_model (mr_ModelID (fst x)) (mr_Namespace (fst x)) d \<longrightarrow> free_minimum d"
        using assms False by (auto simp: cycle_ok_def)
      have "decision_in_bounds d' \<and> (\<exists>d\<in>set ds. same_variant d d')"
        by (rule enforce_step [OF within free])
          (use d' new in \<open>auto simp: enforce_request_def applyScaleToZeroEnforcement_def split: if_splits\<close>)
      then obtain d where d: "decision_in_bounds d'" "d \<in> set ds" "same_variant d d'" by blast
      have "of_model m ns d' = of_model m ns d" "free_minimum d' = free_minimum d" "of_state states d' = of_state states d" for m ns states
        using d(3) by (simp_all add: same_variant_def of_model_def free_minimum_def of_state_def)
      then show ?thesis using assms(1) d(1,2) by (simp add: cycle_ok_def)
    qed
  qed
qed

lemma enforce_all_ok:
  "cycle_ok collected ds \<Longrightarrow> set xs \<subseteq> set collected \<Longrightarrow> cycle_ok collected (fold (enforce_request env opt) xs ds)"
  by (induction xs arbitrary: ds) (auto intro: enforce_request_ok)

lemma state_map_values: "\<forall>x\<in>snd ` set (buildStateMap states). x \<in> set states"
proof -
  have "\<forall>x\<in>snd ` set m. x \<in> S \<Longrightarrow> set states \<subseteq> S \<Longrightarrow> \<forall>x\<in>snd ` set (fold (\<lambda>s. mput (st_VariantName s) s) states m). x \<in> S" for m S
  proof (induction states arbitrary: m)
    case (Cons s ss)
    then have "\<forall>x\<in>snd ` set (mput (st_VariantName s) s m). x \<in> S" by (intro ball_mput) auto
    then show ?case using Cons.IH Cons.prems(2) by simp
  qed simp
  from this [of "[]" "set states"] show ?thesis by (simp add: buildStateMap_def)
qed

lemma state_minimum:
  assumes "\<not> hasMinReplicasAboveZero states" and "st_MinReplicas (mget zero_state (buildStateMap states) v) = Some k"
  shows "k \<le> 0"
proof -
  have "mget zero_state (buildStateMap states) v \<in> set states"
    using mget_cases [of zero_state "buildStateMap states" v] state_map_values [of states] assms(2) by (auto simp: zero_state_def)
  then show ?thesis using assms by (force simp: hasMinReplicasAboveZero_def list_ex_iff)
qed

text \<open>What collection establishes of each collected model.\<close>

lemma collect_group_request:
  assumes "fst (collect_group env now g st) = Some (req, data)"
  shows "mg_data g = Inr (Some data)" and "mr_ModelID req = mg_ModelID g" and "mr_Namespace req = mg_Namespace g"
    and "mr_VariantStates req = in_VariantStates (md_input data)"
    and "bindingAnchor (mr_AnalyzerResults req) = Some a \<Longrightarrow> names (ar_VariantCapacities a) = map st_VariantName (mr_VariantStates req)"
proof -
  let ?run = "\<lambda>data. collectV2ModelRequest (ee_parseFloat env) (ee_interval env) now (ee_ctxDone env) (ee_entries env)
    (resolveSaturationConfig (live_resolve (ee_config env) (mg_Namespace g)) (mg_ModelID g) (mg_Namespace g)) (md_targets data)
    ((md_input data)\<lparr>in_ModelID := mg_ModelID g, in_Namespace := mg_Namespace g\<rparr>) st"
  have data: "mg_data g = Inr (Some data)" and run: "fst (?run data) = Inr req"
    using assms by (auto simp: collect_group_def Let_def split: if_splits sum.splits option.splits prod.splits)
  show "mg_data g = Inr (Some data)" by (rule data)
  show "mr_ModelID req = mg_ModelID g" "mr_Namespace req = mg_Namespace g" "mr_VariantStates req = in_VariantStates (md_input data)"
    by (rule ballot_of_request [OF run], simp)+
  show "names (ar_VariantCapacities a) = map st_VariantName (mr_VariantStates req)"
    if "bindingAnchor (mr_AnalyzerResults req) = Some a"
    by (rule request_anchor_names [OF run that])
qed

lemma collect_groups_member:
  "x \<in> set (fst (collect_groups env now groups st)) \<Longrightarrow> \<exists>g\<in>set groups. \<exists>st'. fst (collect_group env now g st') = Some x"
proof (induction groups arbitrary: st)
  case (Cons g gs)
  let ?st = "snd (collect_group env now g st)"
  from Cons.prems have "fst (collect_group env now g st) = Some x \<or> x \<in> set (fst (collect_groups env now gs ?st))"
    by (auto simp: case_prod_beta Let_def split: option.splits)
  then show ?case using Cons.IH [of ?st] by auto
qed simp

lemma collect_groups_keys:
  assumes "distinct (map (\<lambda>g. (mg_ModelID g, mg_Namespace g)) groups)" and "x \<in> set (fst (collect_groups env now groups st))"
    and "y \<in> set (fst (collect_groups env now groups st))" and "mr_ModelID (fst x) = mr_ModelID (fst y)"
    and "mr_Namespace (fst x) = mr_Namespace (fst y)"
  shows "mr_VariantStates (fst x) = mr_VariantStates (fst y)"
proof -
  obtain g h st1 st2 where g: "g \<in> set groups" "fst (collect_group env now g st1) = Some (fst x, snd x)"
    and h: "h \<in> set groups" "fst (collect_group env now h st2) = Some (fst y, snd y)"
    using collect_groups_member [OF assms(2)] collect_groups_member [OF assms(3)] by auto
  have "(mg_ModelID g, mg_Namespace g) = (mg_ModelID h, mg_Namespace h)"
    using assms(4,5) collect_group_request(2,3) [OF g(2)] collect_group_request(2,3) [OF h(2)] by simp
  then have "g = h" using assms(1) g(1) h(1) by (meson inj_onD distinct_map)
  then show ?thesis using collect_group_request(1,4) [OF g(2)] collect_group_request(1,4) [OF h(2)] by simp
qed

text \<open>Targets exist only for variants of the model.\<close>

lemma commit_fold_keys:
  "list_all (serves vcs) cs \<Longrightarrow>
   set (mkeys (as_targets (fold (commit_role vcs sm) cs st))) \<subseteq> set (mkeys (as_targets st)) \<union> set (names vcs)"
proof (induction cs arbitrary: st)
  case (Cons c cs)
  obtain role w n k where c: "c = ((role, w, n), k)" by (metis prod.exhaust)
  have "set (mkeys (as_targets (commit_role vcs sm c st))) = insert w (set (mkeys (as_targets st)))"
    by (simp add: c commit_role_def madd_def set_mkeys_mput del: set_map)
  moreover have "w \<in> set (names vcs)" using Cons.prems by (auto simp: serves_def c)
  ultimately show ?case using Cons.IH [of "commit_role vcs sm c st"] Cons.prems by auto
qed simp

lemma cost_aware_targets_keys:
  assumes "distinct (names (ar_VariantCapacities anchor))"
  shows "set (mkeys (cost_aware_targets req anchor)) \<subseteq> st_VariantName ` set (mr_VariantStates req) \<union> set (names (ar_VariantCapacities anchor))"
proof -
  let ?vcs = "ar_VariantCapacities anchor" and ?st = "start_state req None" and ?sm = "buildStateMap (mr_VariantStates req)"
  let ?K = "st_VariantName ` set (mr_VariantStates req) \<union> set (names ?vcs)"
  have "set (mkeys (fold (\<lambda>s. mput (st_VariantName s) (st_CurrentReplicas s)) ss m)) = set (mkeys m) \<union> st_VariantName ` set ss" for ss m
    by (induction ss arbitrary: m) (auto simp: set_mkeys_mput simp del: set_map)
  from this [of "mr_VariantStates req" "[]"]
  have init: "set (mkeys (initTargets (mr_VariantStates req))) \<subseteq> ?K" by (auto simp: initTargets_def)
  have "set (mkeys (as_targets (allocateForModelPaired costGreedyRolePick ?vcs ?sm (request_roles req) ?st))) \<subseteq> ?K"
  proof (rule paired_invariant [where I = "\<lambda>st. set (mkeys (as_targets st)) \<subseteq> ?K"])
    fix st st' assume st: "set (mkeys (as_targets st)) \<subseteq> ?K" and "paired_step costGreedyRolePick ?vcs ?sm (request_roles req) st = Some st'"
    then obtain cs where "list_all (serves ?vcs) cs" "as_targets st' = as_targets (fold (commit_role ?vcs ?sm) cs st)"
      using cost_pick.step_commits [OF _ distinct_request_roles assms] by metis
    then show "set (mkeys (as_targets st')) \<subseteq> ?K" using commit_fold_keys [of ?vcs cs ?sm st] st by auto
  qed (use init in simp)
  moreover have "case scaleDownRoleIterated (as_ballot ?st) ?vcs (initTargets (mr_VariantStates req)) (Some ?sm) of (tg, s) \<Rightarrow> set (mkeys tg) \<subseteq> ?K"
    by (rule scale_down_invariant [where I = "\<lambda>tg s. set (mkeys tg) \<subseteq> ?K"]) (rule init, unfold set_mkeys_mput, auto)
  ultimately show ?thesis by (auto simp: cost_aware_targets_def scale_down_targets_def Let_def case_prod_unfold simp del: set_map)
qed

lemma cost_aware_decision_name:
  assumes "anchor_distinct req" and "d \<in> set (cost_aware_model req)"
    and "\<And>a. bindingAnchor (mr_AnalyzerResults req) = Some a \<Longrightarrow> names (ar_VariantCapacities a) = map st_VariantName (mr_VariantStates req)"
  shows "d_VariantName d \<in> st_VariantName ` set (mr_VariantStates req)"
proof -
  obtain anchor p where anchor: "bindingAnchor (mr_AnalyzerResults req) = Some anchor" and p: "p \<in> set (cost_aware_targets req anchor)"
    and "d_VariantName d = fst p"
    using assms(2) by (cases "bindingAnchor (mr_AnalyzerResults req)") (auto simp: cost_aware_model_def buildDecisionsWithOptimizer_def)
  moreover have "distinct (names (ar_VariantCapacities anchor))" using assms(1) anchor by (simp add: anchor_distinct_def)
  ultimately show ?thesis using cost_aware_targets_keys [of anchor req] assms(3) [OF anchor] by force
qed

lemma cost_aware_cycle_ok:
  fixes env now st
  assumes "distinct (map (\<lambda>g. (mg_ModelID g, mg_Namespace g)) groups)"
    and "\<forall>g\<in>set groups. \<forall>data. mg_data g = Inr (Some data) \<longrightarrow> distinct (map st_VariantName (in_VariantStates (md_input data)))"
  defines "collected \<equiv> fst (collect_groups env now groups st)"
  shows "cycle_ok collected (CostAware_Optimize (map fst collected))"
  unfolding cycle_ok_def
proof
  fix d assume "d \<in> set (CostAware_Optimize (map fst collected))"
  then obtain x where x: "x \<in> set collected" "d \<in> set (cost_aware_model (fst x))" by (auto simp: CostAware_Optimize_def)
  obtain g st' where g: "g \<in> set groups" "fst (collect_group env now g st') = Some (fst x, snd x)"
    using collect_groups_member [OF x(1) [unfolded collected_def]] by auto
  have "distinct (map st_VariantName (mr_VariantStates (fst x)))"
    using assms(2) g(1) collect_group_request(1,4) [OF g(2)] by simp
  then have "anchor_distinct (fst x)"
    using collect_group_request(5) [OF g(2)] by (auto simp: anchor_distinct_def split: option.split)
  from this x(2) obtain cm p
    where d: "d = build_decision (fst x) (buildStateMap (mr_VariantStates (fst x))) cm ''cost-aware'' p" "decision_in_bounds d"
    by (rule cost_aware_model_decision)
  have "free_minimum d" if y: "y \<in> set collected" and of: "of_model (mr_ModelID (fst y)) (mr_Namespace (fst y)) d"
    and free: "\<not> hasMinReplicasAboveZero (mr_VariantStates (fst y))" for y
  proof -
    have "mr_ModelID (fst x) = mr_ModelID (fst y)" "mr_Namespace (fst x) = mr_Namespace (fst y)"
      using of by (simp_all add: d(1) of_model_def)
    then have "\<not> hasMinReplicasAboveZero (mr_VariantStates (fst x))"
      using collect_groups_keys [OF assms(1)] x(1) y free unfolding collected_def by metis
    from state_minimum [OF this] show ?thesis by (simp add: d(1) free_minimum_def split: option.split)
  qed
  moreover have "of_model (mr_ModelID (fst x)) (mr_Namespace (fst x)) d \<and> of_state (mr_VariantStates (fst x)) d"
    using cost_aware_decision_name [OF \<open>anchor_distinct (fst x)\<close> x(2) collect_group_request(5) [OF g(2)]]
    by (simp add: d(1) of_model_def of_state_def Let_def)
  ultimately show "decision_in_bounds d \<and>
      (\<exists>x\<in>set collected. of_model (mr_ModelID (fst x)) (mr_Namespace (fst x)) d \<and> of_state (mr_VariantStates (fst x)) d) \<and>
      (\<forall>x\<in>set collected. of_model (mr_ModelID (fst x)) (mr_Namespace (fst x)) d \<and>
      \<not> hasMinReplicasAboveZero (mr_VariantStates (fst x)) \<longrightarrow> free_minimum d)"
    using d(2) x(1) by blast
qed

lemma v2_cycle_decisions:
  assumes "ee_optimizer env = CostAwareOptimizer \<or> gpuConstraintProviders (ee_limiter env) = []"
    and "distinct (map (\<lambda>g. (mg_ModelID g, mg_Namespace g)) groups)"
    and "\<forall>g\<in>set groups. \<forall>data. mg_data g = Inr (Some data) \<longrightarrow> distinct (map st_VariantName (in_VariantStates (md_input data)))"
  shows "\<exists>ds. fst (optimizeV2 rounds env now groups st) = Some ds \<and> (\<forall>d\<in>set ds. decision_in_bounds d \<and>
    (\<exists>g\<in>set groups. \<exists>data. mg_data g = Inr (Some data) \<and> of_model (mg_ModelID g) (mg_Namespace g) d \<and>
      of_state (in_VariantStates (md_input data)) d))"
proof -
  define st0 where "st0 = st\<lparr>es_lastGood := pruneLastGoodAnalysis
    ((\<lambda>g. GetNamespacedKey (mg_Namespace g) (mg_ModelID g)) ` set groups) (es_lastGood st)\<rparr>"
  define collected where "collected = fst (collect_groups env now groups st0)"
  let ?choice = "selectV2Optimizer (ee_optimizer env) (ee_limiter env) (ee_discovered env) (map fst collected)"
  have choice: "?choice = (CostAwareOptimizer, [])"
    using assms(1) by (cases "ee_optimizer env") (auto simp: selectV2Optimizer_def)
  let ?ds = "fold (enforce_request env (optimizer_name CostAwareOptimizer)) collected (CostAware_Optimize (map fst collected))"
  have run: "fst (optimizeV2 rounds env now groups st) = Some (if collected = [] then [] else ?ds)"
    using choice unfolding optimizeV2_def Let_def case_prod_beta st0_def [symmetric] collected_def [symmetric]
    by (simp add: run_optimizer_def)
  have "cycle_ok collected (CostAware_Optimize (map fst collected))"
    unfolding collected_def by (rule cost_aware_cycle_ok [OF assms(2,3)])
  then have ok: "cycle_ok collected ?ds" by (rule enforce_all_ok) simp
  have "\<exists>g\<in>set groups. \<exists>data. mg_data g = Inr (Some data) \<and> mr_ModelID (fst x) = mg_ModelID g \<and> mr_Namespace (fst x) = mg_Namespace g \<and>
      mr_VariantStates (fst x) = in_VariantStates (md_input data)" if "x \<in> set collected" for x
    using collect_groups_member [OF that [unfolded collected_def]] collect_group_request(1-4) by (metis prod.collapse)
  then show ?thesis using run ok by (fastforce simp: cycle_ok_def)
qed

text \<open>A cycle of the token-based path that runs the cost-aware optimizer, be it the configured one or
  the fallback for a fair-share optimizer without constraint providers, always produces decisions; each
  of them is for a variant of a prepared model, with the count and bounds of that variant's state, and
  respects the bounds: collection, analysis, optimization and scale-to-zero enforcement together never
  raise a variant above its maximum nor take one below its minimum.\<close>

theorem v2_cycle_respects_bounds:
  assumes "ee_optimizer env = CostAwareOptimizer \<or> gpuConstraintProviders (ee_limiter env) = []"
    and "distinct (map (\<lambda>g. (mg_ModelID g, mg_Namespace g)) groups)"
    and "\<forall>g\<in>set groups. \<forall>data. mg_data g = Inr (Some data) \<longrightarrow> distinct (map st_VariantName (in_VariantStates (md_input data)))"
  shows "\<exists>ds. fst (optimizeV2 rounds env now groups st) = Some ds \<and> (\<forall>d\<in>set ds. decision_in_bounds d \<and>
    (\<exists>g\<in>set groups. \<exists>data. mg_data g = Inr (Some data) \<and> of_model (mg_ModelID g) (mg_Namespace g) d \<and>
      of_state (in_VariantStates (md_input data)) d))"
  by (rule v2_cycle_decisions [OF assms])

definition example_env :: engine_env where
  "example_env = \<lparr>ee_parseFloat = \<lambda>_. None, ee_interval = None, ee_ctxDone = \<lambda>_. False, ee_entries = [],
     ee_config = \<lparr>lc_global = [(''default'', example_cfg)], lc_namespaceConfigs = []\<rparr>, ee_scaleToZero = \<lambda>_. [],
     ee_requestCount = \<lambda>_ _ _. Inr 0, ee_env = [], ee_optimizer = CostAwareOptimizer, ee_limiter = NoOpLimiter ''noop'',
     ee_discovered = Inr []\<rparr>"

lemma v2_cycle_respects_bounds_witness:
  "\<exists>ds. fst (optimizeV2 0 example_env 0
     [\<lparr>mg_ModelID = ''m'', mg_Namespace = ''ns'', mg_data = Inr (Some \<lparr>md_input = example_input, md_targets = [], md_templates = []\<rparr>)\<rparr>,
      \<lparr>mg_ModelID = ''m2'', mg_Namespace = ''ns'', mg_data = Inl ''no metrics''\<rparr>]
     \<lparr>es_sat = NewSaturationAnalyzer example_store, es_lastGood = []\<rparr>) = Some ds \<and> (\<forall>d\<in>set ds. decision_in_bounds d \<and>
    (\<exists>g\<in>set [\<lparr>mg_ModelID = ''m'', mg_Namespace = ''ns'', mg_data = Inr (Some \<lparr>md_input = example_input, md_targets = [], md_templates = []\<rparr>)\<rparr>,
      \<lparr>mg_ModelID = ''m2'', mg_Namespace = ''ns'', mg_data = Inl ''no metrics''\<rparr>]. \<exists>data. mg_data g = Inr (Some data) \<and>
      of_model (mg_ModelID g) (mg_Namespace g) d \<and> of_state (in_VariantStates (md_input data)) d))"
  by (rule v2_cycle_respects_bounds) (simp_all add: example_env_def example_input_def zero_state_def)

section \<open>Utilization after a scale-up\<close>



end
