(* ===== verification/Emission.thy ===== *)
theory Emission
  imports Variants
begin

text \<open>
  The output side of the engine: the replica and saturation gauges (\<open>metrics/metrics.go\<close>), the
  actuator (\<open>actuator/actuator.go\<close>), the events of a cycle, and how the decisions of a cycle
  reach every active variant (\<open>applySaturationDecisions\<close>, \<open>emitSafetyNetMetrics\<close> in
  \<open>engine.go\<close>).  The gauges are registered at startup, so the nil checks of the emitter do not fire;
  the controller instance is one constant label of every series and is left out, as are logging and
  time stamps.
\<close>

section \<open>Gauges\<close>

text \<open>A replica series is named by variant, namespace and accelerator.\<close>

type_synonym replica_labels = "string \<times> string \<times> string"

record gauges =
  gg_Current :: "(replica_labels, int) gomap"
  gg_Desired :: "(replica_labels, int) gomap"
  gg_Ratio :: "(replica_labels, gofloat) gomap"
  gg_SeriesAccel :: "(string, string) gomap"
  gg_Utilization :: "(string \<times> string \<times> string \<times> string, gofloat) gomap"
  gg_Spare :: "(string \<times> string \<times> string \<times> string, gofloat) gomap"
  gg_Required :: "(string \<times> string \<times> string \<times> string, gofloat) gomap"
  gg_KvUsed :: "(string \<times> string \<times> string, int) gomap"
  gg_KvCapacity :: "(string \<times> string \<times> string, int) gomap"
  gg_Up :: "(string \<times> string, gofloat) gomap"
  gg_ScalingTotal :: "(string \<times> string \<times> string \<times> string, int) gomap"

definition InitMetrics :: gauges where
  "InitMetrics = \<lparr>gg_Current = [], gg_Desired = [], gg_Ratio = [], gg_SeriesAccel = [], gg_Utilization = [], gg_Spare = [],
     gg_Required = [], gg_KvUsed = [], gg_KvCapacity = [], gg_Up = [], gg_ScalingTotal = []\<rparr>"

definition replicaSeriesKey :: "string \<Rightarrow> string \<Rightarrow> string" where
  "replicaSeriesKey variantName namespace = variantName @ CHR 0x00 # namespace"

definition series_labels :: "variant_autoscaling \<Rightarrow> string \<Rightarrow> replica_labels" where
  "series_labels va accelType = (va_Name va, va_Namespace va, accelType)"

definition accel_label :: "string \<Rightarrow> string" where
  "accel_label acceleratorType = (if IsAcceleratorResolved acceleratorType then acceleratorType else UnresolvedAcceleratorType)"

definition set_series :: "replica_labels \<Rightarrow> int \<Rightarrow> int \<Rightarrow> gauges \<Rightarrow> gauges" where
  "set_series labels current desired g = g\<lparr>gg_Current := mput labels current (gg_Current g), gg_Desired := mput labels desired (gg_Desired g),
     gg_Ratio := mput labels (if current = 0 then of_int desired else of_int desired / of_int current) (gg_Ratio g)\<rparr>"

definition delete_series :: "replica_labels \<Rightarrow> gauges \<Rightarrow> gauges" where
  "delete_series labels g = g\<lparr>gg_Current := AList.delete labels (gg_Current g), gg_Desired := AList.delete labels (gg_Desired g),
     gg_Ratio := AList.delete labels (gg_Ratio g)\<rparr>"

definition EmitReplicaMetrics :: "variant_autoscaling \<Rightarrow> int \<Rightarrow> int \<Rightarrow> string \<Rightarrow> gauges \<Rightarrow> gauges" where
  "EmitReplicaMetrics va current desired acceleratorType g =
     (let accelType = accel_label acceleratorType;
          key = replicaSeriesKey (va_Name va) (va_Namespace va);
          g1 = (set_series (series_labels va accelType) current desired g)\<lparr>gg_SeriesAccel := mput key accelType (gg_SeriesAccel g)\<rparr>
      in case map_of (gg_SeriesAccel g) key of
           Some prev \<Rightarrow> if prev \<noteq> accelType then delete_series (series_labels va prev) g1 else g1
         | None \<Rightarrow> g1)"

definition EmitReplicaScalingMetrics :: "variant_autoscaling \<Rightarrow> SaturationAction \<Rightarrow> DecisionReason \<Rightarrow> gauges \<Rightarrow> gauges" where
  "EmitReplicaScalingMetrics va direction reason g =
     g\<lparr>gg_ScalingTotal := madd (va_Name va, va_Namespace va, direction, reason) 1 (gg_ScalingTotal g)\<rparr>"

text \<open>What the token-based path adds to a decision before it is applied.\<close>

record kv_tokens =
  kv_Unit :: string
  kv_Used :: int
  kv_Capacity :: int

definition zero_kv :: kv_tokens where "zero_kv = \<lparr>kv_Unit = [], kv_Used = 0, kv_Capacity = 0\<rparr>"

definition RecordSaturationMetrics :: "variant_decision \<Rightarrow> kv_tokens \<Rightarrow> gauges \<Rightarrow> gauges" where
  "RecordSaturationMetrics d kv g =
     (let v = d_VariantName d; ns = d_Namespace d; m = d_ModelID d in
      g\<lparr>gg_Utilization := mput (v, ns, m, d_AcceleratorName d) (d_Utilization d) (gg_Utilization g),
        gg_Spare := mput (v, ns, m, kv_Unit kv) (d_SpareCapacity d) (gg_Spare g),
        gg_Required := mput (v, ns, m, kv_Unit kv) (d_RequiredCapacity d) (gg_Required g),
        gg_KvUsed := mput (v, ns, m) (kv_Used kv) (gg_KvUsed g),
        gg_KvCapacity := mput (v, ns, m) (kv_Capacity kv) (gg_KvCapacity g)\<rparr>)"

definition RecordSaturationFreshness :: "string \<Rightarrow> string \<Rightarrow> bool \<Rightarrow> gauges \<Rightarrow> gauges" where
  "RecordSaturationFreshness variantName namespace fresh g =
     g\<lparr>gg_Up := mput (variantName, namespace) (if fresh then 1 else 0) (gg_Up g)\<rparr>"

section \<open>Actuator\<close>

definition GetCurrentScaleTargetReplicasFromScaleTarget :: "scale_target option \<Rightarrow> string + int" where
  "GetCurrentScaleTargetReplicasFromScaleTarget target = (case target of
     None \<Rightarrow> Inl ''scale target cannot be nil''
   | Some t \<Rightarrow> Inr (if GetStatusReplicas t \<ge> 0 then GetStatusReplicas t
                   else case GetReplicas t of Some n \<Rightarrow> n | None \<Rightarrow> 1))"

definition GetCurrentScaleTargetReplicasFromVA :: "api_client \<Rightarrow> variant_autoscaling \<Rightarrow> string + int" where
  "GetCurrentScaleTargetReplicasFromVA c va = (case FetchScaleTarget c (va_Kind va) (va_TargetName va) (va_Namespace va) of
     Inl _ \<Rightarrow> Inl ''failed to get scale target''
   | Inr t \<Rightarrow> GetCurrentScaleTargetReplicasFromScaleTarget (Some t))"

definition EmitMetrics :: "api_client \<Rightarrow> variant_autoscaling \<Rightarrow> gauges \<Rightarrow> gauges" where
  "EmitMetrics c va g = (case va_NumReplicas va of
     None \<Rightarrow> g
   | Some desired \<Rightarrow> EmitReplicaMetrics va
       (case GetCurrentScaleTargetReplicasFromVA c va of Inl _ \<Rightarrow> 0 | Inr n \<Rightarrow> n) desired (va_Accelerator va) g)"

section \<open>Events\<close>

record k8s_event =
  ev_Variant :: string
  ev_Type :: string
  ev_Reason :: string
  ev_Message :: string

text \<open>The output of the engine over its life: gauges, recorded events, the tracker of the current cycle and
  the readiness conditions set on the in-memory variants.\<close>

record engine_output =
  out_gauges :: gauges
  out_recorder :: bool
  out_tracker :: "string list option"
  out_events :: "k8s_event list"
  out_conditions :: "(string \<times> bool \<times> string) list"

definition EventWarning :: string where "EventWarning = ''Warning''"
definition EventNormal :: string where "EventNormal = ''Normal''"
definition K8SEventScaledUp :: string where "K8SEventScaledUp = ''ScaledUp''"
definition K8SEventScaledDown :: string where "K8SEventScaledDown = ''ScaledDown''"
definition K8SEventScaledToZero :: string where "K8SEventScaledToZero = ''ScaledToZero''"
definition K8SEventResourceConstrained :: string where "K8SEventResourceConstrained = ''ResourceConstrained''"
definition K8SEventOptimizationFailed :: string where "K8SEventOptimizationFailed = ''OptimizationFailed''"
definition K8SEventOptimizationRefused :: string where "K8SEventOptimizationRefused = ''OptimizationRefused''"

lemmas event_reasons = K8SEventScaledUp_def K8SEventScaledDown_def K8SEventScaledToZero_def K8SEventResourceConstrained_def
  K8SEventOptimizationFailed_def K8SEventOptimizationRefused_def

definition va_key :: "variant_autoscaling \<Rightarrow> string" where
  "va_key va = GetNamespacedKey (va_Namespace va) (va_Name va)"

definition recordEvent :: "variant_autoscaling \<Rightarrow> string \<Rightarrow> string \<Rightarrow> string \<Rightarrow> engine_output \<Rightarrow> engine_output" where
  "recordEvent va eventType reason message out =
     (let recorded = out\<lparr>out_events := out_events out @
            [\<lparr>ev_Variant = va_key va, ev_Type = eventType, ev_Reason = reason, ev_Message = message\<rparr>]\<rparr>
      in if \<not> out_recorder out then out
         else if reason = K8SEventResourceConstrained then recorded
         else case out_tracker out of
           None \<Rightarrow> recorded
         | Some seen \<Rightarrow> if va_key va \<in> set seen then out else recorded\<lparr>out_tracker := Some (va_key va # seen)\<rparr>)"

definition optimizationRefusedMessage :: string where
  "optimizationRefusedMessage = ''Optimization refused for the configured analyzer; replicas held at last-good value''"

definition recordOptimizationRefusedEvent :: "(string, variant_autoscaling list) gomap \<Rightarrow> engine_output \<Rightarrow> engine_output" where
  "recordOptimizationRefusedEvent modelGroups = fold (\<lambda>(_, vas). fold (\<lambda>va.
     recordEvent va EventWarning K8SEventOptimizationRefused optimizationRefusedMessage) vas) modelGroups"

definition recordOptimizationFailedEvent :: "variant_autoscaling list \<Rightarrow> string \<Rightarrow> engine_output \<Rightarrow> engine_output" where
  "recordOptimizationFailedEvent vas message = fold (\<lambda>va. recordEvent va EventWarning K8SEventOptimizationFailed message) vas"

definition recordScalingEvent :: "variant_autoscaling \<Rightarrow> SaturationAction \<Rightarrow> int \<Rightarrow> string \<Rightarrow> engine_output \<Rightarrow> engine_output" where
  "recordScalingEvent va action targetReplicas reason out =
     (if action = ActionScaleUp then recordEvent va EventNormal K8SEventScaledUp reason out
      else if action = ActionScaleDown then
        (if targetReplicas = 0 then recordEvent va EventNormal K8SEventScaledToZero reason out
         else recordEvent va EventNormal K8SEventScaledDown reason out)
      else out)"

definition AcceleratorNotResolvedMessage :: string where
  "AcceleratorNotResolvedMessage = ''Cannot resolve accelerator type from Deployment nodeSelector/nodeAffinity or VA label '' @
     AcceleratorNameLabel @ ''. Set nodeSelector on Deployment or add the label to the VariantAutoscaling resource. '' @
     ''Replica scaling metrics are still emitted with accelerator_type=\"unresolved\" so HPA/KEDA can scale; '' @
     ''accelerator-specific saturation/capacity metrics are withheld until the accelerator is resolved.''"

definition emitAcceleratorNotResolvedEvent :: "variant_autoscaling \<Rightarrow> engine_output \<Rightarrow> engine_output" where
  "emitAcceleratorNotResolvedEvent va = recordEvent va EventWarning ''AcceleratorNotResolved'' AcceleratorNotResolvedMessage"

section \<open>Applying decisions\<close>

record allocation =
  al_Accelerator :: string
  al_NumReplicas :: int

definition wrap32 :: "int \<Rightarrow> int" where
  "wrap32 x = (x + 2 ^ 31) mod 2 ^ 32 - 2 ^ 31"

text \<open>The target and accelerator of a variant without a decision: what was desired before, the collected
  allocation, and then the live scale target for whatever is still missing.\<close>

definition previous_desired :: "variant_autoscaling \<Rightarrow> int option" where
  "previous_desired va = (case va_NumReplicas va of Some n \<Rightarrow> if n > 0 then Some n else None | None \<Rightarrow> None)"

definition held_alloc :: "api_client \<Rightarrow> (string, allocation) gomap \<Rightarrow> string \<Rightarrow> variant_autoscaling \<Rightarrow> int \<times> string" where
  "held_alloc c allocs key va =
     (let target = (case previous_desired va of Some n \<Rightarrow> n
                    | None \<Rightarrow> (case map_of allocs key of Some a \<Rightarrow> al_NumReplicas a | None \<Rightarrow> 0));
          accel = (if IsAcceleratorResolved (va_Accelerator va) then va_Accelerator va
                   else case map_of allocs key of
                     Some a \<Rightarrow> if IsAcceleratorResolved (al_Accelerator a) then al_Accelerator a else []
                   | None \<Rightarrow> [])
      in if (\<not> IsAcceleratorResolved accel \<or> target = 0) \<and> va_TargetName va \<noteq> [] then
           (case FetchScaleTarget c (va_Kind va) (va_TargetName va) (va_Namespace va) of
              Inr t \<Rightarrow>
                ((if target = 0 then (case GetReplicas t of Some n \<Rightarrow> n | None \<Rightarrow> target) else target),
                 (if IsAcceleratorResolved accel then accel else GetAcceleratorNameFromScaleTarget (Some va) (Some t)))
            | Inl _ \<Rightarrow> (target, if IsAcceleratorResolved accel then accel else GetAcceleratorNameFromScaleTarget (Some va) None))
         else (target, accel))"

type_synonym enriched = "variant_decision \<times> kv_tokens"

definition decision_map :: "enriched list \<Rightarrow> (string, enriched) gomap" where
  "decision_map ds = fold (\<lambda>d. mput (GetNamespacedKey (d_Namespace (fst d)) (d_VariantName (fst d))) d) ds []"

definition chosen_alloc :: "api_client \<Rightarrow> (string, allocation) gomap \<Rightarrow> enriched option \<Rightarrow> string \<Rightarrow> variant_autoscaling \<Rightarrow> int \<times> string" where
  "chosen_alloc c allocs decision key va = (case decision of
     Some (d, _) \<Rightarrow> (d_TargetReplicas d, d_AcceleratorName d) | None \<Rightarrow> held_alloc c allocs key va)"

definition readiness :: "bool \<Rightarrow> enriched option \<Rightarrow> bool \<times> string" where
  "readiness refused decision = (case decision of
     Some (d, _) \<Rightarrow> if d_SafetyOverride d then (True, ''SaturationSafetyOverride'')
       else if d_SaturationOnly d then (True, ''SaturationOnlyMode'') else (True, ''OptimizationSucceeded'')
   | None \<Rightarrow> if refused then (False, ''OptimizationRefused'') else (True, ''OptimizationSucceeded''))"

definition stage_alloc :: "int \<times> string \<Rightarrow> variant_autoscaling \<Rightarrow> variant_autoscaling" where
  "stage_alloc a va = va\<lparr>va_NumReplicas := Some (wrap32 (fst a)),
     va_Accelerator := (if IsAcceleratorResolved (snd a) then snd a else [])\<rparr>"

text \<open>The gauges written for one variant, in order; emission itself never fails.\<close>

definition apply_gauges :: "api_client \<Rightarrow> enriched option \<Rightarrow> int \<times> string \<Rightarrow> variant_autoscaling \<Rightarrow> gauges \<Rightarrow> gauges" where
  "apply_gauges c decision a va g =
     (let updateVa = stage_alloc a va; g1 = EmitMetrics c updateVa g in
      case decision of
        None \<Rightarrow> RecordSaturationFreshness (va_Name va) (va_Namespace va) False g1
      | Some (d, kv) \<Rightarrow>
          (let g2 = (if IsAcceleratorResolved (snd a) then RecordSaturationMetrics d kv g1 else g1);
               g3 = RecordSaturationFreshness (d_VariantName d) (d_Namespace d) True g2
           in if d_Action d \<noteq> ActionNoChange then EmitReplicaScalingMetrics updateVa (d_Action d) (d_decisionReason d) g3 else g3))"

definition apply_events :: "enriched option \<Rightarrow> int \<times> string \<Rightarrow> variant_autoscaling \<Rightarrow> engine_output \<Rightarrow> engine_output" where
  "apply_events decision a va out =
     (let out1 = (if IsAcceleratorResolved (snd a) then out else emitAcceleratorNotResolvedEvent va out) in
      case decision of
        None \<Rightarrow> out1
      | Some (d, _) \<Rightarrow>
          (let out2 = recordScalingEvent va (d_Action d) (d_TargetReplicas d) (d_reason d) out1 in
           if d_WasLimited d then recordEvent va EventWarning K8SEventResourceConstrained (d_reason d) out2 else out2))"

definition apply_va :: "api_client \<Rightarrow> (string, allocation) gomap \<Rightarrow> bool \<Rightarrow> (string, enriched) gomap \<Rightarrow> string \<times> variant_autoscaling \<Rightarrow>
    engine_output \<Rightarrow> engine_output" where
  "apply_va c allocs refused decisions entry out =
     (let (key, va) = entry; decision = map_of decisions key; a = chosen_alloc c allocs decision key va;
          out1 = apply_events decision a va out
      in out1\<lparr>out_gauges := apply_gauges c decision a va (out_gauges out1),
              out_conditions := out_conditions out1 @ [(key, readiness refused decision)]\<rparr>)"

definition applySaturationDecisions :: "api_client \<Rightarrow> (string, allocation) gomap \<Rightarrow> bool \<Rightarrow> enriched list \<Rightarrow>
    (string, variant_autoscaling) gomap \<Rightarrow> engine_output \<Rightarrow> engine_output" where
  "applySaturationDecisions c allocs refused ds vaMap = fold (apply_va c allocs refused (decision_map ds)) vaMap"

section \<open>The safety net\<close>

definition safety_net :: "(string, allocation) gomap \<Rightarrow> (string, scale_target) gomap option \<Rightarrow> variant_autoscaling \<Rightarrow> gauges \<Rightarrow> gauges" where
  "safety_net allocs targets va g =
     (let target = (case targets of None \<Rightarrow> None | Some ts \<Rightarrow> map_of ts (GetNamespacedKey (va_Namespace va) (va_TargetName va)));
          current = (case target of
             None \<Rightarrow> 0
           | Some _ \<Rightarrow> (case GetCurrentScaleTargetReplicasFromScaleTarget target of
               Inr n \<Rightarrow> n
             | Inl _ \<Rightarrow> (case map_of allocs (va_key va) of Some a \<Rightarrow> wrap32 (al_NumReplicas a) | None \<Rightarrow> 0)));
          desired = (case previous_desired va of Some n \<Rightarrow> n | None \<Rightarrow> current);
          accel1 = (if va_Accelerator va = [] then (case map_of allocs (va_key va) of Some a \<Rightarrow> al_Accelerator a | None \<Rightarrow> []) else va_Accelerator va);
          accel = (if \<not> IsAcceleratorResolved accel1 \<and> target \<noteq> None then GetAcceleratorNameFromScaleTarget (Some va) target else accel1)
      in EmitReplicaMetrics va current desired accel g)"

definition emitSafetyNetMetrics :: "(string, allocation) gomap \<Rightarrow> (string, scale_target) gomap option \<Rightarrow> variant_autoscaling list \<Rightarrow>
    engine_output \<Rightarrow> engine_output" where
  "emitSafetyNetMetrics allocs targets vas out = out\<lparr>out_gauges := fold (safety_net allocs targets) vas (out_gauges out)\<rparr>"

section \<open>A scaler reads one value per variant\<close>

text \<open>What a query by variant and namespace returns: every accelerator with its desired replicas.\<close>

definition readings :: "gauges \<Rightarrow> string \<Rightarrow> string \<Rightarrow> (string \<times> int) set" where
  "readings g v ns = {(a, n). map_of (gg_Desired g) (v, ns, a) = Some n}"

definition plain_name :: "string \<Rightarrow> bool" where
  "plain_name v \<longleftrightarrow> CHR 0x00 \<notin> set v"

definition series_ok :: "gauges \<Rightarrow> bool" where
  "series_ok g \<longleftrightarrow> (\<forall>v ns a. plain_name v \<longrightarrow>
     (map_of (gg_Desired g) (v, ns, a) = None \<longleftrightarrow> map_of (gg_SeriesAccel g) (replicaSeriesKey v ns) \<noteq> Some a))"

text \<open>The gauges a process can have: whatever it recorded since the metrics were registered.\<close>

inductive recorded :: "gauges \<Rightarrow> bool" where
  start: "recorded InitMetrics"
| emit: "recorded g \<Longrightarrow> plain_name (va_Name va) \<Longrightarrow> recorded (EmitReplicaMetrics va current desired acc g)"
| scaling: "recorded g \<Longrightarrow> recorded (EmitReplicaScalingMetrics va direction reason g)"
| saturation: "recorded g \<Longrightarrow> recorded (RecordSaturationMetrics d kv g)"
| freshness: "recorded g \<Longrightarrow> recorded (RecordSaturationFreshness v ns fresh g)"

lemma split_first_sep: "xs @ c # ys = xs' @ c # ys' \<Longrightarrow> c \<notin> set xs \<Longrightarrow> c \<notin> set xs' \<Longrightarrow> xs = xs' \<and> ys = ys'"
  by (induction xs arbitrary: xs') (auto simp: Cons_eq_append_conv append_eq_Cons_conv)

lemma replicaSeriesKey_inj:
  "plain_name v \<Longrightarrow> plain_name v' \<Longrightarrow> replicaSeriesKey v ns = replicaSeriesKey v' ns' \<longleftrightarrow> v = v' \<and> ns = ns'"
  by (auto simp: replicaSeriesKey_def plain_name_def dest: split_first_sep)

lemma emit_series:
  "gg_SeriesAccel (EmitReplicaMetrics va current desired acc g) =
     mput (replicaSeriesKey (va_Name va) (va_Namespace va)) (accel_label acc) (gg_SeriesAccel g)"
  by (simp add: EmitReplicaMetrics_def Let_def set_series_def delete_series_def split: option.split)

lemma emit_desired:
  "map_of (gg_Desired (EmitReplicaMetrics va current desired acc g)) k =
     (let key = map_of (gg_SeriesAccel g) (replicaSeriesKey (va_Name va) (va_Namespace va)) in
      if k = series_labels va (accel_label acc) then Some desired
      else case key of Some prev \<Rightarrow> if k = series_labels va prev then None else map_of (gg_Desired g) k
         | None \<Rightarrow> map_of (gg_Desired g) k)"
  by (auto simp: EmitReplicaMetrics_def Let_def set_series_def delete_series_def update_conv delete_conv' series_labels_def split: option.split)

lemma emit_keeps_series_ok:
  assumes "series_ok g" and "plain_name (va_Name va)"
  shows "series_ok (EmitReplicaMetrics va current desired acc g)"
  using assms
  by (auto simp: series_ok_def emit_series emit_desired Let_def update_conv series_labels_def replicaSeriesKey_inj split: option.splits if_splits)

lemmas other_records = EmitReplicaScalingMetrics_def RecordSaturationMetrics_def RecordSaturationFreshness_def

lemma recorded_series_ok: "recorded g \<Longrightarrow> series_ok g"
  by (induction rule: recorded.induct)
    (simp_all add: emit_keeps_series_ok, simp_all add: series_ok_def InitMetrics_def other_records Let_def)

lemma emit_readings:
  assumes "series_ok g" and "plain_name (va_Name va)" and "plain_name v"
  shows "readings (EmitReplicaMetrics va current desired acc g) v ns =
    (if v = va_Name va \<and> ns = va_Namespace va then {(accel_label acc, desired)} else readings g v ns)"
proof -
  have absent: "map_of (gg_Desired g) (v, ns, a) = None \<longleftrightarrow> map_of (gg_SeriesAccel g) (replicaSeriesKey v ns) \<noteq> Some a" for a
    using assms(1,3) by (simp add: series_ok_def)
  show ?thesis
    by (auto simp: readings_def emit_desired Let_def series_labels_def absent split: option.splits if_splits)
      (use absent in \<open>metis option.distinct(1) option.inject\<close>)+
qed

text \<open>C3. The scaling signal refines one cell per variant: whatever the process recorded so far, emitting the
  replicas of a variant makes a query by variant and namespace return exactly the desired count just
  emitted, under one accelerator label, also when the label changed, and leaves every other variant's
  answer as it was.  No query ever returns two values.\<close>

theorem emission_refines_cell:
  assumes "recorded g" and "plain_name (va_Name va)" and "plain_name v"
  shows "readings (EmitReplicaMetrics va current desired acc g) v ns =
      (if v = va_Name va \<and> ns = va_Namespace va then {(accel_label acc, desired)} else readings g v ns) \<and>
    (\<forall>x\<in>readings g v ns. \<forall>y\<in>readings g v ns. x = y)"
proof
  have ok: "series_ok g" using assms(1) by (rule recorded_series_ok)
  show "readings (EmitReplicaMetrics va current desired acc g) v ns =
      (if v = va_Name va \<and> ns = va_Namespace va then {(accel_label acc, desired)} else readings g v ns)"
    using ok assms(2,3) by (rule emit_readings)
  show "\<forall>x\<in>readings g v ns. \<forall>y\<in>readings g v ns. x = y"
  proof -
    have "map_of (gg_SeriesAccel g) (replicaSeriesKey v ns) = Some a" if "map_of (gg_Desired g) (v, ns, a) = Some n" for a n
      using that ok assms(3) by (metis option.distinct(1) series_ok_def)
    then have "a = a' \<and> n = n'" if "(a, n) \<in> readings g v ns" "(a', n') \<in> readings g v ns" for a n a' n'
      using that unfolding readings_def by (metis (mono_tags, lifting) case_prodD mem_Collect_eq option.inject)
    then show ?thesis by auto
  qed
qed

lemma emission_refines_cell_witness:
  "readings (EmitReplicaMetrics (example_va ''a'' DeploymentKind) 3 5 ''H100''
      (EmitReplicaMetrics (example_va ''a'' DeploymentKind) 3 3 [] InitMetrics)) ''a'' ''ns'' = {(''H100'', 5)}"
proof -
  have "recorded (EmitReplicaMetrics (example_va ''a'' DeploymentKind) 3 3 [] InitMetrics)"
    by (auto intro!: recorded.intros simp: plain_name_def example_va_def)
  note cell = emission_refines_cell [OF this, where va = "example_va ''a'' DeploymentKind" and v = "''a''" and ns = "''ns''"
      and current = 3 and desired = 5 and acc = "''H100''"]
  have "plain_name ''a''" "va_Name (example_va ''a'' DeploymentKind) = ''a''" "va_Namespace (example_va ''a'' DeploymentKind) = ''ns''"
    by (simp_all add: plain_name_def example_va_def)
  with cell show ?thesis by (simp add: accel_label_def IsAcceleratorResolved_def DefaultAcceleratorName_def UnresolvedAcceleratorType_def)
qed

section \<open>Every active variant gets its signal\<close>

lemma recordEvent_gauges [simp]: "out_gauges (recordEvent va t r m out) = out_gauges out"
  by (simp add: recordEvent_def Let_def split: option.split)

lemma apply_events_gauges [simp]: "out_gauges (apply_events decision a va out) = out_gauges out"
  by (simp add: apply_events_def emitAcceleratorNotResolvedEvent_def recordScalingEvent_def Let_def split: option.split)

lemma stage_alloc_simps [simp]:
  "va_Name (stage_alloc a va) = va_Name va" "va_Namespace (stage_alloc a va) = va_Namespace va"
  "series_labels (stage_alloc a va) = series_labels va" "va_NumReplicas (stage_alloc a va) = Some (wrap32 (fst a))"
  by (simp_all add: stage_alloc_def series_labels_def fun_eq_iff)

lemma accel_label_staged: "accel_label (va_Accelerator (stage_alloc a va)) = accel_label (snd a)"
  by (simp add: stage_alloc_def accel_label_def IsAcceleratorResolved_def)

lemma EmitMetrics_staged:
  "\<exists>current. EmitMetrics c (stage_alloc a va) g = EmitReplicaMetrics va current (wrap32 (fst a)) (snd a) g"
  unfolding EmitMetrics_def EmitReplicaMetrics_def accel_label_staged stage_alloc_simps option.case by (rule exI, rule refl)

lemma apply_gauges_view:
  assumes "recorded g" and "plain_name (va_Name va)"
  shows "recorded (apply_gauges c decision a va g)"
    and "plain_name v \<Longrightarrow> readings (apply_gauges c decision a va g) v ns =
      (if v = va_Name va \<and> ns = va_Namespace va then {(accel_label (snd a), wrap32 (fst a))} else readings g v ns)"
proof -
  obtain current where emit: "EmitMetrics c (stage_alloc a va) g = EmitReplicaMetrics va current (wrap32 (fst a)) (snd a) g"
    using EmitMetrics_staged by blast
  let ?g = "EmitReplicaMetrics va current (wrap32 (fst a)) (snd a) g"
  have "recorded ?g" using assms by (rule recorded.emit)
  then show "recorded (apply_gauges c decision a va g)"
    by (auto simp: apply_gauges_def emit Let_def intro: recorded.intros split: option.split)
  have "gg_Desired (apply_gauges c decision a va g) = gg_Desired ?g"
    by (simp add: apply_gauges_def emit Let_def other_records split: option.split prod.split)
  then have "readings (apply_gauges c decision a va g) v ns = readings ?g v ns" by (simp add: readings_def)
  then show "plain_name v \<Longrightarrow> readings (apply_gauges c decision a va g) v ns =
      (if v = va_Name va \<and> ns = va_Namespace va then {(accel_label (snd a), wrap32 (fst a))} else readings g v ns)"
    using emit_readings [OF recorded_series_ok [OF assms(1)] assms(2)] by simp
qed

lemma apply_va_gauges:
  "out_gauges (apply_va c allocs refused decisions (key, va) out) =
     apply_gauges c (map_of decisions key) (chosen_alloc c allocs (map_of decisions key) key va) va (out_gauges out)"
  by (simp add: apply_va_def Let_def)

lemma apply_all_view:
  assumes "recorded (out_gauges out)" and "\<forall>(key, va)\<in>set vaMap. plain_name (va_Name va)"
    and "distinct (map (\<lambda>(key, va). (va_Name va, va_Namespace va)) vaMap)"
  shows "recorded (out_gauges (fold (apply_va c allocs refused decisions) vaMap out)) \<and>
    (\<forall>v ns. plain_name v \<longrightarrow> (v, ns) \<notin> (\<lambda>(key, va). (va_Name va, va_Namespace va)) ` set vaMap \<longrightarrow>
      readings (out_gauges (fold (apply_va c allocs refused decisions) vaMap out)) v ns = readings (out_gauges out) v ns) \<and>
    (\<forall>(key, va)\<in>set vaMap. let a = chosen_alloc c allocs (map_of decisions key) key va in
      readings (out_gauges (fold (apply_va c allocs refused decisions) vaMap out)) (va_Name va) (va_Namespace va) =
        {(accel_label (snd a), wrap32 (fst a))})"
  using assms
proof (induction vaMap arbitrary: out)
  case (Cons entry vaMap)
  obtain key va where entry: "entry = (key, va)" by (cases entry)
  let ?out = "apply_va c allocs refused decisions entry out"
  have plain: "plain_name (va_Name va)" using Cons.prems(2) entry by simp
  have "recorded (out_gauges ?out)" unfolding entry apply_va_gauges by (rule apply_gauges_view [OF Cons.prems(1) plain])
  from Cons.IH [OF this] Cons.prems(2,3)
  have IH: "recorded (out_gauges (fold (apply_va c allocs refused decisions) vaMap ?out)) \<and>
    (\<forall>v ns. plain_name v \<longrightarrow> (v, ns) \<notin> (\<lambda>(key, va). (va_Name va, va_Namespace va)) ` set vaMap \<longrightarrow>
      readings (out_gauges (fold (apply_va c allocs refused decisions) vaMap ?out)) v ns = readings (out_gauges ?out) v ns) \<and>
    (\<forall>(key, va)\<in>set vaMap. let a = chosen_alloc c allocs (map_of decisions key) key va in
      readings (out_gauges (fold (apply_va c allocs refused decisions) vaMap ?out)) (va_Name va) (va_Namespace va) =
        {(accel_label (snd a), wrap32 (fst a))})" by simp
  have step: "readings (out_gauges ?out) v ns = (if v = va_Name va \<and> ns = va_Namespace va
      then {(accel_label (snd (chosen_alloc c allocs (map_of decisions key) key va)), wrap32 (fst (chosen_alloc c allocs (map_of decisions key) key va)))}
      else readings (out_gauges out) v ns)" if "plain_name v" for v ns
    unfolding entry apply_va_gauges using apply_gauges_view(2) [OF Cons.prems(1) plain that] .
  have fresh: "(va_Name va, va_Namespace va) \<notin> (\<lambda>(key, va). (va_Name va, va_Namespace va)) ` set vaMap"
    using Cons.prems(3) entry by simp
  show ?case using IH step fresh plain by (simp add: entry Let_def)
qed simp

text \<open>C4. Every active variant gets its signal: after the decisions of a cycle are applied, a query for any
  variant of the cycle returns exactly one value, the target of its decision when there is one and
  otherwise the held count, with the accelerator or its placeholder; no variant is left without a signal
  and none shows another's.\<close>

theorem every_variant_signalled:
  assumes "recorded (out_gauges out)" and "\<forall>(key, va)\<in>set vaMap. plain_name (va_Name va)"
    and "distinct (map (\<lambda>(key, va). (va_Name va, va_Namespace va)) vaMap)" and "(key, va) \<in> set vaMap"
  shows "readings (out_gauges (applySaturationDecisions c allocs refused ds vaMap out)) (va_Name va) (va_Namespace va) =
    (case map_of (decision_map ds) key of
       Some (d, _) \<Rightarrow> {(accel_label (d_AcceleratorName d), wrap32 (d_TargetReplicas d))}
     | None \<Rightarrow> {(accel_label (snd (held_alloc c allocs key va)), wrap32 (fst (held_alloc c allocs key va)))})"
  using apply_all_view [OF assms(1-3), of c allocs refused "decision_map ds"] assms(4)
  by (auto simp: applySaturationDecisions_def chosen_alloc_def Let_def split: option.split)

definition example_out :: engine_output where
  "example_out = \<lparr>out_gauges = InitMetrics, out_recorder = True, out_tracker = Some [], out_events = [], out_conditions = []\<rparr>"

lemma every_variant_signalled_witness:
  "readings (out_gauges (applySaturationDecisions example_client [] False
      [(zero_decision\<lparr>d_VariantName := ''a'', d_Namespace := ''ns'', d_TargetReplicas := 4\<rparr>, zero_kv)]
      [(''ns/a'', example_va ''a'' DeploymentKind), (''ns/b'', example_va ''b'' LeaderWorkerSetKind)] example_out)) ''a'' ''ns'' =
    {(UnresolvedAcceleratorType, 4)}"
  using every_variant_signalled [of example_out "[(''ns/a'', example_va ''a'' DeploymentKind), (''ns/b'', example_va ''b'' LeaderWorkerSetKind)]"
      "''ns/a''" "example_va ''a'' DeploymentKind" example_client "[]" False
      "[(zero_decision\<lparr>d_VariantName := ''a'', d_Namespace := ''ns'', d_TargetReplicas := 4\<rparr>, zero_kv)]"]
  by (simp add: example_out_def recorded.start example_va_def plain_name_def decision_map_def GetNamespacedKey_def zero_decision_def
      accel_label_def IsAcceleratorResolved_def wrap32_def)

lemma wrap32_id: "- (2 ^ 31) \<le> x \<Longrightarrow> x < 2 ^ 31 \<Longrightarrow> wrap32 x = x"
  by (simp add: wrap32_def)

lemma held_live:
  "va_NumReplicas va = None \<Longrightarrow> va_TargetName va \<noteq> [] \<Longrightarrow> FetchScaleTarget c (va_Kind va) (va_TargetName va) (va_Namespace va) = Inr t \<Longrightarrow>
   GetReplicas t = Some n \<Longrightarrow> fst (held_alloc c [] key va) = n"
  by (simp add: held_alloc_def previous_desired_def Let_def)

text \<open>A variant without a decision is held, not scaled: as long as its target can be read, the signal emitted
  for it is the replica count its target is running with, whether the optimizer had nothing to say, its
  data was missing or the cycle was refused.\<close>

theorem held_at_live_count:
  assumes "recorded (out_gauges out)" and "\<forall>(key, va)\<in>set vaMap. plain_name (va_Name va)"
    and "distinct (map (\<lambda>(key, va). (va_Name va, va_Namespace va)) vaMap)" and "(key, va) \<in> set vaMap"
    and "map_of (decision_map ds) key = None" and "va_NumReplicas va = None" and "va_TargetName va \<noteq> []"
    and "FetchScaleTarget c (va_Kind va) (va_TargetName va) (va_Namespace va) = Inr t"
    and "GetReplicas t = Some n" and "0 \<le> n" and "n < 2 ^ 31"
  shows "\<exists>accelerator. readings (out_gauges (applySaturationDecisions c [] refused ds vaMap out)) (va_Name va) (va_Namespace va) =
    {(accelerator, n)}"
proof -
  have "fst (held_alloc c [] key va) = n" using assms(6-9) by (rule held_live)
  then show ?thesis using apply_all_view [OF assms(1-3), of c "[]" refused "decision_map ds"] assms(4,5,10,11) wrap32_id [of n]
    by (auto simp: applySaturationDecisions_def chosen_alloc_def Let_def)
qed

lemma held_at_live_count_witness:
  "\<exists>accelerator. readings (out_gauges (applySaturationDecisions example_client [] True []
      [(''ns/a'', example_va ''a'' DeploymentKind)] example_out)) (va_Name (example_va ''a'' DeploymentKind))
      (va_Namespace (example_va ''a'' DeploymentKind)) = {(accelerator, 3)}"
  by (rule held_at_live_count [where key = "''ns/a''" and t = "DeploymentTarget (example_meta 3) (example_pod 1)"])
    (auto simp: example_out_def recorded.start plain_name_def decision_map_def example_variant_defs)

text \<open>C9. The hold depends on one read: when the target of a variant cannot be fetched at that moment, no earlier
  desired count exists (the variants of annotations never carry one) and no decision was made, the signal
  emitted for it is zero replicas, which a scaler takes as an order to scale to zero.\<close>

theorem unreadable_target_is_zeroed:
  assumes "recorded (out_gauges out)" and "\<forall>(key, va)\<in>set vaMap. plain_name (va_Name va)"
    and "distinct (map (\<lambda>(key, va). (va_Name va, va_Namespace va)) vaMap)" and "(key, va) \<in> set vaMap"
    and "map_of (decision_map ds) key = None" and "va_NumReplicas va = None"
    and "FetchScaleTarget c (va_Kind va) (va_TargetName va) (va_Namespace va) = Inl e"
  shows "\<exists>accelerator. readings (out_gauges (applySaturationDecisions c [] refused ds vaMap out)) (va_Name va) (va_Namespace va) =
    {(accelerator, 0)}"
proof -
  have "fst (held_alloc c [] key va) = 0" using assms(6,7) by (simp add: held_alloc_def previous_desired_def Let_def)
  then show ?thesis using apply_all_view [OF assms(1-3), of c "[]" refused "decision_map ds"] assms(4,5) wrap32_id [of 0]
    by (auto simp: applySaturationDecisions_def chosen_alloc_def Let_def)
qed

lemma unreadable_target_is_zeroed_witness:
  "\<exists>accelerator. readings (out_gauges (applySaturationDecisions (example_client\<lparr>ac_Deployment := \<lambda>_ _. Inl (FetchFailed ''timeout'')\<rparr>) [] False []
      [(''ns/a'', example_va ''a'' DeploymentKind)] example_out)) (va_Name (example_va ''a'' DeploymentKind))
      (va_Namespace (example_va ''a'' DeploymentKind)) = {(accelerator, 0)}"
  by (rule unreadable_target_is_zeroed [where key = "''ns/a''" and e = "FetchFailed ''timeout''"])
    (auto simp: example_out_def recorded.start plain_name_def decision_map_def example_variant_defs)

section \<open>Events\<close>

record event_call =
  cl_Variant :: variant_autoscaling
  cl_Type :: string
  cl_Reason :: string
  cl_Message :: string

definition call_event :: "event_call \<Rightarrow> k8s_event" where
  "call_event x = \<lparr>ev_Variant = va_key (cl_Variant x), ev_Type = cl_Type x, ev_Reason = cl_Reason x, ev_Message = cl_Message x\<rparr>"

definition record_all :: "event_call list \<Rightarrow> engine_output \<Rightarrow> engine_output" where
  "record_all = fold (\<lambda>x. recordEvent (cl_Variant x) (cl_Type x) (cl_Reason x) (cl_Message x))"

text \<open>The events of a variant that share its one slot.\<close>

definition slot_events :: "string \<Rightarrow> k8s_event list \<Rightarrow> k8s_event list" where
  "slot_events k evs = filter (\<lambda>e. ev_Variant e = k \<and> ev_Reason e \<noteq> K8SEventResourceConstrained) evs"

lemma recordEvent_slot:
  assumes "out_recorder out" and "out_tracker out = Some seen"
  shows "\<exists>seen'. out_tracker (recordEvent va t r m out) = Some seen' \<and> out_recorder (recordEvent va t r m out) \<and>
    slot_events k (out_events (recordEvent va t r m out)) = slot_events k (out_events out) @
      (if k \<in> set seen then [] else slot_events k [\<lparr>ev_Variant = va_key va, ev_Type = t, ev_Reason = r, ev_Message = m\<rparr>]) \<and>
    (k \<in> set seen' \<longleftrightarrow> k \<in> set seen \<or> k = va_key va \<and> r \<noteq> K8SEventResourceConstrained)"
  by (cases "r = K8SEventResourceConstrained"; cases "va_key va \<in> set seen")
    (use assms in \<open>auto simp: recordEvent_def Let_def slot_events_def\<close>)

lemma record_all_slots:
  assumes "out_recorder out" and "out_tracker out = Some seen"
  shows "slot_events k (out_events (record_all calls out)) =
    slot_events k (out_events out) @ (if k \<in> set seen then [] else take 1 (slot_events k (map call_event calls)))"
  using assms
proof (induction calls arbitrary: out seen)
  case (Cons x calls)
  let ?out = "recordEvent (cl_Variant x) (cl_Type x) (cl_Reason x) (cl_Message x) out"
  have rest: "record_all (x # calls) out = record_all calls ?out" by (simp add: record_all_def)
  obtain seen' where step: "out_tracker ?out = Some seen'" "out_recorder ?out"
    "slot_events k (out_events ?out) = slot_events k (out_events out) @ (if k \<in> set seen then [] else slot_events k [call_event x])"
    "k \<in> set seen' \<longleftrightarrow> k \<in> set seen \<or> k = va_key (cl_Variant x) \<and> cl_Reason x \<noteq> K8SEventResourceConstrained"
    using recordEvent_slot [OF Cons.prems, of "cl_Variant x" "cl_Type x" "cl_Reason x" "cl_Message x" k] unfolding call_event_def by blast
  show ?case unfolding rest Cons.IH [OF step(2,1)] step(3,4) by (auto simp: slot_events_def call_event_def)
qed (simp add: record_all_def slot_events_def)

text \<open>One event per variant and cycle: whatever events a cycle asks for, of each variant exactly the first is
  recorded, so a refusal raised ahead of the decisions keeps its slot; only notices of constrained
  resources are recorded beside it.\<close>

theorem one_event_per_variant:
  assumes "out_recorder out"
  shows "slot_events k (out_events (record_all calls (out\<lparr>out_tracker := Some [], out_events := []\<rparr>))) =
    take 1 (slot_events k (map call_event calls))"
  using record_all_slots [of "out\<lparr>out_tracker := Some [], out_events := []\<rparr>" "[]" k calls] assms
  by (simp add: slot_events_def)

lemma one_event_per_variant_witness:
  "slot_events ''ns/a'' (out_events (record_all
      [\<lparr>cl_Variant = example_va ''a'' [], cl_Type = EventWarning, cl_Reason = K8SEventOptimizationRefused, cl_Message = []\<rparr>,
       \<lparr>cl_Variant = example_va ''a'' [], cl_Type = EventNormal, cl_Reason = K8SEventScaledUp, cl_Message = []\<rparr>]
      (example_out\<lparr>out_tracker := Some [], out_events := []\<rparr>))) =
    [\<lparr>ev_Variant = ''ns/a'', ev_Type = EventWarning, ev_Reason = K8SEventOptimizationRefused, ev_Message = []\<rparr>]"
  using one_event_per_variant [of example_out "''ns/a''"
      "[\<lparr>cl_Variant = example_va ''a'' [], cl_Type = EventWarning, cl_Reason = K8SEventOptimizationRefused, cl_Message = []\<rparr>,
       \<lparr>cl_Variant = example_va ''a'' [], cl_Type = EventNormal, cl_Reason = K8SEventScaledUp, cl_Message = []\<rparr>]"]
  by (simp add: example_out_def slot_events_def call_event_def va_key_def GetNamespacedKey_def example_va_def event_reasons)

end
