(* ===== verification/Engine_Cycle.thy ===== *)
theory Engine_Cycle
  imports V2_Cycle Emission
begin

text \<open>
  One cycle of the engine (\<open>engine.go\<close>): the limiter is refreshed from the configuration, the active
  variants are found and grouped by model, the data of every model is prepared, the configured path runs
  (percentage-based, token-based, or refused), and the outcome is applied to every active variant.
  The metrics collector and the node inventory are arguments; logging and the gauges about the process
  itself are left out.
\<close>

section \<open>Data of a model\<close>

record metrics_collector =
  mc_ReplicaMetrics :: "string \<Rightarrow> string \<Rightarrow> (string, scale_target) gomap \<Rightarrow> (string, variant_autoscaling) gomap \<Rightarrow> (string, gofloat) gomap \<Rightarrow>
    string + replica_metrics_v2 list"
  mc_SchedulerQueue :: "string \<Rightarrow> scheduler_queue option"
  mc_ArrivalRate :: "string \<Rightarrow> string \<Rightarrow> gofloat"

record prepared_data =
  pd_ReplicaMetrics :: "replica_metrics_v2 list"
  pd_ScaleTargets :: "(string, scale_target) gomap"
  pd_VariantAutoscalings :: "(string, variant_autoscaling) gomap"
  pd_VariantCosts :: "(string, gofloat) gomap"
  pd_VariantStates :: "variant_replica_state list"
  pd_SchedulerQueue :: "scheduler_queue option"
  pd_ArrivalRate :: gofloat

definition variant_cost :: "(string \<Rightarrow> gofloat option) \<Rightarrow> variant_autoscaling \<Rightarrow> gofloat" where
  "variant_cost pf va = (if va_VariantCost va = [] then DefaultVariantCost
     else case pf (va_VariantCost va) of Some cost \<Rightarrow> cost | None \<Rightarrow> DefaultVariantCost)"

definition add_variant_data :: "api_client \<Rightarrow> (string \<Rightarrow> gofloat option) \<Rightarrow> variant_autoscaling \<Rightarrow>
    (string, scale_target) gomap \<times> (string, variant_autoscaling) gomap \<times> (string, gofloat) gomap \<Rightarrow>
    (string, scale_target) gomap \<times> (string, variant_autoscaling) gomap \<times> (string, gofloat) gomap" where
  "add_variant_data c pf va maps = (case FetchScaleTarget c (va_Kind va) (va_TargetName va) (va_Namespace va) of
     Inl _ \<Rightarrow> maps
   | Inr t \<Rightarrow> (case maps of (targets, vas, costs) \<Rightarrow>
       (mput (GetNamespacedKey (va_Namespace va) (va_TargetName va)) t targets, mput (va_key va) va vas, mput (va_key va) (variant_cost pf va) costs)))"

text \<open>An error, nothing to analyze, or the data of the model.\<close>

definition prepareModelData :: "api_client \<Rightarrow> (string \<Rightarrow> gofloat option) \<Rightarrow> metrics_collector \<Rightarrow> string \<Rightarrow> variant_autoscaling list \<Rightarrow>
    string + prepared_data option" where
  "prepareModelData c pf mc modelID modelVAs =
     (if modelVAs = [] then Inl (''no VAs provided for model '' @ modelID)
      else let namespace = va_Namespace (hd modelVAs);
               (targets, vas, costs) = fold (add_variant_data c pf) modelVAs ([], [], [])
           in case mc_ReplicaMetrics mc modelID namespace targets vas costs of
                Inl e \<Rightarrow> Inl (''failed to collect Saturation metrics for model '' @ modelID @ '': '' @ e)
              | Inr metrics \<Rightarrow> if metrics = [] then Inr None
                  else Inr (Some \<lparr>pd_ReplicaMetrics = metrics, pd_ScaleTargets = targets, pd_VariantAutoscalings = vas, pd_VariantCosts = costs,
                    pd_VariantStates = BuildVariantStates c modelVAs targets, pd_SchedulerQueue = mc_SchedulerQueue mc modelID,
                    pd_ArrivalRate = mc_ArrivalRate mc modelID namespace\<rparr>))"

definition target_template :: "scale_target \<Rightarrow> pod_template" where
  "target_template t = Some (ps_Containers (GetLeaderPodTemplateSpec t))"

definition target_templates :: "(string, scale_target) gomap \<Rightarrow> (string, pod_template) gomap" where
  "target_templates = map (\<lambda>(key, t). (key, target_template t))"

text \<open>The data as the token-based path takes it: the targets its capacity store is filled from, and the
  input of the analyzers.\<close>

definition variant_target_of :: "(string, scale_target) gomap \<Rightarrow> variant_autoscaling \<Rightarrow> variant_target option" where
  "variant_target_of targets va = map_option (\<lambda>t.
     \<lparr>vt_Name = va_Name va, vt_Accelerator = GetAcceleratorNameFromScaleTarget (Some va) (Some t),
      vt_GpuCount = GetTotalGPUsPerReplica t, vt_Target = Some (target_template t)\<rparr>)
     (map_of targets (GetNamespacedKey (va_Namespace va) (va_TargetName va)))"

definition model_data_of :: "prepared_data \<Rightarrow> model_data" where
  "model_data_of d =
     \<lparr>md_input = \<lparr>in_ModelID = [], in_Namespace = [], in_ReplicaMetrics = pd_ReplicaMetrics d, in_VariantStates = pd_VariantStates d,
        in_Config = None, in_SchedulerQueue = pd_SchedulerQueue d, in_ArrivalRate = pd_ArrivalRate d\<rparr>,
      md_targets = List.map_filter (\<lambda>(_, va). variant_target_of (pd_ScaleTargets d) va) (pd_VariantAutoscalings d),
      md_templates = target_templates (pd_ScaleTargets d)\<rparr>"

definition model_group_of :: "api_client \<Rightarrow> (string \<Rightarrow> gofloat option) \<Rightarrow> metrics_collector \<Rightarrow> string \<times> variant_autoscaling list \<Rightarrow> model_group" where
  "model_group_of c pf mc g =
     \<lparr>mg_ModelID = fst (group_model g), mg_Namespace = snd (group_model g),
      mg_data = (case prepareModelData c pf mc (fst (group_model g)) (snd g) of
        Inl e \<Rightarrow> Inl e | Inr d \<Rightarrow> Inr (map_option model_data_of d))\<rparr>"

section \<open>The percentage-based path\<close>

definition normalizeRole :: "string \<Rightarrow> string" where
  "normalizeRole role = (if role = [] then RoleBoth else role)"

definition groupByRole :: "variant_replica_state list \<Rightarrow> (string, variant_replica_state list) gomap" where
  "groupByRole states = fold (\<lambda>s groups. mput (normalizeRole (st_Role s)) (mget [] groups (normalizeRole (st_Role s)) @ [s]) groups) states []"

definition sortedRoleKeys :: "(string, variant_replica_state list) gomap \<Rightarrow> string list" where
  "sortedRoleKeys groups = sort (mkeys groups)"

definition filterReplicaMetricsByVariants :: "replica_metrics_v2 list \<Rightarrow> variant_replica_state list \<Rightarrow> replica_metrics_v2 list" where
  "filterReplicaMetricsByVariants metrics states = filter (\<lambda>m. rm_VariantName m \<in> st_VariantName ` set states) metrics"

definition filterVAsByVariantStates :: "variant_autoscaling list \<Rightarrow> variant_replica_state list \<Rightarrow> variant_autoscaling list" where
  "filterVAsByVariantStates vas states = filter (\<lambda>va. va_Name va \<in> st_VariantName ` set states) vas"

definition analyze_role :: "string \<Rightarrow> string \<Rightarrow> saturation_scaling_config \<Rightarrow> replica_metrics_v2 list \<Rightarrow> variant_replica_state list \<Rightarrow> variant_decision list" where
  "analyze_role modelID namespace cfg metrics states =
     (let analysis = AnalyzeModelSaturation modelID namespace (map replica_metrics.truncate metrics) cfg
      in convertSaturationTargetsToDecisions (CalculateSaturationTargets (Some analysis) states) analysis states)"

text \<open>One role group: its decisions, or the safety net for its variants when it has no metrics.\<close>

definition role_step :: "string \<Rightarrow> string \<Rightarrow> saturation_scaling_config \<Rightarrow> prepared_data \<Rightarrow> variant_autoscaling list \<Rightarrow> (string, allocation) gomap \<Rightarrow>
    string \<Rightarrow> variant_decision list \<times> engine_output \<Rightarrow> variant_decision list \<times> engine_output" where
  "role_step modelID namespace cfg data modelVAs allocs role acc =
     (let states = mget [] (groupByRole (pd_VariantStates data)) role;
          metrics = filterReplicaMetricsByVariants (pd_ReplicaMetrics data) states
      in if metrics = [] then
           (fst acc, emitSafetyNetMetrics allocs (Some (pd_ScaleTargets data)) (filterVAsByVariantStates modelVAs states) (snd acc))
         else (fst acc @ analyze_role modelID namespace cfg metrics states, snd acc))"

definition analyzeRoleGroups :: "string \<Rightarrow> string \<Rightarrow> saturation_scaling_config \<Rightarrow> prepared_data \<Rightarrow> variant_autoscaling list \<Rightarrow> (string, allocation) gomap \<Rightarrow>
    engine_output \<Rightarrow> variant_decision list \<times> engine_output" where
  "analyzeRoleGroups modelID namespace cfg data modelVAs allocs out =
     fold (role_step modelID namespace cfg data modelVAs allocs) (sortedRoleKeys (groupByRole (pd_VariantStates data))) ([], out)"

text \<open>One model: skipped without configuration, safety net on missing data, otherwise its decisions after
  the scale-to-zero policy.\<close>

definition v1_group :: "api_client \<Rightarrow> metrics_collector \<Rightarrow> engine_env \<Rightarrow> (string, allocation) gomap \<Rightarrow> string \<times> variant_autoscaling list \<Rightarrow>
    variant_decision list \<times> engine_output \<Rightarrow> variant_decision list \<times> engine_output" where
  "v1_group c mc env allocs g acc =
     (let (modelID, namespace) = group_model g; modelVAs = snd g; (ds, out) = acc; configMap = live_resolve (ee_config env) namespace in
      if configMap = [] then acc
      else case prepareModelData c (ee_parseFloat env) mc modelID modelVAs of
        Inl _ \<Rightarrow> (ds, emitSafetyNetMetrics allocs None modelVAs (recordOptimizationFailedEvent modelVAs ''Saturation data preparation failed'' out))
      | Inr None \<Rightarrow> (ds, emitSafetyNetMetrics allocs None modelVAs
          (recordOptimizationFailedEvent modelVAs ''No saturation metrics available for model'' out))
      | Inr (Some data) \<Rightarrow>
          (let (modelDs, out') = analyzeRoleGroups modelID namespace (resolveSaturationConfig configMap modelID namespace) data modelVAs allocs out;
               (_, enforced) = applyScaleToZeroEnforcement (ee_requestCount env) (ee_env env) (ee_config env) (ee_scaleToZero env)
                 modelID namespace ''v1-saturation'' (target_templates (pd_ScaleTargets data)) (pd_VariantStates data) modelDs
           in (ds @ enforced, out')))"

definition globalConfig :: "live_config \<Rightarrow> saturation_scaling_config" where
  "globalConfig c = mget zero_config (lc_global c) ''default''"

text \<open>The limiter writes into the decisions it is given: on an error those it reached stay as it left them.\<close>

definition optimizeV1 :: "api_client \<Rightarrow> metrics_collector \<Rightarrow> engine_env \<Rightarrow> (string, allocation) gomap \<Rightarrow> (string, variant_autoscaling list) gomap \<Rightarrow>
    engine_output \<Rightarrow> variant_decision list \<times> limiter \<times> engine_output" where
  "optimizeV1 c mc env allocs groups out =
     (let (ds, out') = fold (v1_group c mc env allocs) groups ([], out) in
      if sc_EnableLimiter (globalConfig (ee_config env)) \<and> ds \<noteq> [] then
        (let (_, ds', limiter') = limit (ee_discovered env) (ee_limiter env) ds in (ds', limiter', out'))
      else (ds, ee_limiter env, out'))"

section \<open>The token-based path\<close>

text \<open>What the collection of one model writes out, beside the request it gives.\<close>

definition v2_group_output :: "api_client \<Rightarrow> metrics_collector \<Rightarrow> engine_env \<Rightarrow> (string, allocation) gomap \<Rightarrow> int \<Rightarrow> string \<times> variant_autoscaling list \<Rightarrow>
    engine_state \<times> engine_output \<Rightarrow> engine_state \<times> engine_output" where
  "v2_group_output c mc env allocs now g acc =
     (let (st, out) = acc; modelVAs = snd g; (request, st') = collect_group env now (model_group_of c (ee_parseFloat env) mc g) st in
      if live_resolve (ee_config env) (snd (group_model g)) = [] then (st', out)
      else case prepareModelData c (ee_parseFloat env) mc (fst (group_model g)) modelVAs of
        Inl _ \<Rightarrow> (st', emitSafetyNetMetrics allocs None modelVAs (recordOptimizationFailedEvent modelVAs ''Model data preparation failed'' out))
      | Inr None \<Rightarrow> (st', out)
      | Inr (Some data) \<Rightarrow> (case request of
          Some _ \<Rightarrow> (st', out)
        | None \<Rightarrow> (st', emitSafetyNetMetrics allocs (Some (pd_ScaleTargets data)) modelVAs
            (recordOptimizationFailedEvent modelVAs ''V2 analysis failed'' out))))"

definition UnitContinuous :: string where "UnitContinuous = ''continuous''"

text \<open>The metrics of a model are filed under its name alone, so the last of two namespaces wins.\<close>

definition enrichDecisionsWithKvTokenData :: "(string, replica_metrics_v2 list) gomap \<Rightarrow> variant_decision list \<Rightarrow> enriched list" where
  "enrichDecisionsWithKvTokenData modelReplicaMetrics ds = map (\<lambda>d.
     let ms = filter (\<lambda>m. rm_VariantName m = d_VariantName d) (mget [] modelReplicaMetrics (d_ModelID d)) in
     (d, \<lparr>kv_Unit = UnitContinuous, kv_Used = (\<Sum>m\<leftarrow>ms. rm_TokensInUse m),
       kv_Capacity = (\<Sum>m\<leftarrow>ms. rm_TotalKvCapacityTokens m)\<rparr>)) ds"

fun collected_metrics :: "engine_env \<Rightarrow> int \<Rightarrow> model_group list \<Rightarrow> engine_state \<Rightarrow> (string, replica_metrics_v2 list) gomap \<Rightarrow>
    (string, replica_metrics_v2 list) gomap" where
  "collected_metrics env now [] st m = m"
| "collected_metrics env now (g # gs) st m =
     (case collect_group env now g st of
        (Some (_, data), st') \<Rightarrow> collected_metrics env now gs st' (mput (mg_ModelID g) (in_ReplicaMetrics (md_input data)) m)
      | (None, st') \<Rightarrow> collected_metrics env now gs st' m)"

definition run_v2 :: "nat \<Rightarrow> api_client \<Rightarrow> metrics_collector \<Rightarrow> engine_env \<Rightarrow> (string, allocation) gomap \<Rightarrow> int \<Rightarrow> (string, variant_autoscaling list) gomap \<Rightarrow>
    engine_state \<Rightarrow> engine_output \<Rightarrow> enriched list option \<times> engine_state \<times> engine_output" where
  "run_v2 rounds c mc env allocs now groups st out =
     (let model_groups = map (model_group_of c (ee_parseFloat env) mc) groups;
          pruned = st\<lparr>es_lastGood := pruneLastGoodAnalysis ((\<lambda>g. GetNamespacedKey (mg_Namespace g) (mg_ModelID g)) ` set model_groups) (es_lastGood st)\<rparr>;
          (ds, st') = optimizeV2 rounds env now model_groups st;
          (_, out') = fold (v2_group_output c mc env allocs now) groups (pruned, out)
      in (map_option (enrichDecisionsWithKvTokenData (collected_metrics env now model_groups pruned [])) ds, st', out'))"

section \<open>Limiter, analyzers, and the cycle\<close>

definition QueueingModelAnalyzerName :: string where "QueueingModelAnalyzerName = ''queueing-model''"

type_synonym limiter_signature = "string \<times> quota_limiter_config list"

record engine =
  eg_env :: engine_env
  eg_state :: engine_state
  eg_limiterBuilder :: "(string \<Rightarrow> quota_limiter_config list \<Rightarrow> factory_error + limiter) option"
  eg_limiterSig :: "limiter_signature option"
  eg_analyzers :: "analyzer_entry list"
  eg_started :: bool
  eg_limitedMode :: bool

definition limiterSignature :: "live_config \<Rightarrow> limiter_signature" where
  "limiterSignature c = (EffectiveLimiterMode c, EffectiveQuotaEntries c)"

definition SetLimiterBuilder :: "(string \<Rightarrow> quota_limiter_config list \<Rightarrow> factory_error + limiter) option \<Rightarrow> engine \<Rightarrow> engine" where
  "SetLimiterBuilder builder e = e\<lparr>eg_limiterBuilder := builder, eg_limiterSig := Some (limiterSignature (ee_config (eg_env e)))\<rparr>"

definition refreshLimiter :: "engine \<Rightarrow> engine" where
  "refreshLimiter e = (case eg_limiterBuilder e of
     None \<Rightarrow> e
   | Some builder \<Rightarrow>
      (let cfg = ee_config (eg_env e); sig = limiterSignature cfg in
       if eg_limiterSig e = Some sig then e
       else case builder (EffectiveLimiterMode cfg) (EffectiveQuotaEntries cfg) of
         Inl _ \<Rightarrow> e
       | Inr l \<Rightarrow> e\<lparr>eg_env := (eg_env e)\<lparr>ee_limiter := l\<rparr>, eg_limiterSig := Some sig\<rparr>))"

datatype register_error = AfterStart | DuplicateAnalyzer string

definition RegisterAnalyzer :: "analyzer_entry \<Rightarrow> engine \<Rightarrow> register_error option \<times> engine" where
  "RegisterAnalyzer entry e =
     (if eg_started e then (Some AfterStart, e)
      else if list_ex (\<lambda>x. ae_name x = ae_name entry) (eg_analyzers e) then (Some (DuplicateAnalyzer (ae_name entry)), e)
      else (None, e\<lparr>eg_analyzers := eg_analyzers e @ [entry]\<rparr>))"

definition StartOptimizeLoop :: "engine \<Rightarrow> engine" where
  "StartOptimizeLoop e = e\<lparr>eg_env := (eg_env e)\<lparr>ee_entries := eg_analyzers e\<rparr>, eg_started := True\<rparr>"

definition shouldCollectClusterInventory :: "live_config \<Rightarrow> bool" where
  "shouldCollectClusterInventory c \<longleftrightarrow> EffectiveLimiterMode c = LimiterTypeInventory"

definition modeLabelForAnalyzer :: "string \<Rightarrow> string" where
  "modeLabelForAnalyzer name = (if name = QueueingModelAnalyzerName then QueueingModelAnalyzerName
     else if name = SaturationAnalyzerName then SaturationAnalyzerName else ''saturation-only'')"

text \<open>The analyzer of the cycle and whether the limiter is enabled.\<close>

definition selectAnalyzer :: "bool \<Rightarrow> live_config \<Rightarrow> string \<times> bool" where
  "selectAnalyzer hasQMAnalyzerConfig c =
     (let (name, limited) = (case map_of (lc_global c) ''default'' of
        Some cfg \<Rightarrow> (let cfg' = ApplyDefaults cfg in (GetAnalyzerName cfg', sc_EnableLimiter cfg')) | None \<Rightarrow> ([], False))
      in (if hasQMAnalyzerConfig then QueueingModelAnalyzerName else name, limited))"

definition select_optimizer :: "string \<Rightarrow> bool \<Rightarrow> engine_env \<Rightarrow> engine_env" where
  "select_optimizer analyzerName enableLimiter env =
     (if analyzerName = SaturationAnalyzerName \<or> analyzerName = QueueingModelAnalyzerName
      then env\<lparr>ee_optimizer := (if enableLimiter then GreedyByScoreOptimizer else CostAwareOptimizer)\<rparr> else env)"

definition va_map :: "variant_autoscaling list \<Rightarrow> (string, variant_autoscaling) gomap" where
  "va_map vas = fold (\<lambda>va. mput (va_key va) va) vas []"

text \<open>What a cycle meets: the time, the listed autoscalers, when the context is found cancelled, the outcome
  of collecting the inventory, and whether a queueing-model configuration is present.\<close>

record cycle_input =
  cy_now :: int
  cy_HPAs :: "string + autoscaler list"
  cy_ScaledObjects :: "autoscaler list list_result"
  cy_instance :: string
  cy_cancelled :: "nat \<Rightarrow> bool"
  cy_inventoryError :: "string option"
  cy_hasQMAnalyzerConfig :: bool

definition active_variants :: "api_client \<Rightarrow> engine \<Rightarrow> cycle_input \<Rightarrow> variant_autoscaling list option" where
  "active_variants c e cy = map_option fst (ActiveVariantAutoscaling c (cy_cancelled cy)
     (readyVariantAutoscalings (ee_parseFloat (eg_env e)) (cy_HPAs cy) (cy_ScaledObjects cy) (cy_instance cy)))"

text \<open>The configured path on the groups of a cycle: the decisions, and the engine and output it leaves.
  \<^const>\<open>None\<close> tells that the rounds given to the fair-share optimizer did not suffice.\<close>

definition dispatch :: "nat \<Rightarrow> api_client \<Rightarrow> metrics_collector \<Rightarrow> string \<Rightarrow> int \<Rightarrow> (string, variant_autoscaling list) gomap \<Rightarrow> engine \<Rightarrow>
    engine_output \<Rightarrow> (enriched list \<times> engine \<times> engine_output) option" where
  "dispatch rounds c mc analyzerName now groups e out =
     (if analyzerName = QueueingModelAnalyzerName then Some ([], e, recordOptimizationRefusedEvent groups out)
      else if analyzerName = SaturationAnalyzerName then
        (case run_v2 rounds c mc (eg_env e) [] now groups (eg_state e) out of
           (Some ds, st', out') \<Rightarrow> Some (ds, e\<lparr>eg_state := st'\<rparr>, out')
         | (None, _, _) \<Rightarrow> None)
      else (case optimizeV1 c mc (eg_env e) [] groups out of
        (ds, limiter', out') \<Rightarrow> Some (map (\<lambda>d. (d, zero_kv)) ds, e\<lparr>eg_env := (eg_env e)\<lparr>ee_limiter := limiter'\<rparr>\<rparr>, out')))"

text \<open>The map of current allocations stays empty throughout.\<close>

definition optimize :: "nat \<Rightarrow> api_client \<Rightarrow> metrics_collector \<Rightarrow> cycle_input \<Rightarrow> engine \<Rightarrow> engine_output \<Rightarrow>
    (string option \<times> engine \<times> engine_output) option" where
  "optimize rounds c mc cy e0 out0 =
     (let e = refreshLimiter e0; cfg = ee_config (eg_env e) in
      case active_variants c e cy of
        None \<Rightarrow> Some (Some ''context done'', e, out0)
      | Some activeVAs \<Rightarrow>
         (let out = out0\<lparr>out_tracker := Some []\<rparr>; (analyzerName, enableLimiter) = selectAnalyzer (cy_hasQMAnalyzerConfig cy) cfg;
              e1 = e\<lparr>eg_env := select_optimizer analyzerName enableLimiter (eg_env e)\<rparr>
          in if activeVAs = [] then Some (None, e, out0)
             else if eg_limitedMode e \<and> shouldCollectClusterInventory cfg \<and> cy_inventoryError cy \<noteq> None then Some (cy_inventoryError cy, e, out)
             else map_option (\<lambda>(ds, e', out').
               (None, e', applySaturationDecisions c [] (analyzerName = QueueingModelAnalyzerName) ds (va_map activeVAs) out'))
               (dispatch rounds c mc analyzerName (cy_now cy) (GroupVariantAutoscalingByModel activeVAs) e1 out)))"

section \<open>What discovery gives\<close>

lemma discovered_fields:
  assumes "va \<in> set (discovered (VariantAutoscalingFromHPA pf) xs) \<or> va \<in> set (discovered (VariantAutoscalingFromScaledObject pf) xs)"
  shows "va_NumReplicas va = None \<and> va_TargetName va \<noteq> [] \<and> va_Accelerator va = []"
  using assms
  by (auto simp: discovered_def List.map_filter_def VariantAutoscalingFromHPA_def VariantAutoscalingFromScaledObject_def variant_of_autoscaler_def
      split: sum.splits option.splits if_splits)

lemma add_variants_values:
  assumes "\<forall>va\<in>snd ` set m. P va" and "\<forall>va\<in>set (discovered build xs). P va"
  shows "\<forall>va\<in>snd ` set (add_variants build xs m). P va"
proof -
  have "\<forall>va\<in>snd ` set m. P va \<Longrightarrow> \<forall>va\<in>set vas. P va \<Longrightarrow> \<forall>va\<in>snd ` set (fold (\<lambda>va. mput (target_key va) va) vas m). P va" for vas
  proof (induction vas arbitrary: m)
    case (Cons v vas)
    then have "\<forall>x\<in>snd ` set (mput (target_key v) v m). P x" by (intro ball_mput) auto
    then show ?case using Cons.IH Cons.prems(2) by simp
  qed simp
  then show ?thesis using assms unfolding add_variants_discovered by blast
qed

definition fresh_variant :: "variant_autoscaling \<Rightarrow> bool" where
  "fresh_variant va \<longleftrightarrow> va_NumReplicas va = None \<and> va_TargetName va \<noteq> [] \<and> va_Accelerator va = []"

lemma ready_variants_fresh: "\<forall>va\<in>set (readyVariantAutoscalings pf hpas sos inst). fresh_variant va"
proof -
  have fields: "\<forall>va\<in>set (discovered (VariantAutoscalingFromHPA pf) hs). fresh_variant va"
    "\<forall>va\<in>set (discovered (VariantAutoscalingFromScaledObject pf) ss). fresh_variant va" for hs ss
    using discovered_fields by (auto simp: fresh_variant_def)
  have hpa: "\<forall>va\<in>snd ` set (add_variants (VariantAutoscalingFromHPA pf) hs []). fresh_variant va" for hs
    by (rule add_variants_values [OF _ fields(1)]) simp
  have both: "\<forall>va\<in>snd ` set (add_variants (VariantAutoscalingFromScaledObject pf) ss (add_variants (VariantAutoscalingFromHPA pf) hs [])). fresh_variant va" for hs ss
    by (rule add_variants_values [OF hpa fields(2)])
  have "\<forall>va\<in>set (fst (annotationSourcedVariants pf hpas sos)). fresh_variant va"
  proof (cases hpas)
    case (Inr hs)
    then show ?thesis using hpa both by (cases sos) (simp_all add: annotationSourcedVariants_def Let_def)
  qed (simp add: annotationSourcedVariants_def)
  then show ?thesis by (simp add: readyVariantAutoscalings_def)
qed

lemma filter_variants_member:
  "filter_variants c keep cancelled i vas = Some found \<Longrightarrow> (va, t) \<in> set found \<Longrightarrow>
   va \<in> set vas \<and> readable_target c va = Some t \<and> keep t"
proof (induction vas arbitrary: i found)
  case (Cons v vas)
  then obtain rest where rest: "filter_variants c keep cancelled (Suc i) vas = Some rest"
    by (auto split: if_splits option.splits)
  have "(va, t) \<in> set rest \<or> va = v \<and> readable_target c v = Some t \<and> keep t"
    using Cons.prems rest by (auto simp: readable_target_def split: if_splits sum.splits)
  then show ?case using Cons.IH [OF rest] by auto
qed simp

lemma active_variants_facts:
  assumes "active_variants c e cy = Some vas" and "va \<in> set vas"
  shows "fresh_variant va" and "\<exists>t. readable_target c va = Some t \<and> 0 < GetDesiredReplicas t"
proof -
  let ?ready = "readyVariantAutoscalings (ee_parseFloat (eg_env e)) (cy_HPAs cy) (cy_ScaledObjects cy) (cy_instance cy)"
  obtain found where "filter_variants c isActive (cy_cancelled cy) 0 ?ready = Some found" and "vas = map fst found"
    using assms(1) by (auto simp: active_variants_def ActiveVariantAutoscaling_def filterVariantsByScaleTargetAccessor_def)
  then obtain t where "va \<in> set ?ready" "readable_target c va = Some t" "isActive t"
    using assms(2) filter_variants_member by fastforce
  then show "fresh_variant va" "\<exists>t. readable_target c va = Some t \<and> 0 < GetDesiredReplicas t"
    using ready_variants_fresh by (auto simp: isActive_def)
qed

lemma va_map_view: "map_of (va_map vas) k = find (\<lambda>va. va_key va = k) (rev vas)"
  by (induction vas rule: rev_induct) (simp_all add: va_map_def update_conv)

lemma va_map_wf: "wf_map (va_map vas)"
proof -
  have "wf_map m \<Longrightarrow> wf_map (fold (\<lambda>va. mput (va_key va) va) vas m)" for m
    by (induction vas arbitrary: m) auto
  then show ?thesis by (simp add: va_map_def)
qed

lemma va_map_entry:
  assumes "(key, va) \<in> set (va_map vas)"
  shows "va \<in> set vas" and "key = va_key va"
proof -
  have "map_of (va_map vas) key = Some va" using assms va_map_wf by simp
  then have "find (\<lambda>va. va_key va = key) (rev vas) = Some va" by (simp add: va_map_view)
  then show "va \<in> set vas" "key = va_key va" by (auto simp: find_Some_iff rev_nth)
qed

text \<open>The variants of a cycle, for the emission of its signals.\<close>

lemma va_map_distinct: "distinct (map (\<lambda>(key, va). (va_Name va, va_Namespace va)) (va_map vas))"
proof -
  have "inj_on (\<lambda>(key, va). (va_Name va, va_Namespace va)) (set (va_map vas))"
  proof (rule inj_onI)
    fix x y assume xy: "x \<in> set (va_map vas)" "y \<in> set (va_map vas)"
      and same: "(\<lambda>(key, va). (va_Name va, va_Namespace va)) x = (\<lambda>(key, va). (va_Name va, va_Namespace va)) y"
    then have "fst x = fst y" using va_map_entry(2) [of "fst x" "snd x"] va_map_entry(2) [of "fst y" "snd y"]
      by (simp add: va_key_def case_prod_unfold)
    then show "x = y" using xy va_map_wf by (metis eq_key_imp_eq_value prod.collapse)
  qed
  then show ?thesis using va_map_wf [of vas] by (simp add: distinct_map)
qed

lemma cycle_signals:
  assumes "recorded (out_gauges out)" and "\<forall>va\<in>set vas. plain_name (va_Name va)" and "(key, va) \<in> set (va_map vas)"
  shows "readings (out_gauges (applySaturationDecisions c [] refused ds (va_map vas) out)) (va_Name va) (va_Namespace va) =
    (let a = chosen_alloc c [] (map_of (decision_map ds) key) key va in {(accel_label (snd a), wrap32 (fst a))})"
proof -
  have "\<forall>(key, va)\<in>set (va_map vas). plain_name (va_Name va)" using assms(2) va_map_entry(1) by fast
  note view = conjunct2 [OF conjunct2 [OF apply_all_view [OF assms(1) this va_map_distinct, of c "[]" refused "decision_map ds"]]]
  from bspec [OF view assms(3)] show ?thesis by (simp add: applySaturationDecisions_def Let_def)
qed

lemma held_signal:
  assumes "recorded (out_gauges out)" and "\<forall>va\<in>set vas. plain_name (va_Name va)" and "(key, va) \<in> set (va_map vas)"
    and "map_of (decision_map ds) key = None" and "fresh_variant va" and "readable_target c va = Some t"
    and "GetReplicas t = Some n" and "0 \<le> n" and "n < 2 ^ 31"
  shows "\<exists>acc. readings (out_gauges (applySaturationDecisions c [] refused ds (va_map vas) out)) (va_Name va) (va_Namespace va) = {(acc, n)}"
proof -
  have "FetchScaleTarget c (va_Kind va) (va_TargetName va) (va_Namespace va) = Inr t"
    using assms(6) by (auto simp: readable_target_def split: if_splits sum.splits)
  then have "fst (held_alloc c [] key va) = n" using held_live assms(5,7) by (simp add: fresh_variant_def)
  then show ?thesis using cycle_signals [OF assms(1-3), of c refused ds] assms(4,8,9) wrap32_id [of n] by (simp add: chosen_alloc_def Let_def)
qed

section \<open>A refused cycle holds every variant\<close>

lemma recorded_events_gauges [simp]:
  "out_gauges (recordOptimizationRefusedEvent groups out) = out_gauges out"
  "out_gauges (recordOptimizationFailedEvent vas m out) = out_gauges out"
proof -
  have vas: "out_gauges (fold (\<lambda>va. recordEvent va t r m) vas out) = out_gauges out" for vas t r m out
    by (induction vas arbitrary: out) auto
  then show "out_gauges (recordOptimizationFailedEvent vas m out) = out_gauges out" by (simp add: recordOptimizationFailedEvent_def)
  show "out_gauges (recordOptimizationRefusedEvent groups out) = out_gauges out"
    unfolding recordOptimizationRefusedEvent_def by (induction groups arbitrary: out) (simp_all add: vas case_prod_unfold)
qed

lemma active_held:
  assumes "active_variants c e cy = Some vas" and "va \<in> set vas" and "readable_target c va = Some t" and "GetReplicas t = Some n"
  shows "fresh_variant va" and "0 < n"
  using active_variants_facts [OF assms(1,2)] assms(3,4) by (auto simp: GetDesiredReplicas_def)


section \<open>A cycle of the token-based path keeps every signal within bounds\<close>

text \<open>The bounds of a variant, as its autoscaler declares them, on the signal emitted for it.\<close>

definition signal_in_bounds :: "variant_autoscaling \<Rightarrow> scale_target \<Rightarrow> int \<Rightarrow> bool" where
  "signal_in_bounds va t n \<longleftrightarrow> (let current = st_CurrentReplicas (state_of_target va t) in
     (current < n \<longrightarrow> n \<le> va_MaxReplicas va) \<and>
     (n < current \<longrightarrow> (case va_MinReplicas va of Some k \<Rightarrow> k \<le> n | None \<Rightarrow> 0 \<le> n)))"

text \<open>What the API server admits: bounds and counts that are not negative and fit 32 bits, a positive maximum,
  and a replica count in every spec.\<close>

definition admitted :: "variant_autoscaling \<Rightarrow> scale_target \<Rightarrow> bool" where
  "admitted va t \<longleftrightarrow> 0 < va_MaxReplicas va \<and> va_MaxReplicas va < 2 ^ 31 \<and> (case va_MinReplicas va of Some k \<Rightarrow> 0 \<le> k | None \<Rightarrow> True) \<and>
     0 \<le> st_CurrentReplicas (state_of_target va t) \<and> st_CurrentReplicas (state_of_target va t) < 2 ^ 31 \<and>
     (case GetReplicas t of Some n \<Rightarrow> n < 2 ^ 31 | None \<Rightarrow> False)"

text \<open>The safety net and the events of a cycle leave recorded gauges.\<close>

lemma safety_net_recorded: "recorded g \<Longrightarrow> plain_name (va_Name va) \<Longrightarrow> recorded (safety_net allocs targets va g)"
  by (simp add: safety_net_def Let_def recorded.emit)

lemma emitSafetyNet_recorded:
  "recorded (out_gauges out) \<Longrightarrow> \<forall>va\<in>set vas. plain_name (va_Name va) \<Longrightarrow> recorded (out_gauges (emitSafetyNetMetrics allocs targets vas out))"
proof -
  have "recorded g \<Longrightarrow> \<forall>va\<in>set vas. plain_name (va_Name va) \<Longrightarrow> recorded (fold (safety_net allocs targets) vas g)" for g
    by (induction vas arbitrary: g) (auto simp: safety_net_recorded)
  then show "recorded (out_gauges out) \<Longrightarrow> \<forall>va\<in>set vas. plain_name (va_Name va) \<Longrightarrow> recorded (out_gauges (emitSafetyNetMetrics allocs targets vas out))"
    by (simp add: emitSafetyNetMetrics_def)
qed

lemma v2_group_output_recorded:
  assumes "recorded (out_gauges (snd acc))" and "\<forall>va\<in>set (snd g). plain_name (va_Name va)"
  shows "recorded (out_gauges (snd (v2_group_output c mc env allocs now g acc)))"
  using assms by (auto simp: v2_group_output_def Let_def case_prod_unfold intro!: emitSafetyNet_recorded split: sum.split option.split)

lemma v2_output_recorded:
  assumes "recorded (out_gauges (snd acc))" and "\<forall>g\<in>set gs. \<forall>va\<in>set (snd g). plain_name (va_Name va)"
  shows "recorded (out_gauges (snd (fold (v2_group_output c mc env allocs now) gs acc)))"
  using assms by (induction gs arbitrary: acc) (auto simp: v2_group_output_recorded)

text \<open>The targets of a model are those of its variants.\<close>

abbreviation target_name_key :: "variant_autoscaling \<Rightarrow> string" where
  "target_name_key va \<equiv> GetNamespacedKey (va_Namespace va) (va_TargetName va)"

lemma prepared_targets:
  "map_of (fst (fold (add_variant_data c pf) vas maps)) k = Some t \<Longrightarrow>
   map_of (fst maps) k = Some t \<or> (\<exists>va\<in>set vas. target_name_key va = k \<and> FetchScaleTarget c (va_Kind va) (va_TargetName va) (va_Namespace va) = Inr t)"
proof (induction vas arbitrary: maps)
  case (Cons va vas)
  have "map_of (fst (add_variant_data c pf va maps)) k = Some t \<Longrightarrow> map_of (fst maps) k = Some t \<or>
      target_name_key va = k \<and> FetchScaleTarget c (va_Kind va) (va_TargetName va) (va_Namespace va) = Inr t"
    by (auto simp: add_variant_data_def update_conv case_prod_unfold split: sum.splits if_splits)
  then show ?case using Cons.IH [of "add_variant_data c pf va maps"] Cons.prems by auto
qed simp

lemma prepared_states:
  assumes "prepareModelData c pf mc m vas = Inr (Some data)"
  shows "\<exists>targets. pd_VariantStates data = BuildVariantStates c vas targets \<and>
    (\<forall>k t. map_of targets k = Some t \<longrightarrow> (\<exists>va\<in>set vas. target_name_key va = k \<and>
      FetchScaleTarget c (va_Kind va) (va_TargetName va) (va_Namespace va) = Inr t))"
proof -
  let ?targets = "fst (fold (add_variant_data c pf) vas ([], [], []))"
  have "pd_VariantStates data = BuildVariantStates c vas ?targets"
    using assms by (auto simp: prepareModelData_def Let_def case_prod_unfold split: if_splits sum.splits)
  then show ?thesis using prepared_targets [of c pf vas "([], [], [])"] by auto
qed

lemma state_lookup:
  "distinct (map st_VariantName states) \<Longrightarrow> s \<in> set states \<Longrightarrow> mget zero_state (buildStateMap states) (st_VariantName s) = s"
  using mget_build_state_map [of states s] by (simp add: buildStateMap_def build_state_map_def)

lemma state_of_target_name: "st_VariantName (state_of_target va t) = va_Name va"
  by (simp add: state_of_target_def Let_def)

lemma state_of_variant:
  assumes "prepareModelData c pf mc m vas = Inr (Some data)" and "va \<in> set vas" and "distinct (map va_Name vas)"
    and "distinct (map target_name_key vas)" and "FetchScaleTarget c (va_Kind va) (va_TargetName va) (va_Namespace va) = Inr t"
  shows "mget zero_state (buildStateMap (pd_VariantStates data)) (va_Name va) = state_of_target va t"
proof -
  obtain targets where states: "pd_VariantStates data = BuildVariantStates c vas targets"
    and targets: "\<And>k t. map_of targets k = Some t \<Longrightarrow> \<exists>va\<in>set vas. target_name_key va = k \<and>
      FetchScaleTarget c (va_Kind va) (va_TargetName va) (va_Namespace va) = Inr t"
    using prepared_states [OF assms(1)] by blast
  have "lookup_target c targets va = Some t"
  proof (cases "map_of targets (target_name_key va)")
    case (Some t')
    then obtain va' where "va' \<in> set vas" "target_name_key va' = target_name_key va"
      "FetchScaleTarget c (va_Kind va') (va_TargetName va') (va_Namespace va') = Inr t'" using targets by blast
    moreover from this have "va' = va" using assms(2,4) by (meson distinct_map inj_onD)
    ultimately show ?thesis using Some assms(5) by (simp add: lookup_target_def)
  qed (simp add: lookup_target_def assms(5))
  then have "state_of_target va t \<in> set (pd_VariantStates data)"
    using assms(2) by (force simp: states BuildVariantStates_def List.map_filter_def)
  moreover have "distinct (map st_VariantName (pd_VariantStates data))"
    using assms(3) by (simp add: states states_names distinct_map_filter)
  ultimately show ?thesis using state_lookup by (metis state_of_target_name)
qed

lemma group_variants:
  assumes "\<forall>va\<in>set vas. CHR ''|'' \<notin> set (va_Namespace va)" and "distinct (map va_key vas)" and "distinct (map target_name_key vas)"
    and "g \<in> set (GroupVariantAutoscalingByModel vas)"
  shows "set (snd g) \<subseteq> set vas" and "\<forall>va\<in>set (snd g). (va_ModelID va, va_Namespace va) = group_model g"
    and "distinct (map va_Name (snd g))" and "distinct (map target_name_key (snd g))"
proof -
  have g: "snd g = filter (\<lambda>va. model_key va = fst g) vas" using group_is_filter [OF assms(4)] ..
  then show sub: "set (snd g) \<subseteq> set vas" by simp
  show model: "\<forall>va\<in>set (snd g). (va_ModelID va, va_Namespace va) = group_model g"
    using group_key [OF assms(1,4)] g by auto
  show "distinct (map target_name_key (snd g))" unfolding g using assms(3) by (rule distinct_map_filter)
  have keys: "distinct (map va_key (snd g))" unfolding g using assms(2) by (rule distinct_map_filter)
  have "inj_on va_Name (set (snd g))"
  proof (rule inj_onI)
    fix x y assume xy: "x \<in> set (snd g)" "y \<in> set (snd g)" "va_Name x = va_Name y"
    then have "va_key x = va_key y" using model by (metis va_key_def prod.inject)
    then show "x = y" using keys xy by (meson distinct_map inj_onD)
  qed
  then show "distinct (map va_Name (snd g))" using keys by (simp add: distinct_map)
qed

lemma decision_map_entry:
  "map_of (decision_map eds) key = Some x \<Longrightarrow> x \<in> set eds \<and> key = GetNamespacedKey (d_Namespace (fst x)) (d_VariantName (fst x))"
  by (induction eds rule: rev_induct) (auto simp: decision_map_def update_conv split: if_splits)

lemma enriched_decisions: "fst ` set (enrichDecisionsWithKvTokenData m ds) = set ds"
  by (force simp: enrichDecisionsWithKvTokenData_def Let_def)

text \<open>A decision applied to a variant was made for it.\<close>

lemma decision_of_variant:
  assumes "\<forall>va\<in>set vas. CHR ''|'' \<notin> set (va_Namespace va)" and "distinct (map va_key vas)" and "distinct (map target_name_key vas)"
    and "g \<in> set (map (model_group_of c pf mc) (GroupVariantAutoscalingByModel vas))" and "mg_data g = Inr (Some data)"
    and "of_model (mg_ModelID g) (mg_Namespace g) d" and "of_state (in_VariantStates (md_input data)) d"
    and "va \<in> set vas" and "va_key va = GetNamespacedKey (d_Namespace d) (d_VariantName d)" and "readable_target c va = Some t"
  shows "d_CurrentReplicas d = st_CurrentReplicas (state_of_target va t) \<and> d_MinReplicas d = va_MinReplicas va \<and>
    d_MaxReplicas d = (if va_MaxReplicas va > 0 then Some (va_MaxReplicas va) else None)"
proof -
  obtain grp where grp: "grp \<in> set (GroupVariantAutoscalingByModel vas)" and g: "g = model_group_of c pf mc grp"
    using assms(4) by auto
  note vs = group_variants [OF assms(1-3) grp]
  obtain p where p: "prepareModelData c pf mc (fst (group_model grp)) (snd grp) = Inr (Some p)" and data: "data = model_data_of p"
    using assms(5) by (auto simp: g model_group_of_def split: sum.splits)
  have states: "in_VariantStates (md_input data) = pd_VariantStates p" by (simp add: data model_data_of_def)
  obtain targets where "pd_VariantStates p = BuildVariantStates c (snd grp) targets" using prepared_states [OF p] by blast
  then have "st_VariantName ` set (pd_VariantStates p) \<subseteq> va_Name ` set (snd grp)"
    using states_names [of c "snd grp" targets] by (metis (no_types, lifting) filter_is_subset image_mono list.set_map)
  then obtain va' where va': "va' \<in> set (snd grp)" "va_Name va' = d_VariantName d"
    using assms(7) by (auto simp: of_state_def states)
  have "group_model grp = (va_ModelID va', va_Namespace va')" using vs(2) va'(1) by simp
  then have "va_Namespace va' = d_Namespace d" using assms(6) by (simp add: g model_group_of_def of_model_def)
  then have "va_key va' = va_key va" using assms(9) va'(2) by (simp add: va_key_def)
  then have same: "va' = va" using assms(2,8) va'(1) vs(1) by (meson distinct_map inj_onD subsetD)
  have "FetchScaleTarget c (va_Kind va) (va_TargetName va) (va_Namespace va) = Inr t"
    using assms(10) by (auto simp: readable_target_def split: if_splits sum.splits)
  from state_of_variant [OF p _ vs(3,4) this] va' same
  have "mget zero_state (buildStateMap (pd_VariantStates p)) (d_VariantName d) = state_of_target va t" by simp
  then show ?thesis using assms(7) by (simp add: of_state_def states state_of_target_def Let_def)
qed

lemma bounds_of_decision:
  assumes "decision_in_bounds d" and "d_CurrentReplicas d = st_CurrentReplicas (state_of_target va t)" and "d_MinReplicas d = va_MinReplicas va"
    and "d_MaxReplicas d = (if va_MaxReplicas va > 0 then Some (va_MaxReplicas va) else None)" and "admitted va t"
  shows "wrap32 (d_TargetReplicas d) = d_TargetReplicas d \<and> signal_in_bounds va t (d_TargetReplicas d)"
proof -
  have bounds: "st_CurrentReplicas (state_of_target va t) < d_TargetReplicas d \<longrightarrow> d_TargetReplicas d \<le> va_MaxReplicas va"
    "d_TargetReplicas d < st_CurrentReplicas (state_of_target va t) \<longrightarrow>
      (case va_MinReplicas va of Some k \<Rightarrow> k \<le> d_TargetReplicas d | None \<Rightarrow> 0 \<le> d_TargetReplicas d)"
    using assms by (auto simp: decision_in_bounds_def admitted_def)
  then have "0 \<le> d_TargetReplicas d \<and> d_TargetReplicas d < 2 ^ 31"
    using assms(5) by (auto simp: admitted_def split: option.splits)
  then show ?thesis using bounds wrap32_id [of "d_TargetReplicas d"] by (simp add: signal_in_bounds_def Let_def)
qed

text \<open>The token-based path on the groups of the active variants.\<close>

lemma v2_dispatch:
  assumes "ee_optimizer (eg_env e) = CostAwareOptimizer" and "\<forall>va\<in>set vas. CHR ''|'' \<notin> set (va_Namespace va)"
    and "distinct (map va_key vas)" and "distinct (map target_name_key vas)" and "recorded (out_gauges out)"
    and "\<forall>va\<in>set vas. plain_name (va_Name va)"
  shows "\<exists>ds e' out'. dispatch rounds c mc SaturationAnalyzerName now (GroupVariantAutoscalingByModel vas) e out = Some (ds, e', out') \<and>
    recorded (out_gauges out') \<and> (\<forall>d\<in>fst ` set ds. decision_in_bounds d \<and>
      (\<exists>g\<in>set (map (model_group_of c (ee_parseFloat (eg_env e)) mc) (GroupVariantAutoscalingByModel vas)). \<exists>data.
        mg_data g = Inr (Some data) \<and> of_model (mg_ModelID g) (mg_Namespace g) d \<and> of_state (in_VariantStates (md_input data)) d))"
proof -
  let ?groups = "GroupVariantAutoscalingByModel vas" and ?pf = "ee_parseFloat (eg_env e)"
  let ?gs = "map (model_group_of c ?pf mc) ?groups"
  have "map (\<lambda>g. (mg_ModelID g, mg_Namespace g)) ?gs = map group_model ?groups" by (simp add: model_group_of_def comp_def)
  then have distinct_models: "distinct (map (\<lambda>g. (mg_ModelID g, mg_Namespace g)) ?gs)" using group_models_distinct [OF assms(2)] by (simp only:)
  have distinct_names: "\<forall>g\<in>set ?gs. \<forall>data. mg_data g = Inr (Some data) \<longrightarrow> distinct (map st_VariantName (in_VariantStates (md_input data)))"
  proof (intro ballI allI impI)
    fix g data assume "g \<in> set ?gs" and data: "mg_data g = Inr (Some data)"
    then obtain grp p where grp: "grp \<in> set ?groups" and "prepareModelData c ?pf mc (fst (group_model grp)) (snd grp) = Inr (Some p)"
      and p: "data = model_data_of p" by (auto simp: model_group_of_def split: sum.splits)
    from prepared_states [OF this(2)] obtain targets where "pd_VariantStates p = BuildVariantStates c (snd grp) targets" by blast
    then show "distinct (map st_VariantName (in_VariantStates (md_input data)))"
      using group_variants(3) [OF assms(2-4) grp] by (simp add: p model_data_of_def states_names distinct_map_filter)
  qed
  obtain ds where ds: "fst (optimizeV2 rounds (eg_env e) now ?gs (eg_state e)) = Some ds" and
    ok: "\<forall>d\<in>set ds. decision_in_bounds d \<and> (\<exists>g\<in>set ?gs. \<exists>data. mg_data g = Inr (Some data) \<and> of_model (mg_ModelID g) (mg_Namespace g) d \<and>
      of_state (in_VariantStates (md_input data)) d)"
    using v2_cycle_decisions [OF disjI1 [OF assms(1)] distinct_models distinct_names, of rounds now "eg_state e"] by blast
  have plain: "\<forall>g\<in>set ?groups. \<forall>va\<in>set (snd g). plain_name (va_Name va)"
    using group_variants(1) [OF assms(2-4)] assms(6) by blast
  obtain r st' out' where run: "run_v2 rounds c mc (eg_env e) [] now ?groups (eg_state e) out = (r, st', out')" by (metis prod_cases3)
  have "recorded (out_gauges out')" using run v2_output_recorded [OF _ plain] assms(5)
    by (auto simp: run_v2_def Let_def case_prod_unfold)
  moreover obtain m where r: "r = Some (enrichDecisionsWithKvTokenData m ds)" using run ds by (auto simp: run_v2_def Let_def case_prod_unfold)
  moreover have "dispatch rounds c mc SaturationAnalyzerName now ?groups e out = Some (enrichDecisionsWithKvTokenData m ds, e\<lparr>eg_state := st'\<rparr>, out')"
    using run r by (simp add: dispatch_def QueueingModelAnalyzerName_def SaturationAnalyzerName_def)
  ultimately show ?thesis using ok enriched_decisions by blast
qed

lemma variant_signal:
  assumes "active_variants c e cy = Some vas" and "recorded (out_gauges out)"
    and "\<forall>va\<in>set vas. plain_name (va_Name va) \<and> CHR ''|'' \<notin> set (va_Namespace va)"
    and "distinct (map va_key vas)" and "distinct (map target_name_key vas)"
    and "\<forall>va\<in>set vas. \<forall>t. readable_target c va = Some t \<longrightarrow> admitted va t"
    and ok: "\<forall>d\<in>fst ` set ds. decision_in_bounds d \<and>
      (\<exists>g\<in>set (map (model_group_of c pf mc) (GroupVariantAutoscalingByModel vas)). \<exists>data.
        mg_data g = Inr (Some data) \<and> of_model (mg_ModelID g) (mg_Namespace g) d \<and> of_state (in_VariantStates (md_input data)) d)"
    and entry: "(key, va) \<in> set (va_map vas)"
  shows "\<exists>t acc n. readable_target c va = Some t \<and>
    readings (out_gauges (applySaturationDecisions c [] refused ds (va_map vas) out)) (va_Name va) (va_Namespace va) = {(acc, n)} \<and>
    (GetReplicas t = Some n \<or> signal_in_bounds va t n)"
proof -
  have va: "va \<in> set vas" "key = va_key va" using va_map_entry [OF entry] by auto
  obtain t where t: "readable_target c va = Some t" using active_variants_facts(2) [OF assms(1) va(1)] by blast
  have adm: "admitted va t" using assms(6) va(1) t by blast
  then obtain n where n: "GetReplicas t = Some n" "n < 2 ^ 31" by (auto simp: admitted_def split: option.splits)
  have plain: "\<forall>va\<in>set vas. plain_name (va_Name va)" "\<forall>va\<in>set vas. CHR ''|'' \<notin> set (va_Namespace va)" using assms(3) by blast+
  show ?thesis
  proof (cases "map_of (decision_map ds) key")
    case None
    have held: "fresh_variant va" "0 < n" using active_held [OF assms(1) va(1) t n(1)] by auto
    from held_signal [OF assms(2) plain(1) entry None held(1) t n(1) less_imp_le [OF held(2)] n(2)] t n(1) show ?thesis by blast
  next
    case (Some x)
    obtain d kv where x: "x = (d, kv)" by (cases x)
    have d: "d \<in> fst ` set ds" "va_key va = GetNamespacedKey (d_Namespace d) (d_VariantName d)"
      using decision_map_entry [OF Some] x va(2) by force+
    from ok d(1) obtain g data where "decision_in_bounds d"
      and g: "g \<in> set (map (model_group_of c pf mc) (GroupVariantAutoscalingByModel vas))"
        "mg_data g = Inr (Some data)" "of_model (mg_ModelID g) (mg_Namespace g) d" "of_state (in_VariantStates (md_input data)) d" by blast
    with decision_of_variant [OF plain(2) assms(4,5) g va(1) d(2) t] adm
    have "wrap32 (d_TargetReplicas d) = d_TargetReplicas d \<and> signal_in_bounds va t (d_TargetReplicas d)"
      using bounds_of_decision by blast
    then show ?thesis using cycle_signals [OF assms(2) plain(1) entry, of c refused ds] Some x t by (auto simp: chosen_alloc_def Let_def)
  qed
qed


section \<open>An example cycle\<close>

definition example_hpa :: autoscaler where
  "example_hpa = \<lparr>as_Name = ''a'', as_Namespace = ''ns'', as_Labels = [], as_Annotations = [(Managed, enabledValue), (ModelID_key, ''m'')],
     as_Deleted = False, as_TargetRef = Some \<lparr>tr_APIVersion = ''apps/v1'', tr_Kind = DeploymentKind, tr_Name = ''llm''\<rparr>,
     as_MinReplicas = Some 1, as_MaxReplicas = 5\<rparr>"

definition example_engine :: engine where
  "example_engine = \<lparr>eg_env = example_env\<lparr>ee_parseFloat := \<lambda>_. Some 10,
       ee_config := \<lparr>lc_global = [(''default'', example_cfg\<lparr>sc_AnalyzerName := SaturationAnalyzerName\<rparr>)], lc_namespaceConfigs = []\<rparr>\<rparr>,
     eg_state = \<lparr>es_sat = NewSaturationAnalyzer example_store, es_lastGood = []\<rparr>,
     eg_limiterBuilder = None, eg_limiterSig = None, eg_analyzers = [], eg_started = True, eg_limitedMode = False\<rparr>"

definition example_collector :: metrics_collector where
  "example_collector = \<lparr>mc_ReplicaMetrics = \<lambda>_ _ _ _ _. Inr [example_metrics\<lparr>rm_VariantName := ''a''\<rparr>], mc_SchedulerQueue = \<lambda>_. None, mc_ArrivalRate = \<lambda>_ _. 0\<rparr>"

definition example_cycle :: "bool \<Rightarrow> cycle_input" where
  "example_cycle qm = \<lparr>cy_now = 0, cy_HPAs = Inr [example_hpa], cy_ScaledObjects = NoMatch, cy_instance = [], cy_cancelled = \<lambda>_. False,
     cy_inventoryError = None, cy_hasQMAnalyzerConfig = qm\<rparr>"

lemma example_readable: "readable_target example_client (example_va ''a'' DeploymentKind) = Some (DeploymentTarget (example_meta 3) (example_pod 1))"
  by (simp add: example_variant_defs)

lemma example_discovery:
  "readyVariantAutoscalings (\<lambda>_. Some 10) (Inr [example_hpa]) NoMatch [] = [example_va ''a'' DeploymentKind]"
  by (simp add: readyVariantAutoscalings_def annotationSourcedVariants_def add_variants_def VariantAutoscalingFromHPA_def Parse_annotations_def
      variant_of_autoscaler_def IsManaged_def example_hpa_def example_va_def Managed_def ModelID_key_def VariantCost_key_def enabledValue_def
      DeploymentKind_def)

lemma example_active: "active_variants example_client (refreshLimiter example_engine) (example_cycle qm) = Some [example_va ''a'' DeploymentKind]"
proof -
  have "refreshLimiter example_engine = example_engine" by (simp add: refreshLimiter_def example_engine_def)
  moreover have "map_option fst (ActiveVariantAutoscaling example_client (\<lambda>_. False) [example_va ''a'' DeploymentKind]) = Some [example_va ''a'' DeploymentKind]"
    unfolding ActiveVariantAutoscaling_def
    by (simp add: filtered_variants example_readable isActive_def GetDesiredReplicas_def example_meta_def)
  ultimately show ?thesis by (simp add: active_variants_def example_engine_def example_cycle_def example_discovery)
qed



section \<open>Roles of the percentage-based path are independent\<close>

lemma target_keys:
  "mhas (CalculateSaturationTargets (Some a) ss) v \<Longrightarrow> v \<in> st_VariantName ` set ss \<or> v \<in> vs_VariantName ` set (ms_VariantAnalyses a)"
proof -
  have clamp: "mhas (fold (\<lambda>s ts. if mhas ts (st_VariantName s) then mput (st_VariantName s) (f s ts) ts else ts) xs m) v \<longleftrightarrow> mhas m v"
    for f :: "variant_replica_state \<Rightarrow> (string, int) gomap \<Rightarrow> int" and xs m v
    by (induction xs arbitrary: m) auto
  show "mhas (CalculateSaturationTargets (Some a) ss) v \<Longrightarrow> v \<in> st_VariantName ` set ss \<or> v \<in> vs_VariantName ` set (ms_VariantAnalyses a)"
    by (auto simp: CalculateSaturationTargets_def clamp_targets_def clamp Let_def mhas_fold_mput
        dest!: pick_cheapest_in pick_expensive_in split: if_splits option.splits)
qed

lemma grouped_variants: "set (mkeys (group_by_variant ms)) = rm_VariantName ` set ms"
proof (induction ms rule: rev_induct)
  case (snoc m ms)
  have "group_by_variant (ms @ [m]) = mput (rm_VariantName m) (mget [] (group_by_variant ms) (rm_VariantName m) @ [m]) (group_by_variant ms)"
    by (simp add: group_by_variant_def)
  then show ?case using snoc by (simp add: set_mkeys_mput del: set_map)
qed (simp add: group_by_variant_def)

lemma analyzed_variants:
  "vs_VariantName ` set (ms_VariantAnalyses (AnalyzeModelSaturation m ns metrics cfg)) \<subseteq> rm_VariantName ` set metrics"
proof (cases "metrics = []")
  case False
  have "map vs_VariantName (ms_VariantAnalyses (AnalyzeModelSaturation m ns metrics cfg)) = mkeys (group_by_variant metrics)"
    using False by (simp add: AnalyzeModelSaturation_def analyzeVariant_def Let_def case_prod_unfold)
  then show ?thesis using grouped_variants [of metrics] by (metis list.set_map order_refl)
qed (simp add: AnalyzeModelSaturation_def)

lemma role_decision_names:
  assumes "d \<in> set (analyze_role m ns cfg (filterReplicaMetricsByVariants metrics states) states)"
  shows "d_VariantName d \<in> st_VariantName ` set states"
proof -
  let ?ms = "map replica_metrics.truncate (filterReplicaMetricsByVariants metrics states)"
  let ?a = "AnalyzeModelSaturation m ns ?ms cfg"
  obtain p where p: "p \<in> set (CalculateSaturationTargets (Some ?a) states)" and d: "d = saturation_decision ?a states p"
    using assms by (auto simp: analyze_role_def convertSaturationTargetsToDecisions_def Let_def)
  have "d_VariantName d = fst p"
    unfolding d by (cases p) (simp add: saturation_decision_def SetDecisionReason_def Let_def split: option.split)
  moreover have "mhas (CalculateSaturationTargets (Some ?a) states) (fst p)" using p by (force simp: mhas_iff)
  moreover have "rm_VariantName ` set ?ms \<subseteq> st_VariantName ` set states"
    by (auto simp: filterReplicaMetricsByVariants_def replica_metrics.truncate_def)
  ultimately show ?thesis using target_keys [of ?a states "fst p"] analyzed_variants [of m ns ?ms cfg] by (metis (no_types, lifting) subsetD)
qed

lemma role_groups:
  "wf_map (groupByRole states) \<and> (\<forall>r. mget [] (groupByRole states) r = filter (\<lambda>s. normalizeRole (st_Role s) = r) states) \<and>
   set (mkeys (groupByRole states)) = (\<lambda>s. normalizeRole (st_Role s)) ` set states"
proof (induction states rule: rev_induct)
  case (snoc s states)
  have "groupByRole (states @ [s]) = mput (normalizeRole (st_Role s)) (mget [] (groupByRole states) (normalizeRole (st_Role s)) @ [s]) (groupByRole states)"
    by (simp add: groupByRole_def)
  then show ?case using snoc by (simp add: set_mkeys_mput del: set_map)
qed (simp add: groupByRole_def)

definition role_decisions :: "string \<Rightarrow> string \<Rightarrow> saturation_scaling_config \<Rightarrow> prepared_data \<Rightarrow> string \<Rightarrow> variant_decision list" where
  "role_decisions m ns cfg data r =
     (let states = filter (\<lambda>s. normalizeRole (st_Role s) = r) (pd_VariantStates data);
          metrics = filterReplicaMetricsByVariants (pd_ReplicaMetrics data) states
      in if metrics = [] then [] else analyze_role m ns cfg metrics states)"

lemma analyzeRoleGroups_decisions:
  "fst (analyzeRoleGroups m ns cfg data vas allocs out) =
     concat (map (role_decisions m ns cfg data) (sortedRoleKeys (groupByRole (pd_VariantStates data))))"
proof -
  have "fst (fold (role_step m ns cfg data vas allocs) roles acc) = fst acc @ concat (map (role_decisions m ns cfg data) roles)" for roles acc
    using role_groups [of "pd_VariantStates data"]
    by (induction roles arbitrary: acc) (auto simp: role_step_def role_decisions_def Let_def)
  then show ?thesis by (simp add: analyzeRoleGroups_def)
qed

lemma filter_concat_one:
  assumes "distinct rs" and "r \<in> set rs" and "\<And>x. x \<in> set (f r) \<Longrightarrow> P x" and "\<And>r' x. r' \<in> set rs \<Longrightarrow> r' \<noteq> r \<Longrightarrow> x \<in> set (f r') \<Longrightarrow> \<not> P x"
  shows "filter P (concat (map f rs)) = f r"
proof -
  obtain pre post where rs: "rs = pre @ r # post" using assms(2) by (meson split_list)
  have "filter P (concat (map f xs)) = []" if "set xs \<subseteq> set rs" "r \<notin> set xs" for xs
    using that assms(4) by (induction xs) (auto simp: filter_empty_conv)
  then have "filter P (concat (map f pre)) = []" "filter P (concat (map f post)) = []" using assms(1) by (auto simp: rs)
  moreover have "filter P (f r) = f r" using assms(3) by (simp add: filter_id_conv)
  ultimately show ?thesis by (simp add: rs)
qed

text \<open>C8. Prefill and decode scale independently: the decisions the percentage-based path makes for the variants of
  one role are those of an analysis of that role alone, from its own states and the metrics of its own
  variants, whatever the other roles do; a role without metrics gets no decisions and does not keep the
  others from theirs.\<close>

theorem roles_scale_independently:
  assumes "distinct (map st_VariantName (pd_VariantStates data))" and "s \<in> set (pd_VariantStates data)"
  defines "r \<equiv> normalizeRole (st_Role s)"
  shows "filter (\<lambda>d. \<exists>s'\<in>set (pd_VariantStates data). st_VariantName s' = d_VariantName d \<and> normalizeRole (st_Role s') = r)
      (fst (analyzeRoleGroups m ns cfg data vas allocs out)) =
    (let states = filter (\<lambda>s. normalizeRole (st_Role s) = r) (pd_VariantStates data);
         metrics = filterReplicaMetricsByVariants (pd_ReplicaMetrics data) states
     in if metrics = [] then [] else analyze_role m ns cfg metrics states)"
proof -
  let ?states = "pd_VariantStates data"
  have names: "\<exists>s'\<in>set ?states. st_VariantName s' = d_VariantName d \<and> normalizeRole (st_Role s') = q" if "d \<in> set (role_decisions m ns cfg data q)" for d q
    using that role_decision_names [of d m ns cfg "pd_ReplicaMetrics data" "filter (\<lambda>s. normalizeRole (st_Role s) = q) ?states"]
    by (auto simp: role_decisions_def Let_def split: if_splits)
  have "q = q'" if "s1 \<in> set ?states" "s2 \<in> set ?states" "st_VariantName s1 = st_VariantName s2" "normalizeRole (st_Role s1) = q" "normalizeRole (st_Role s2) = q'" for s1 s2 q q'
    using that assms(1) by (metis distinct_map inj_onD)
  note unique = this
  have "filter (\<lambda>d. \<exists>s'\<in>set ?states. st_VariantName s' = d_VariantName d \<and> normalizeRole (st_Role s') = r)
      (concat (map (role_decisions m ns cfg data) (sortedRoleKeys (groupByRole ?states)))) = role_decisions m ns cfg data r"
  proof (rule filter_concat_one)
    show "distinct (sortedRoleKeys (groupByRole ?states))" using role_groups [of ?states] by (simp add: sortedRoleKeys_def)
    show "r \<in> set (sortedRoleKeys (groupByRole ?states))"
      using role_groups [of ?states] assms(2) by (simp add: sortedRoleKeys_def r_def del: set_map)
    show "\<exists>s'\<in>set ?states. st_VariantName s' = d_VariantName x \<and> normalizeRole (st_Role s') = r" if "x \<in> set (role_decisions m ns cfg data r)" for x
      using names [OF that] .
    show "\<not> (\<exists>s'\<in>set ?states. st_VariantName s' = d_VariantName x \<and> normalizeRole (st_Role s') = r)"
      if "r' \<noteq> r" "x \<in> set (role_decisions m ns cfg data r')" for r' x
      using names [OF that(2)] unique that(1) by metis
  qed
  then show ?thesis by (simp add: analyzeRoleGroups_decisions role_decisions_def)
qed

definition example_data :: prepared_data where
  "example_data = \<lparr>pd_ReplicaMetrics = [example_metrics\<lparr>rm_VariantName := ''p''\<rparr>], pd_ScaleTargets = [], pd_VariantAutoscalings = [], pd_VariantCosts = [],
     pd_VariantStates = [zero_state\<lparr>st_VariantName := ''p'', st_Role := RolePrefill, st_CurrentReplicas := 2\<rparr>,
       zero_state\<lparr>st_VariantName := ''d'', st_Role := RoleDecode, st_CurrentReplicas := 1\<rparr>],
     pd_SchedulerQueue = None, pd_ArrivalRate = 0\<rparr>"

lemma roles_scale_independently_witness:
  "filter (\<lambda>d. \<exists>s'\<in>set (pd_VariantStates example_data). st_VariantName s' = d_VariantName d \<and> normalizeRole (st_Role s') = RoleDecode)
      (fst (analyzeRoleGroups ''m'' ''ns'' example_cfg example_data [] [] example_out)) = []"
proof -
  let ?s = "zero_state\<lparr>st_VariantName := ''d'', st_Role := RoleDecode, st_CurrentReplicas := 1\<rparr>"
  have "distinct (map st_VariantName (pd_VariantStates example_data))" and "?s \<in> set (pd_VariantStates example_data)"
    by (simp_all add: example_data_def zero_state_def)
  from roles_scale_independently [OF this, of "''m''" "''ns''" example_cfg "[]" "[]" example_out]
  show ?thesis
    by (simp add: example_data_def zero_state_def normalizeRole_def domain_consts filterReplicaMetricsByVariants_def example_metrics_def)
qed

end
