(* ===== verification/Spec2Isabelle.thy ===== *)
theory Spec2Isabelle
  imports Engine_Cycle
begin

text \<open>
  A verification development for the scaling core of the workload variant autoscaler
  (\<open>src/legacy/internal\<close>).

  \<^bold>\<open>The program.\<close>  The autoscaler watches inference models that run as several \<^emph>\<open>variants\<close> (one model on
  different accelerators, or its prefill and decode stages) and decides once per cycle how many replicas
  each variant should have.  A cycle of the token-based path collects metrics, lets analyzers report
  supply and demand per variant, role and model, turns the totals into required and spare capacity, lets
  an optimizer choose targets under GPU budgets, and applies the scale-to-zero policy.  The older
  percentage-based path analyzes saturation directly.  Limiters cap decisions by the physical GPU
  inventory and by quotas.  Everything is steered by ConfigMaps.

  \<^bold>\<open>The theories\<close>, in the order in which they build on each other, with the sources they model:

  \<^item> \<open>Prelude\<close>: Go values (maps, sorting, integer division, wrap-around) and their lemmas.
  \<^item> \<open>Domain\<close>: \<open>domain/*.go\<close>, the decision, replica state and report records;
    \<open>accelerator.go\<close>, \<open>constants.go\<close>.
  \<^item> \<open>Quota_Config\<close>: \<open>config/quota_limiter.go\<close>, quota entries and their validation.
  \<^item> \<open>Greedy_Saturation\<close>: \<open>pipeline/greedy_saturation_algorithm.go\<close> over the allocator
    interface of \<open>limiter_interfaces.go\<close>, which is the locale \<open>resource_allocator\<close>.
  \<^item> \<open>Type_Inventory\<close>, \<open>Quota_Inventory\<close>: the two inventories and their allocators; both
    interpret the allocator locale.
  \<^item> \<open>Limiter\<close>: \<open>default_limiter.go\<close>, \<open>composite_limiter.go\<close>, \<open>limiter_factory.go\<close>.
  \<^item> \<open>Saturation_Config\<close>: \<open>config/saturation_scaling.go\<close>, \<open>configmap_helpers.go\<close> and the
    resolution of \<open>config.go\<close> and \<open>engine.go\<close>.
  \<^item> \<open>Scale_To_Zero\<close>, \<open>Enforcer\<close>: \<open>config/scale_to_zero.go\<close>, \<open>pipeline/enforcer.go\<close>.
  \<^item> \<open>Saturation_V1\<close>: \<open>saturationv1/analyzer.go\<close>, the percentage-based analyzer.
  \<^item> \<open>Engine_Args\<close>, \<open>Capacity_Store\<close>, \<open>Role_Totals\<close>, \<open>Saturation_V2\<close>:
    \<open>analyzers/saturation_v2\<close> and \<open>aggregation.go\<close>, the token-based analyzer with the engine
    arguments it parses and the knowledge it keeps (locale \<open>knowledge_store\<close>).
  \<^item> \<open>Itl_Model\<close>, \<open>Throughput\<close>: \<open>analyzers/throughput\<close>, calibration of latency and the
    throughput report.
  \<^item> \<open>Analyzer_Helpers\<close>, \<open>Paired_Allocation\<close>, \<open>Cost_Aware\<close>: \<open>pipeline/analyzer_helpers.go\<close>
    and \<open>cost_aware_optimizer.go\<close>; the pick of a variant is a locale with one interpretation per
    optimizer.
  \<^item> \<open>Gpu_Budget\<close>, \<open>Greedy_Score\<close>, \<open>Rescale\<close>: merging of constraints,
    \<open>greedy_score_optimizer.go\<close> and \<open>rescale.go\<close>.
  \<^item> \<open>Variants\<close>: \<open>utils/variant.go\<close>, \<open>utils/scaletarget\<close>, \<open>annotations\<close>, \<open>accelerator.go\<close>:
    how annotated autoscalers become variants, the workloads they point to, their grouping by model and
    the replica states of a cycle.
  \<^item> \<open>Engine_V2\<close>, \<open>V2_Cycle\<close>: \<open>saturation/engine_v2.go\<close>, the token-based path from reports to
    decisions.
  \<^item> \<open>Emission\<close>: \<open>actuator.go\<close>, the replica gauges of \<open>metrics.go\<close>, the events and
    \<open>applySaturationDecisions\<close> and \<open>emitSafetyNetMetrics\<close> of \<open>engine.go\<close>: what the external scaler reads.
  \<^item> \<open>Engine_Cycle\<close>: \<open>optimize\<close> of \<open>engine.go\<close> with the data it prepares, both paths, the choice
    between them and the refresh of the limiter; a cycle from the listed autoscalers to the signals.

  \<^bold>\<open>Correspondence.\<close>  A struct is a record, an enumeration a datatype, a map an association list whose order
  is that of \<open>range\<close> and which theorems leave open.  A method that mutates its receiver returns the new
  value.  Errors are the left side of a sum.  Floats are real numbers: rounding is not modelled, and the
  guards against NaN and infinities are vacuous.  Integers are unbounded except where the code converts
  or adds 64-bit token counts, where they wrap.  The clock, the cancellation of a context, the YAML
  decoder, the float parser, discovered nodes, request counts and registered analyzers are arguments.

  \<^bold>\<open>What is shown.\<close>  Configuration: validation is exact, and what a model resolves to is consistent whatever
  the ConfigMap holds.  Limiters: no pass exceeds what discovery found or any quota, and enough capacity
  serves everybody.  Policy: a model keeps a replica unless it is idle and may go to zero.  Analyzers:
  capacities stay within memory, roles partition the model, state invariants hold over every run, the
  latency line is the least-squares line.  Engine: the two signals are exact and never contradict each
  other, liveness follows the last report, and every decision of a cycle respects the bounds of its
  variant.  Variants and emission: discovered variants are those of the HPAs overridden by those of the
  ScaledObjects, they split into active and inactive ones, the gauges of a variant are one cell, every active variant is signalled
  exactly once, and a variant is signalled its running count or a target within its bounds; a refused
  configuration holds everything.  Optimizers: a scale-up covers demand and restores the target utilization, a scale-down stays
  within spare capacity, fair share and rescale stay within budgets, and their loops end.  Where the code
  deviates from what its comments promise, a theorem shows the deviation on an input.

  \<^bold>\<open>Loops and fuel.\<close>  Loops are recursions with a termination proof, except the fair-share loop, which takes a
  number of rounds; for models with one role a number computed from the outstanding work is shown to
  suffice.  The tolerance of the rescale pass is exact for up to \<open>5 * 10^8\<close> models.

  \<^bold>\<open>Not modelled.\<close>  The collection of metrics from Prometheus and from the scheduler, the controllers and
  reconcilers, the datastore, the discovery of GPUs on nodes and the setup of the process are input and
  output around the core; their results are arguments of a cycle.  The engine for scaling from zero and
  the direct actuator write to the cluster past this cycle.  The queueing-model path with
  its analyzer and library is parked: the engine refuses to dispatch it.  The coordinator and the decision
  cache are not called by the cycle.  Gauges about the process itself
  and log lines are left out.
\<close>

text \<open>C21. A block of quota entries passes validation exactly when its entries are well-formed and
  their names differ: every entry has a name and the type \<open>quota\<close>, uses only the fields of its
  scope, names no blank type, namespace or exclusion, and every quota is the unlimited sentinel or
  a count up to the bound.\<close>

theorem validation_is_exact:
  "snd (Validate_entries qs) = [] \<longleftrightarrow> list_all wf_entry qs \<and> distinct (map q_Name qs)"
  by (simp add: Validate_entries_def validate_loop_ok)

end
